(* ===== verification/Prelude.thy ===== *)
theory Prelude
  imports Main "HOL-Library.Word" "HOL-Library.Multiset" "HOL-Library.Log_Nat" "HOL-Library.Sublist"
begin

text \<open>
  Shared vocabulary of the development.  It fixes how Rust values are read in HOL, and holds
  the generic lemmas (on results, folds, sorting, maps and words) that the components share.

  Integers.  Unsigned integers are words of their width (\<open>u32 = 32 word\<close>); word arithmetic
  wraps, as Rust's primitive arithmetic does in the release profile the README builds
  (\<^verbatim>\<open>cargo build --release\<close>, no overflow checks in Cargo.toml) and as the arithmetic of
  alloy's \<^verbatim>\<open>U256\<close> does in every profile.  Signed integers are \<open>int\<close> with the
  wrap-around written out (\<open>wrap_i32\<close> and friends, which are two's complement truncation).
  \<open>usize\<close> values are list lengths and indices, hence \<open>nat\<close>.

  Panics.  A Rust function that can panic returns \<open>'a res\<close>: \<open>Inl\<close> carries the kind of
  panic, \<open>Inr\<close> the value.  Functions returning \<open>Option\<close> or \<open>Result\<close> in the source
  return \<open>option\<close> or a sum inside.
\<close>

named_theorems rust_simps \<open>unfolding rules for results, casts and checked operations\<close>
named_theorems rust_splits \<open>case splits for results\<close>

type_synonym u8 = "8 word"
type_synonym u16 = "16 word"
type_synonym u32 = "32 word"
type_synonym u64 = "64 word"
type_synonym u128 = "128 word"
type_synonym u256 = "256 word"
type_synonym address = "160 word"
type_synonym b256 = "256 word"

section \<open>Signed integers\<close>

definition wrap_i16 :: "int \<Rightarrow> int" where
  "wrap_i16 x = signed_take_bit 15 x"

definition wrap_i32 :: "int \<Rightarrow> int" where
  "wrap_i32 x = signed_take_bit 31 x"

definition wrap_i128 :: "int \<Rightarrow> int" where
  "wrap_i128 x = signed_take_bit 127 x"

definition wrap_i256 :: "int \<Rightarrow> int" where
  "wrap_i256 x = signed_take_bit 255 x"

definition in_i16 :: "int \<Rightarrow> bool" where
  "in_i16 x \<longleftrightarrow> - (2 ^ 15) \<le> x \<and> x < 2 ^ 15"

definition in_i32 :: "int \<Rightarrow> bool" where
  "in_i32 x \<longleftrightarrow> - (2 ^ 31) \<le> x \<and> x < 2 ^ 31"

lemma wrap_i16_id: "in_i16 x \<Longrightarrow> wrap_i16 x = x"
  unfolding wrap_i16_def in_i16_def by (intro signed_take_bit_int_eq_self) auto

lemma wrap_i32_id: "in_i32 x \<Longrightarrow> wrap_i32 x = x"
  unfolding wrap_i32_def in_i32_def by (intro signed_take_bit_int_eq_self) auto

lemma wrap_i128_id: "- (2 ^ 127) \<le> x \<Longrightarrow> x < 2 ^ 127 \<Longrightarrow> wrap_i128 x = x"
  unfolding wrap_i128_def by (intro signed_take_bit_int_eq_self) auto

lemma wrap_i256_id: "- (2 ^ 255) \<le> x \<Longrightarrow> x < 2 ^ 255 \<Longrightarrow> wrap_i256 x = x"
  unfolding wrap_i256_def by (intro signed_take_bit_int_eq_self) auto

lemma in_i16_wrap: "in_i16 (wrap_i16 x)"
  unfolding wrap_i16_def in_i16_def
  using signed_take_bit_int_less_exp [of 15 x] signed_take_bit_int_greater_eq_minus_exp [of 15 x]
  by simp

lemma in_i32_wrap: "in_i32 (wrap_i32 x)"
  unfolding wrap_i32_def in_i32_def
  using signed_take_bit_int_less_exp [of 31 x] signed_take_bit_int_greater_eq_minus_exp [of 31 x]
  by simp

text \<open>Rust's \<open>/\<close> and \<open>%\<close> on signed integers truncate towards zero.\<close>

definition tdiv :: "int \<Rightarrow> int \<Rightarrow> int" where
  "tdiv a b = sgn a * sgn b * (\<bar>a\<bar> div \<bar>b\<bar>)"

definition tmod :: "int \<Rightarrow> int \<Rightarrow> int" where
  "tmod a b = sgn a * (\<bar>a\<bar> mod \<bar>b\<bar>)"

lemma tdiv_nonneg: "0 \<le> a \<Longrightarrow> 0 < b \<Longrightarrow> tdiv a b = a div b"
  by (cases "a = 0") (auto simp: tdiv_def)

lemma tdiv_tmod: "tdiv a b * b + tmod a b = a"
proof -
  have "sgn b * b = \<bar>b\<bar>" by (simp add: sgn_mult_abs mult.commute abs_sgn)
  then have "tdiv a b * b + tmod a b = sgn a * ((\<bar>a\<bar> div \<bar>b\<bar>) * \<bar>b\<bar>) + sgn a * (\<bar>a\<bar> mod \<bar>b\<bar>)"
    unfolding tdiv_def tmod_def by (metis mult.assoc mult.commute)
  also have "\<dots> = sgn a * \<bar>a\<bar>"
    by (metis distrib_left div_mult_mod_eq)
  also have "\<dots> = a" by (simp add: sgn_mult_abs)
  finally show ?thesis .
qed

text \<open>The floor division that \<open>compress_tick\<close> computes from the truncating one.\<close>

lemma tdiv_floor:
  assumes "0 < b"
  shows "(if a < 0 \<and> tmod a b \<noteq> 0 then tdiv a b - 1 else tdiv a b) = a div b"
proof (cases "a < 0")
  case False
  then show ?thesis using assms by (simp add: tdiv_nonneg)
next
  case True
  have m: "tmod a b = - (- a mod b)" and d: "tdiv a b = - (- a div b)"
    using True assms by (simp_all add: tmod_def tdiv_def)
  show ?thesis
  proof (cases "- a mod b = 0")
    case z: True
    then have "b dvd a" by (simp add: mod_eq_0_iff_dvd)
    then show ?thesis using z m d by (simp add: dvd_neg_div)
  next
    case z: False
    then have "a mod b \<noteq> 0" by (simp add: mod_eq_0_iff_dvd)
    then have "- a div b = - (a div b) - 1" using zdiv_zminus1_eq_if [of b a] assms by simp
    then show ?thesis using z m d True by simp
  qed
qed

section \<open>Panics and results\<close>

datatype panic =
    DivByZero
  | ArithOverflow
  | IndexOutOfBounds
  | ExpectFailed
  | AssertFailed
  | ClampBounds
  | ConversionLoss

type_synonym 'a res = "panic + 'a"

definition rbind :: "'a res \<Rightarrow> ('a \<Rightarrow> 'b res) \<Rightarrow> 'b res" where
  "rbind m f = (case m of Inl e \<Rightarrow> Inl e | Inr x \<Rightarrow> f x)"

lemma rbind_Inl [simp]: "rbind (Inl e) f = Inl e"
  by (simp add: rbind_def)

lemma rbind_Inr [simp]: "rbind (Inr x) f = f x"
  by (simp add: rbind_def)

lemma rbind_eq_Inr [simp]: "rbind m f = Inr y \<longleftrightarrow> (\<exists>x. m = Inr x \<and> f x = Inr y)"
  by (cases m) auto

lemma rbind_cong [fundef_cong]:
  "m = m' \<Longrightarrow> (\<And>x. m' = Inr x \<Longrightarrow> f x = f' x) \<Longrightarrow> rbind m f = rbind m' f'"
  by (cases m') auto

text \<open>A result that is not a panic: the goal of every absence-of-panics proof.\<close>

lemma isl_rbind [simp]: "isl (rbind m f) \<longleftrightarrow> isl m \<or> (\<exists>x. m = Inr x \<and> isl (f x))"
  by (cases m) auto

lemma not_isl_Inr: "\<not> isl m \<longleftrightarrow> (\<exists>x. m = Inr x)"
  by (cases m) auto

lemma rbind_assoc: "rbind (rbind m f) g = rbind m (\<lambda>x. rbind (f x) g)"
  by (cases m) auto

definition from_option :: "panic \<Rightarrow> 'a option \<Rightarrow> 'a res" where
  "from_option e x = (case x of None \<Rightarrow> Inl e | Some v \<Rightarrow> Inr v)"

lemma from_option_simps [simp]:
  "from_option e None = Inl e"
  "from_option e (Some v) = Inr v"
  "from_option e x = Inr v \<longleftrightarrow> x = Some v"
  by (auto simp: from_option_def split: option.splits)

text \<open>Slice indexing \<open>xs[i]\<close>, which panics out of range.\<close>

definition index :: "'a list \<Rightarrow> nat \<Rightarrow> 'a res" where
  "index xs i = (if i < length xs then Inr (xs ! i) else Inl IndexOutOfBounds)"

lemma index_Inr [simp]: "index xs i = Inr x \<longleftrightarrow> i < length xs \<and> xs ! i = x"
  by (auto simp: index_def)

text \<open>\<open>slice::get\<close>, which returns an option.\<close>

definition get :: "'a list \<Rightarrow> nat \<Rightarrow> 'a option" where
  "get xs i = (if i < length xs then Some (xs ! i) else None)"

lemma get_Some [simp]: "get xs i = Some x \<longleftrightarrow> i < length xs \<and> xs ! i = x"
  by (auto simp: get_def)

fun rmap :: "('a \<Rightarrow> 'b res) \<Rightarrow> 'a list \<Rightarrow> 'b list res" where
  "rmap f [] = Inr []"
| "rmap f (x # xs) = rbind (f x) (\<lambda>y. rbind (rmap f xs) (\<lambda>ys. Inr (y # ys)))"

lemma rmap_Inr_length: "rmap f xs = Inr ys \<Longrightarrow> length ys = length xs"
  by (induction xs arbitrary: ys) auto

lemma rmap_Inr_nth:
  "rmap f xs = Inr ys \<Longrightarrow> i < length xs \<Longrightarrow> f (xs ! i) = Inr (ys ! i)"
proof (induction xs arbitrary: ys i)
  case Nil
  then show ?case by simp
next
  case (Cons x xs)
  then show ?case by (cases i) auto
qed

lemma rmap_Inr_set: "rmap f xs = Inr ys \<Longrightarrow> y \<in> set ys \<Longrightarrow> \<exists>x \<in> set xs. f x = Inr y"
  by (induction xs arbitrary: ys) auto

lemma rmap_pure: "(\<And>x. x \<in> set xs \<Longrightarrow> f x = Inr (g x)) \<Longrightarrow> rmap f xs = Inr (map g xs)"
  by (induction xs) auto

section \<open>Division and conversion of words\<close>

definition udiv :: "'w::len word \<Rightarrow> 'w word \<Rightarrow> 'w word res" where
  "udiv a b = (if b = 0 then Inl DivByZero else Inr (a div b))"

lemma udiv_Inr [simp]: "udiv a b = Inr c \<longleftrightarrow> b \<noteq> 0 \<and> a div b = c"
  by (auto simp: udiv_def)

lemma udiv_Inl [simp]: "udiv a b = Inl e \<longleftrightarrow> b = 0 \<and> e = DivByZero"
  by (auto simp: udiv_def)

text \<open>
  \<open>U256::to::<T>()\<close> panics when the value does not fit; \<open>as\<close> casts between the
  primitive unsigned types truncate.
\<close>

definition to_u128 :: "u256 \<Rightarrow> u128 res" where
  "to_u128 w = (if unat w < 2 ^ 128 then Inr (ucast w) else Inl ConversionLoss)"

definition to_u64 :: "u256 \<Rightarrow> u64 res" where
  "to_u64 w = (if unat w < 2 ^ 64 then Inr (ucast w) else Inl ConversionLoss)"

definition to_u32 :: "u256 \<Rightarrow> u32 res" where
  "to_u32 w = (if unat w < 2 ^ 32 then Inr (ucast w) else Inl ConversionLoss)"

lemma unat_ucast_id:
  fixes w :: "'a::len word"
  shows "unat w < 2 ^ LENGTH('b) \<Longrightarrow> unat (ucast w :: 'b::len word) = unat w"
  by (subst unsigned_ucast_eq) (simp only: take_bit_nat_eq_self)

lemma unat_ucast_up:
  fixes w :: "'a::len word"
  assumes "LENGTH('a) \<le> LENGTH('b)"
  shows "unat (ucast w :: 'b::len word) = unat w"
proof (rule unat_ucast_id)
  have "unat w < 2 ^ LENGTH('a)" by (rule unsigned_less)
  also have "\<dots> \<le> (2::nat) ^ LENGTH('b)" using assms by (simp add: power_increasing)
  finally show "unat w < 2 ^ LENGTH('b)" .
qed

lemma unat_mult_id:
  fixes a b :: "'w::len word"
  shows "unat a * unat b < 2 ^ LENGTH('w) \<Longrightarrow> unat (a * b) = unat a * unat b"
  by (simp add: unat_word_ariths)

lemma unat_add_id:
  fixes a b :: "'w::len word"
  shows "unat a + unat b < 2 ^ LENGTH('w) \<Longrightarrow> unat (a + b) = unat a + unat b"
  by (simp add: unat_word_ariths)

lemma unat_minus_id:
  fixes a b :: "'w::len word"
  shows "unat b \<le> unat a \<Longrightarrow> unat (a - b) = unat a - unat b"
  by (simp add: unat_sub_if')

lemma unat_of_nat_id: "n < 2 ^ LENGTH('w) \<Longrightarrow> unat (of_nat n :: 'w::len word) = n"
  by (simp add: unsigned_of_nat take_bit_nat_eq_self)

lemma unat_of_nat_u32: "n < 2 ^ 32 \<Longrightarrow> unat (of_nat n :: u32) = n"
  by (rule unat_of_nat_id) simp

lemma unat_mult_u256: "unat a * unat b < 2 ^ 256 \<Longrightarrow> unat (a * b :: u256) = unat a * unat b"
  by (rule unat_mult_id) simp

lemma unat_add_u256: "unat a + unat b < 2 ^ 256 \<Longrightarrow> unat (a + b :: u256) = unat a + unat b"
  by (rule unat_add_id) simp

lemma unat_mult_u128: "unat a * unat b < 2 ^ 128 \<Longrightarrow> unat (a * b :: u128) = unat a * unat b"
  by (rule unat_mult_id) simp

lemma unat_add_u128: "unat a + unat b < 2 ^ 128 \<Longrightarrow> unat (a + b :: u128) = unat a + unat b"
  by (rule unat_add_id) simp

lemma uint_less_of_unat: "unat (w :: 'w::len word) < 2 ^ n \<Longrightarrow> uint w < 2 ^ n"
  by (metis of_nat_less_iff of_nat_numeral of_nat_power uint_nat)

lemma sint_small_u256:
  assumes "unat (w :: u256) < 2 ^ 255"
  shows "sint w = uint w"
proof -
  have "uint w < 2 ^ 255" using assms by (rule uint_less_of_unat)
  then show ?thesis unfolding sint_uint by (intro signed_take_bit_int_eq_self) (simp_all add: order_trans [of _ 0])
qed

section \<open>Folds\<close>

lemma foldl_invariant:
  "P s \<Longrightarrow> (\<And>s x. x \<in> set xs \<Longrightarrow> P s \<Longrightarrow> P (f s x)) \<Longrightarrow> P (foldl f s xs)"
  by (induction xs arbitrary: s) auto

section \<open>Stable sorting by a comparison\<close>

text \<open>
  \<open>slice::sort_by\<close> is a stable sort.  Only the order and the stability are observable, so it
  is modelled by insertion: each element goes after every element it is not strictly below.
\<close>

fun ins_by :: "('a \<Rightarrow> 'a \<Rightarrow> bool) \<Rightarrow> 'a \<Rightarrow> 'a list \<Rightarrow> 'a list" where
  "ins_by lt x [] = [x]"
| "ins_by lt x (y # ys) = (if lt x y then x # y # ys else y # ins_by lt x ys)"

definition sort_by :: "('a \<Rightarrow> 'a \<Rightarrow> bool) \<Rightarrow> 'a list \<Rightarrow> 'a list" where
  "sort_by lt xs = foldl (\<lambda>acc x. ins_by lt x acc) [] xs"

lemma mset_ins_by [simp]: "mset (ins_by lt x ys) = add_mset x (mset ys)"
  by (induction ys) auto

lemma set_ins_by [simp]: "set (ins_by lt x ys) = insert x (set ys)"
  by (induction ys) auto

lemma mset_sort_by [simp]: "mset (sort_by lt xs) = mset xs"
proof -
  have "mset (foldl (\<lambda>acc x. ins_by lt x acc) ys xs) = mset ys + mset xs" for ys
    by (induction xs arbitrary: ys) simp_all
  from this [of "[]"] show ?thesis by (simp add: sort_by_def)
qed

lemma set_sort_by [simp]: "set (sort_by lt xs) = set xs"
  by (metis mset_sort_by set_mset_mset)

lemma length_sort_by [simp]: "length (sort_by lt xs) = length xs"
  by (metis mset_sort_by size_mset)

lemma distinct_sort_by [simp]: "distinct (sort_by lt xs) = distinct xs"
  by (rule mset_eq_imp_distinct_iff) simp

text \<open>
  A comparison derived from a key into a linear order is the only kind the code uses; the
  result is sorted by that key.
\<close>

definition weak_order :: "('a \<Rightarrow> 'a \<Rightarrow> bool) \<Rightarrow> bool" where
  "weak_order lt \<longleftrightarrow> (\<forall>a b. lt a b \<longrightarrow> \<not> lt b a) \<and> (\<forall>a b c. \<not> lt b a \<longrightarrow> \<not> lt c b \<longrightarrow> \<not> lt c a)"

lemma sorted_ins_by:
  "weak_order lt \<Longrightarrow> sorted_wrt (\<lambda>a b. \<not> lt b a) ys \<Longrightarrow> sorted_wrt (\<lambda>a b. \<not> lt b a) (ins_by lt x ys)"
proof (induction ys)
  case Nil
  then show ?case by simp
next
  case (Cons y ys)
  show ?case
  proof (cases "lt x y")
    case True
    then have nyx: "\<not> lt y x" using Cons.prems(1) unfolding weak_order_def by blast
    have "\<not> lt z x" if "z \<in> set ys" for z
    proof -
      have "\<not> lt z y" using that Cons.prems(2) by simp
      with nyx Cons.prems(1) show ?thesis unfolding weak_order_def by blast
    qed
    then show ?thesis using True nyx Cons.prems(2) by simp
  next
    case False
    have "sorted_wrt (\<lambda>a b. \<not> lt b a) (ins_by lt x ys)" using Cons by simp
    then show ?thesis using False Cons.prems(2) by simp
  qed
qed

lemma sorted_sort_by: "weak_order lt \<Longrightarrow> sorted_wrt (\<lambda>a b. \<not> lt b a) (sort_by lt xs)"
  unfolding sort_by_def by (rule foldl_invariant) (auto intro: sorted_ins_by)

lemma weak_order_key: "weak_order (\<lambda>a b. (k b :: 'b::linorder) < k a)"
  by (auto simp: weak_order_def)

section \<open>Subsequences\<close>

lemma subseq_set: "subseq xs ys \<Longrightarrow> set xs \<subseteq> set ys"
  by (induction rule: list_emb.induct) auto

lemma subseq_distinct: "subseq xs ys \<Longrightarrow> distinct ys \<Longrightarrow> distinct xs"
  by (induction rule: list_emb.induct) (auto dest: subseq_set)

lemma sorted_wrt_subseq: "subseq xs ys \<Longrightarrow> sorted_wrt P ys \<Longrightarrow> sorted_wrt P xs"
  by (induction rule: list_emb.induct) (auto dest: subseq_set)

end
