(* ===== verification/F64.thy ===== *)
theory F64
  imports Prelude Complex_Main
begin

text \<open>
  Rust's \<^verbatim>\<open>f64\<close> (IEEE 754 binary64, round to nearest even), executable.  A value is not
  a number, an infinity, a signed zero or a nonzero rational; every operation computes the
  exact rational result and rounds it once with \<open>fround\<close>.  The casts are Rust's: \<open>as f64\<close>
  rounds, \<open>as u128\<close> truncates and saturates, sending not-a-number to 0.  \<open>f64_powi\<close> is the
  square-and-multiply loop of the compiler runtime.
\<close>

section \<open>Values\<close>

datatype f64 =
    FNaN
  | FInf bool     \<comment> \<open>the flag is the sign bit\<close>
  | FZero bool
  | FNum rat      \<comment> \<open>nonzero\<close>

fun fval :: "f64 \<Rightarrow> rat" where
  "fval (FNum q) = q"
| "fval _ = 0"

fun is_fin :: "f64 \<Rightarrow> bool" where
  "is_fin (FNum q) = True"
| "is_fin (FZero s) = True"
| "is_fin _ = False"

fun fsign :: "f64 \<Rightarrow> bool" where
  "fsign FNaN = False"
| "fsign (FInf s) = s"
| "fsign (FZero s) = s"
| "fsign (FNum q) = (q < 0)"

section \<open>Powers of two and binary exponents\<close>

text \<open>
  Everything below stays in \<open>int\<close> and \<open>rat\<close>, whose code equations the simplifier can run
  in binary, so that closed float expressions evaluate by \<open>code_simp\<close>.
\<close>

function ipow2 :: "int \<Rightarrow> int" where
  "ipow2 e = (if e \<le> 0 then 1 else 2 * ipow2 (e - 1))"
  by pat_completeness auto
termination by (relation "measure nat") auto

declare ipow2.simps [simp del]

lemma ipow2_power: "ipow2 e = 2 ^ nat e"
proof (induction e rule: ipow2.induct)
  case (1 e)
  show ?case
  proof (cases "e \<le> 0")
    case False
    then have "nat e = Suc (nat (e - 1))" by simp
    then show ?thesis using 1 False by (simp add: ipow2.simps [of e])
  qed (simp add: ipow2.simps [of e])
qed

definition pow2 :: "int \<Rightarrow> rat" where
  "pow2 e = (if 0 \<le> e then of_int (ipow2 e) else 1 / of_int (ipow2 (- e)))"

lemma pow2_alt: "pow2 e = (if 0 \<le> e then 2 ^ nat e else 1 / 2 ^ nat (- e))"
  by (simp add: pow2_def ipow2_power)

lemma pow2_power_int: "pow2 e = power_int 2 e"
  by (simp add: pow2_alt power_int_def power_one_over inverse_eq_divide)

function blen :: "int \<Rightarrow> int" where
  "blen n = (if n \<le> 0 then 0 else blen (n div 2) + 1)"
  by pat_completeness auto
termination by (relation "measure nat") auto

declare blen.simps [simp del]

lemma blen_nonneg: "0 \<le> blen n"
proof (induction n rule: blen.induct)
  case (1 n)
  then show ?case by (simp add: blen.simps [of n])
qed

text \<open>\<open>blen n\<close> is the number of binary digits of a positive \<open>n\<close>.\<close>

lemma blen_bounds: "0 < n \<Longrightarrow> 2 ^ nat (blen n - 1) \<le> n \<and> n < 2 ^ nat (blen n)"
proof (induction n rule: blen.induct)
  case (1 n)
  show ?case
  proof (cases "n = 1")
    case True
    then show ?thesis by (simp add: blen.simps [of 1] blen.simps [of 0])
  next
    case False
    then have h: "0 < n div 2" using 1 by simp
    have IH: "2 ^ nat (blen (n div 2) - 1) \<le> n div 2" "n div 2 < 2 ^ nat (blen (n div 2))"
      using 1 h by simp_all
    have eq: "blen n = blen (n div 2) + 1" using 1 by (simp add: blen.simps [of n])
    have p: "0 < blen (n div 2)" using h blen_nonneg [of "n div 2 div 2"] by (simp add: blen.simps [of "n div 2"])
    have a: "nat (blen n - 1) = Suc (nat (blen (n div 2) - 1))" using eq p by simp
    have b: "nat (blen n) = Suc (nat (blen (n div 2)))" using eq p by simp
    have "2 * (2 ^ nat (blen (n div 2) - 1)) \<le> n" using IH(1) by linarith
    moreover have "n div 2 + 1 \<le> 2 ^ nat (blen (n div 2))" using IH(2) by simp
    then have "n < 2 * (2 ^ nat (blen (n div 2)))" by linarith
    ultimately show ?thesis by (simp add: a b)
  qed
qed

lemma pow2_pos [simp]: "0 < pow2 e"
  by (simp add: pow2_alt)

lemma pow2_nonneg [simp]: "0 \<le> pow2 e"
  by (simp add: less_imp_le)

lemma pow2_neq0 [simp]: "pow2 e \<noteq> 0"
  by (simp add: pow2_alt)

lemma pow2_add: "pow2 (a + b) = pow2 a * pow2 b"
  by (simp add: pow2_power_int power_int_add)

lemma pow2_diff: "pow2 (a - b) = pow2 a / pow2 b"
  by (simp add: pow2_power_int power_int_diff)

lemma pow2_mono: "a \<le> b \<Longrightarrow> pow2 a \<le> pow2 b"
  unfolding pow2_power_int by (rule power_int_increasing) auto

lemma pow2_strict_mono: "a < b \<Longrightarrow> pow2 a < pow2 b"
  unfolding pow2_power_int by (rule power_int_strict_increasing) auto

lemma pow2_less_iff [simp]: "pow2 a < pow2 b \<longleftrightarrow> a < b"
  by (meson linorder_not_less pow2_mono pow2_strict_mono)

lemma pow2_le_iff [simp]: "pow2 a \<le> pow2 b \<longleftrightarrow> a \<le> b"
  by (meson linorder_not_less pow2_mono pow2_strict_mono)

lemma pow2_nat: "pow2 (int n) = 2 ^ n"
  by (simp add: pow2_alt)

lemma pow2_int: "0 \<le> e \<Longrightarrow> pow2 e = of_int (2 ^ nat e)"
  by (simp add: pow2_alt)

text \<open>The exponent \<open>e\<close> with \<open>2^e \<le> q < 2^(e+1)\<close>.\<close>

definition fexp :: "rat \<Rightarrow> int" where
  "fexp q = (if 1 \<le> q then blen \<lfloor>q\<rfloor> - 1 else - blen (\<lceil>1 / q\<rceil> - 1))"

lemma blen_pow2_bounds: "0 < n \<Longrightarrow> pow2 (blen n - 1) \<le> of_int n \<and> of_int n < pow2 (blen n)"
proof -
  assume n: "0 < n"
  have p: "0 < blen n" using n blen_nonneg [of "n div 2"] by (simp add: blen.simps [of n])
  have "2 ^ nat (blen n - 1) \<le> n \<and> n < 2 ^ nat (blen n)"
    using blen_bounds [OF n] .
  then have "(of_int (2 ^ nat (blen n - 1)) :: rat) \<le> of_int n \<and> (of_int n :: rat) < of_int (2 ^ nat (blen n))"
    by (simp only: of_int_le_iff of_int_less_iff)
  then show ?thesis using p by (simp add: pow2_int)
qed

lemma fexp_bounds:
  assumes q: "0 < q"
  shows "pow2 (fexp q) \<le> q" and "q < pow2 (fexp q + 1)"
proof -
  have "pow2 (fexp q) \<le> q \<and> q < pow2 (fexp q + 1)"
  proof (cases "1 \<le> q")
    case True
    define n where "n = \<lfloor>q\<rfloor>"
    have n: "0 < n" using True by (simp add: n_def)
    have e: "fexp q = blen n - 1" using True by (simp add: fexp_def n_def)
    have lo: "pow2 (blen n - 1) \<le> of_int n" using blen_pow2_bounds [OF n] by simp
    have nq: "of_int n \<le> q" by (simp add: n_def)
    have b0: "0 \<le> blen n" by (rule blen_nonneg)
    have "n < 2 ^ nat (blen n)" using blen_bounds [OF n] by simp
    then have "n + 1 \<le> 2 ^ nat (blen n)" by simp
    then have "(of_int (n + 1) :: rat) \<le> of_int (2 ^ nat (blen n))" by (simp only: of_int_le_iff)
    moreover have "q < of_int (n + 1)" unfolding n_def by linarith
    ultimately have "q < pow2 (blen n)" using b0 by (simp add: pow2_int)
    then show ?thesis using e lo nq by simp
  next
    case False
    define n where "n = \<lceil>1 / q\<rceil> - 1"
    have inv: "1 < 1 / q" using False q by simp
    have n: "0 < n" using inv by (simp add: n_def)
    have e: "fexp q = - blen n" using False by (simp add: fexp_def n_def)
    have b0: "0 \<le> blen n" by (rule blen_nonneg)
    have "n + 1 \<le> 2 ^ nat (blen n)" using blen_bounds [OF n] by simp
    then have "(of_int (n + 1) :: rat) \<le> of_int (2 ^ nat (blen n))" by (simp only: of_int_le_iff)
    moreover have "1 / q \<le> of_int (n + 1)" by (simp add: n_def)
    ultimately have hi: "1 / q \<le> pow2 (blen n)" using b0 by (simp add: pow2_int)
    have "of_int n < 1 / q" by (simp add: n_def) linarith
    then have lo: "pow2 (blen n - 1) < 1 / q" using blen_pow2_bounds [OF n] by linarith
    have "1 / pow2 (blen n) \<le> q" using hi q by (simp add: field_simps)
    moreover have "q < 1 / pow2 (blen n - 1)" using lo q by (simp add: field_simps)
    moreover have "pow2 (- blen n) = 1 / pow2 (blen n)" using pow2_diff [of 0 "blen n"] by (simp add: pow2_alt)
    moreover have "pow2 (- blen n + 1) = 1 / pow2 (blen n - 1)"
      using pow2_diff [of 0 "blen n - 1"] by (simp add: pow2_alt)
    ultimately show ?thesis using e by simp
  qed
  then show "pow2 (fexp q) \<le> q" and "q < pow2 (fexp q + 1)" by simp_all
qed

section \<open>Rounding\<close>

text \<open>Nearest integer, ties to even.\<close>

definition rne :: "rat \<Rightarrow> int" where
  "rne x =
     (let f = \<lfloor>x\<rfloor>; d = x - of_int f
      in if d < 1 / 2 then f else if 1 / 2 < d then f + 1 else if even f then f else f + 1)"

text \<open>
  A positive rational rounded to a 53-bit significand; the exponent of the last bit is at
  least \<open>-1074\<close> (subnormals), and is not bounded above.
\<close>

definition round_mag :: "rat \<Rightarrow> rat" where
  "round_mag q = (let u = max (fexp q - 52) (- 1074) in of_int (rne (q / pow2 u)) * pow2 u)"

text \<open>\<open>fround s q\<close> is \<open>q\<close> rounded to binary64; \<open>s\<close> is the sign of an exact zero.\<close>

definition fround :: "bool \<Rightarrow> rat \<Rightarrow> f64" where
  "fround s q =
     (if q = 0 then FZero s
      else let r = round_mag \<bar>q\<bar>
           in if r = 0 then FZero (q < 0)
              else if pow2 1024 \<le> r then FInf (q < 0)
              else FNum (if q < 0 then - r else r))"

lemma rne_int [simp]: "rne (of_int n) = n"
  by (simp add: rne_def)

lemma rne_bounds: "\<lfloor>x\<rfloor> \<le> rne x \<and> rne x \<le> \<lfloor>x\<rfloor> + 1"
  by (simp add: rne_def Let_def)

lemma rne_nonneg: "0 \<le> x \<Longrightarrow> 0 \<le> rne x"
  using rne_bounds [of x] by (meson dual_order.trans zero_le_floor)

lemma rne_mono: "x \<le> y \<Longrightarrow> rne x \<le> rne y"
proof -
  assume xy: "x \<le> y"
  then have f: "\<lfloor>x\<rfloor> \<le> \<lfloor>y\<rfloor>" by (rule floor_mono)
  show ?thesis
  proof (cases "\<lfloor>x\<rfloor> = \<lfloor>y\<rfloor>")
    case True
    then show ?thesis using xy by (auto simp: rne_def Let_def)
  next
    case False
    then have "\<lfloor>x\<rfloor> + 1 \<le> \<lfloor>y\<rfloor>" using f by simp
    then show ?thesis using rne_bounds [of x] rne_bounds [of y] by linarith
  qed
qed

lemma round_mag_nonneg: "0 \<le> q \<Longrightarrow> 0 \<le> round_mag q"
  by (simp add: round_mag_def Let_def rne_nonneg)

text \<open>A rational with at most 53 significant bits is its own rounding.\<close>

lemma round_mag_exact:
  assumes q: "q = of_int m * pow2 u" and m: "0 < m" "m < 2 ^ 53" and u: "- 1074 \<le> u"
  shows "round_mag q = q"
proof -
  have qpos: "0 < q" using q m by simp
  define U where "U = max (fexp q - 52) (- 1074)"
  have "(of_int m :: rat) < of_int (2 ^ 53)" using m by (simp only: of_int_less_iff)
  then have "(of_int m :: rat) < pow2 53" by (simp add: pow2_alt)
  then have "q < pow2 53 * pow2 u" using q by simp
  then have "pow2 (fexp q) < pow2 (53 + u)" using fexp_bounds(1) [OF qpos] by (simp add: pow2_add)
  then have Uu: "U \<le> u" using u by (simp add: U_def)
  have "q / pow2 U = of_int m * pow2 (u - U)" using q by (simp add: pow2_diff)
  also have "\<dots> = of_int (m * 2 ^ nat (u - U))" using Uu by (simp add: pow2_int)
  finally have "rne (q / pow2 U) = m * 2 ^ nat (u - U)" by (simp only: rne_int)
  then have "round_mag q = of_int (m * 2 ^ nat (u - U)) * pow2 U"
    by (simp add: round_mag_def Let_def U_def)
  also have "\<dots> = of_int m * (pow2 (u - U) * pow2 U)" using Uu by (simp add: pow2_int)
  also have "\<dots> = q" using q by (simp add: pow2_diff)
  finally show ?thesis .
qed

lemma fround_exact:
  assumes q: "\<bar>q\<bar> = of_int m * pow2 u" and m: "0 < m" "m < 2 ^ 53" and u: "- 1074 \<le> u"
    and b: "\<bar>q\<bar> < pow2 1024"
  shows "fround s q = FNum q"
proof -
  have "\<bar>q\<bar> \<noteq> 0" using q m by simp
  then show ?thesis using round_mag_exact [OF q m u] b by (auto simp: fround_def Let_def)
qed

lemma fround_int:
  assumes "0 < n" "n < 2 ^ 53"
  shows "fround s (of_int n) = FNum (of_int n)"
proof (rule fround_exact [where m = n and u = 0])
  show "\<bar>of_int n :: rat\<bar> = of_int n * pow2 0" using assms by (simp add: pow2_alt)
  have "(of_int n :: rat) < of_int (2 ^ 53)" using assms by (simp only: of_int_less_iff)
  then have "(of_int n :: rat) < pow2 53" by (simp add: pow2_alt)
  also have "pow2 53 < pow2 1024" by simp
  finally show "\<bar>of_int n :: rat\<bar> < pow2 1024" using assms by simp
qed (use assms in simp_all)

section \<open>Arithmetic\<close>

fun fneg :: "f64 \<Rightarrow> f64" where
  "fneg FNaN = FNaN"
| "fneg (FInf s) = FInf (\<not> s)"
| "fneg (FZero s) = FZero (\<not> s)"
| "fneg (FNum q) = FNum (- q)"

fun fadd :: "f64 \<Rightarrow> f64 \<Rightarrow> f64" where
  "fadd FNaN _ = FNaN"
| "fadd _ FNaN = FNaN"
| "fadd (FInf s) (FInf t) = (if s = t then FInf s else FNaN)"
| "fadd (FInf s) _ = FInf s"
| "fadd _ (FInf t) = FInf t"
| "fadd (FZero s) (FZero t) = FZero (s \<and> t)"
| "fadd x y = fround False (fval x + fval y)"

definition fsub :: "f64 \<Rightarrow> f64 \<Rightarrow> f64" where
  "fsub x y = fadd x (fneg y)"

fun fmul :: "f64 \<Rightarrow> f64 \<Rightarrow> f64" where
  "fmul FNaN _ = FNaN"
| "fmul _ FNaN = FNaN"
| "fmul (FInf s) (FZero t) = FNaN"
| "fmul (FZero s) (FInf t) = FNaN"
| "fmul (FInf s) y = FInf (s \<noteq> fsign y)"
| "fmul x (FInf t) = FInf (fsign x \<noteq> t)"
| "fmul x y = fround (fsign x \<noteq> fsign y) (fval x * fval y)"

fun fdiv :: "f64 \<Rightarrow> f64 \<Rightarrow> f64" where
  "fdiv FNaN _ = FNaN"
| "fdiv _ FNaN = FNaN"
| "fdiv (FInf s) (FInf t) = FNaN"
| "fdiv (FInf s) y = FInf (s \<noteq> fsign y)"
| "fdiv x (FInf t) = FZero (fsign x \<noteq> t)"
| "fdiv (FZero s) (FZero t) = FNaN"
| "fdiv x (FZero t) = FInf (fsign x \<noteq> t)"
| "fdiv x y = fround (fsign x \<noteq> fsign y) (fval x / fval y)"

text \<open>Integer square root, and the correctly rounded \<^verbatim>\<open>f64::sqrt\<close> built on it.\<close>

function isqrt :: "int \<Rightarrow> int" where
  "isqrt n =
     (if n \<le> 0 then 0
      else let r = 2 * isqrt (n div 4) in if (r + 1) * (r + 1) \<le> n then r + 1 else r)"
  by pat_completeness auto
termination by (relation "measure nat") auto

declare isqrt.simps [simp del]

definition sqrt_mag :: "rat \<Rightarrow> rat" where
  "sqrt_mag q =
     (let u = fexp q div 2 - 52; x = q / pow2 (2 * u); m = isqrt \<lfloor>x\<rfloor>;
          h = of_int m + 1 / 2;
          n = (if h * h < x then m + 1 else if x < h * h then m else if even m then m else m + 1)
      in of_int n * pow2 u)"

fun fsqrt :: "f64 \<Rightarrow> f64" where
  "fsqrt FNaN = FNaN"
| "fsqrt (FInf s) = (if s then FNaN else FInf False)"
| "fsqrt (FZero s) = FZero s"
| "fsqrt (FNum q) = (if q < 0 then FNaN else FNum (sqrt_mag q))"

section \<open>Comparison, extrema, clamp\<close>

fun flt :: "f64 \<Rightarrow> f64 \<Rightarrow> bool" where
  "flt FNaN _ = False"
| "flt _ FNaN = False"
| "flt (FInf s) (FInf t) = (s \<and> \<not> t)"
| "flt (FInf s) _ = s"
| "flt _ (FInf t) = (\<not> t)"
| "flt x y = (fval x < fval y)"

fun feq :: "f64 \<Rightarrow> f64 \<Rightarrow> bool" where
  "feq FNaN _ = False"
| "feq _ FNaN = False"
| "feq (FInf s) (FInf t) = (s = t)"
| "feq (FInf s) _ = False"
| "feq _ (FInf t) = False"
| "feq x y = (fval x = fval y)"

definition fle :: "f64 \<Rightarrow> f64 \<Rightarrow> bool" where
  "fle x y \<longleftrightarrow> flt x y \<or> feq x y"

definition fmax :: "f64 \<Rightarrow> f64 \<Rightarrow> f64" where
  "fmax x y = (if x = FNaN then y else if y = FNaN then x else if flt x y then y else x)"

fun fabs :: "f64 \<Rightarrow> f64" where
  "fabs FNaN = FNaN"
| "fabs (FInf s) = FInf False"
| "fabs (FZero s) = FZero False"
| "fabs (FNum q) = FNum \<bar>q\<bar>"

text \<open>\<^verbatim>\<open>f64::clamp\<close> panics unless \<open>lo \<le> hi\<close>; a value that is not a number passes through.\<close>

definition fclamp :: "f64 \<Rightarrow> f64 \<Rightarrow> f64 \<Rightarrow> f64 res" where
  "fclamp x lo hi =
     (if \<not> fle lo hi then Inl ClampBounds
      else Inr (if flt x lo then lo else if flt hi x then hi else x))"

section \<open>Casts, literals, powers\<close>

definition f64_lit :: "rat \<Rightarrow> f64" where
  "f64_lit q = fround False q"

definition f64_of_int :: "int \<Rightarrow> f64" where
  "f64_of_int n = fround False (of_int n)"

definition f64_of_u128 :: "u128 \<Rightarrow> f64" where
  "f64_of_u128 w = f64_of_int (uint w)"

definition f64_of_u64 :: "u64 \<Rightarrow> f64" where
  "f64_of_u64 w = f64_of_int (uint w)"

text \<open>\<open>x as u128\<close> through the saturating truncation into \<open>{0..mx}\<close>; and \<open>x as i128\<close>.\<close>

fun trunc_f64 :: "int \<Rightarrow> f64 \<Rightarrow> int" where
  "trunc_f64 mx FNaN = 0"
| "trunc_f64 mx (FInf s) = (if s then 0 else mx)"
| "trunc_f64 mx (FZero s) = 0"
| "trunc_f64 mx (FNum q) = (if q < 0 then 0 else min mx \<lfloor>q\<rfloor>)"

definition u128_max :: int where
  "u128_max = 340282366920938463463374607431768211455"

definition f64_to_u128 :: "f64 \<Rightarrow> u128" where
  "f64_to_u128 x = word_of_int (trunc_f64 u128_max x)"

definition i128_max :: int where
  "i128_max = 170141183460469231731687303715884105727"

fun f64_to_i128 :: "f64 \<Rightarrow> int" where
  "f64_to_i128 FNaN = 0"
| "f64_to_i128 (FInf s) = (if s then - i128_max - 1 else i128_max)"
| "f64_to_i128 (FZero s) = 0"
| "f64_to_i128 (FNum q) =
     max (- i128_max - 1) (min i128_max (if q < 0 then - \<lfloor>- q\<rfloor> else \<lfloor>q\<rfloor>))"

function powi_loop :: "f64 \<Rightarrow> int \<Rightarrow> f64 \<Rightarrow> f64" where
  "powi_loop a b r =
     (let r' = (if odd b then fmul r a else r); b' = b div 2
      in if b' \<le> 0 then r' else powi_loop (fmul a a) b' r')"
  by pat_completeness auto
termination by (relation "measure (\<lambda>(a, b, r). nat b)") auto

declare powi_loop.simps [simp del]

definition f64_powi :: "f64 \<Rightarrow> int \<Rightarrow> f64" where
  "f64_powi a b = powi_loop a b (FNum 1)"

lemma trunc_f64_bounds: "0 \<le> mx \<Longrightarrow> 0 \<le> trunc_f64 mx x \<and> trunc_f64 mx x \<le> mx"
  by (cases x) auto

lemma uint_f64_to_u128: "uint (f64_to_u128 x) = trunc_f64 u128_max x"
proof -
  have "0 \<le> trunc_f64 u128_max x \<and> trunc_f64 u128_max x < 2 ^ 128"
    using trunc_f64_bounds [of u128_max x] by (simp add: u128_max_def)
  then show ?thesis by (simp add: f64_to_u128_def uint_word_of_int)
qed

text \<open>The cast to \<open>u128\<close> is monotone in the order of the floats.\<close>

lemma trunc_f64_mono:
  assumes "fle x y" "0 \<le> mx"
  shows "trunc_f64 mx x \<le> trunc_f64 mx y"
proof (cases "\<exists>p q. x = FNum p \<and> y = FNum q")
  case True
  then obtain p q where xy: "x = FNum p" "y = FNum q" by blast
  then have "p \<le> q" using assms by (auto simp: fle_def)
  then have "\<lfloor>p\<rfloor> \<le> \<lfloor>q\<rfloor>" by (rule floor_mono)
  then show ?thesis using xy \<open>p \<le> q\<close> assms by (auto simp: min_def)
next
  case False
  then show ?thesis using assms trunc_f64_bounds [of mx x] trunc_f64_bounds [of mx y]
    by (cases x; cases y) (auto simp: fle_def)
qed

lemma fclamp_Inr: "fclamp x lo hi = Inr y \<Longrightarrow> x \<noteq> FNaN \<Longrightarrow> fle lo y \<and> fle y hi"
proof -
  assume c: "fclamp x lo hi = Inr y" and x: "x \<noteq> FNaN"
  then have le: "fle lo hi" by (auto simp: fclamp_def split: if_splits)
  have refl: "z \<noteq> FNaN \<Longrightarrow> fle z z" for z by (cases z) (auto simp: fle_def)
  have tot: "a \<noteq> FNaN \<Longrightarrow> b \<noteq> FNaN \<Longrightarrow> \<not> flt a b \<Longrightarrow> fle b a" for a b
    by (cases a; cases b) (auto simp: fle_def)
  have "lo \<noteq> FNaN" "hi \<noteq> FNaN" using le by (cases lo; cases hi; auto simp: fle_def)+
  then show ?thesis using c le x refl tot by (auto simp: fclamp_def split: if_splits)
qed

lemma isqrt_spec: "0 \<le> n \<Longrightarrow> 0 \<le> isqrt n \<and> isqrt n * isqrt n \<le> n \<and> n < (isqrt n + 1) * (isqrt n + 1)"
proof (induction n rule: isqrt.induct)
  case (1 n)
  show ?case
  proof (cases "n \<le> 0")
    case True
    then have "n = 0" using 1 by simp
    then show ?thesis by (simp add: isqrt.simps [of 0])
  next
    case False
    define k where "k = isqrt (n div 4)"
    have IH: "0 \<le> k" "k * k \<le> n div 4" "n div 4 < (k + 1) * (k + 1)"
      using "1.IH" [OF False] False by (simp_all add: k_def)
    have lo: "4 * (k * k) \<le> n" using IH(2) by linarith
    have "n div 4 + 1 \<le> (k + 1) * (k + 1)" using IH(3) by simp
    then have hi: "n < 4 * ((k + 1) * (k + 1))" by linarith
    have eq: "isqrt n = (if (2 * k + 1) * (2 * k + 1) \<le> n then 2 * k + 1 else 2 * k)"
      using False by (simp add: isqrt.simps [of n] Let_def k_def)
    show ?thesis using lo hi IH(1) by (auto simp: eq algebra_simps)
  qed
qed

end
