(* ===== verification/Config.thy ===== *)
theory Config
  imports F64
begin

text \<open>
  The chain constants of \<^verbatim>\<open>src/constants.rs\<close> the model uses, and the configuration
  records of \<^verbatim>\<open>src/config.rs\<close> with their defaults.  Reading and parsing the toml files is
  I/O of the toml crate and stays outside; \<open>check_config\<close> is the validation that
  \<open>read_config\<close> performs on the parsed value.
\<close>

section \<open>Constants\<close>

definition CHAIN_ID :: u64 where
  "CHAIN_ID = 4663"

definition WETH :: address where
  "WETH = 0x0Bd7D308f8E1639FAb988df18A8011f41EAcAD73"

definition USDG :: address where
  "USDG = 0x5fc5360D0400a0Fd4f2af552ADD042D716F1d168"

definition UNIV4_POOL_MANAGER :: address where
  "UNIV4_POOL_MANAGER = 0x8366a39cc670b4001a1121b8f6a443a643e40951"

definition UNIV4_DYNAMIC_FEE_FLAG :: u32 where
  "UNIV4_DYNAMIC_FEE_FLAG = 0x800000"

definition UNIV4_MAX_LP_FEE :: u32 where
  "UNIV4_MAX_LP_FEE = 1000000"

definition MIN_TICK :: int where
  "MIN_TICK = - 887272"

definition MAX_TICK :: int where
  "MAX_TICK = 887272"

definition min_sqrt_ratio :: u256 where
  "min_sqrt_ratio = 4295128739"

definition max_sqrt_ratio :: u256 where
  "max_sqrt_ratio = 1461446703485210103287273052203988822378723970342"

section \<open>Configuration\<close>

record rpc_config =
  rpc_http :: "string list"
  rpc_ws :: string
  rpc_archive :: "string option"
  rpc_sequencer :: string
  rpc_send_rpc :: string

definition default_sequencer :: string where
  "default_sequencer = ''https://sequencer.mainnet.chain.robinhood.com''"

definition default_send_rpc :: string where
  "default_send_rpc = ''https://rpc.mainnet.chain.robinhood.com''"

record wallet_config =
  executor_contract :: "address option"
  key_env :: string

record discovery_config =
  disc_enabled :: bool
  pools_file :: string
  cache_dir :: string
  getlogs_chunk :: u64
  tick_sync_chunk :: u64
  disc_concurrency :: nat
  disc_start_block :: u64

definition default_discovery_config :: discovery_config where
  "default_discovery_config =
     \<lparr>disc_enabled = True, pools_file = ''pools.toml'', cache_dir = ''cache'',
      getlogs_chunk = 10000, tick_sync_chunk = 1500, disc_concurrency = 8, disc_start_block = 0\<rparr>"

record filter_config =
  token_whitelist :: "address list"
  token_blacklist :: "address list"

definition default_filter_config :: filter_config where
  "default_filter_config = \<lparr>token_whitelist = [], token_blacklist = []\<rparr>"

record routing_config =
  rc_max_hops :: nat
  rc_max_routes :: nat
  rc_pair_fanout :: nat
  rc_drop_ms :: u64
  rc_spot_gate_bps :: f64
  rc_tier2_top_n :: nat

definition default_routing_config :: routing_config where
  "default_routing_config =
     \<lparr>rc_max_hops = 3, rc_max_routes = 100000, rc_pair_fanout = 6, rc_drop_ms = 800,
      rc_spot_gate_bps = f64_lit 5, rc_tier2_top_n = 200\<rparr>"

record gas_config =
  prio_fraction :: f64
  min_prio_gwei :: f64
  max_prio_gwei :: f64
  l1_fee_margin :: f64

definition default_gas_config :: gas_config where
  "default_gas_config =
     \<lparr>prio_fraction = f64_lit 0, min_prio_gwei = f64_lit (1 / 1000),
      max_prio_gwei = f64_lit (5 / 1000), l1_fee_margin = f64_lit (12 / 10)\<rparr>"

record execution_config =
  exec_enabled :: bool
  use_flashloan :: bool
  blacklist_blocks :: u64
  exec_gas_limit :: u64
  stale_presign_ms :: u64

definition default_execution_config :: execution_config where
  "default_execution_config =
     \<lparr>exec_enabled = False, use_flashloan = True, blacklist_blocks = 50,
      exec_gas_limit = 2000000, stale_presign_ms = 750\<rparr>"

record anchor_config =
  an_symbol :: string
  an_token :: address
  an_decimals :: u8
  an_min_liquidity :: f64
  an_min_profit :: string
  an_max_trade :: f64
  an_min_trade :: f64

text \<open>
  \<open>AnchorConfig::min_profit\<close> parses the decimal string with the number library's
  \<^verbatim>\<open>from_str_radix\<close>, which is a parameter; a string it refuses panics.
\<close>

definition min_profit :: "(string \<Rightarrow> u256 option) \<Rightarrow> anchor_config \<Rightarrow> u256 res" where
  "min_profit parse a = from_option ExpectFailed (parse (an_min_profit a))"

record dex_config =
  dc_name :: string
  dc_kind :: string
  dc_factory :: address
  dc_fee_bps :: "u32 option"
  dc_deploy_block :: "u64 option"
  dc_dynamic_fee :: bool

record pool_pin =
  pin_address :: "address option"
  pin_dex :: string
  pin_pool_id :: "b256 option"
  pin_currency0 :: "address option"
  pin_currency1 :: "address option"
  pin_fee :: "u32 option"
  pin_tick_spacing :: "int option"

record config =
  cf_rpc :: rpc_config
  cf_wallet :: wallet_config
  cf_discovery :: discovery_config
  cf_filter :: filter_config
  cf_routing :: routing_config
  cf_gas :: gas_config
  cf_execution :: execution_config
  cf_dexes :: "dex_config list"
  cf_anchors :: "anchor_config list"

text \<open>
  The \<open>ensure!\<close> loop of \<open>read_config\<close>: the first required anchor that is missing is the
  error, named by its symbol and token.
\<close>

fun ensure_anchors :: "(address \<times> string) list \<Rightarrow> anchor_config list \<Rightarrow> (string \<times> address) option" where
  "ensure_anchors [] anchors = None"
| "ensure_anchors ((tok, name) # rest) anchors =
     (if \<exists>a \<in> set anchors. an_token a = tok then ensure_anchors rest anchors else Some (name, tok))"

definition check_config :: "config \<Rightarrow> (string \<times> address) + config" where
  "check_config cfg =
     (case ensure_anchors [(WETH, ''WETH''), (USDG, ''USDG'')] (cf_anchors cfg) of
        Some e \<Rightarrow> Inl e
      | None \<Rightarrow> Inr cfg)"

lemma check_config_Inr:
  "check_config cfg = Inr cfg' \<longleftrightarrow>
     cfg' = cfg \<and> WETH \<in> an_token ` set (cf_anchors cfg) \<and> USDG \<in> an_token ` set (cf_anchors cfg)"
  by (auto simp: check_config_def) (metis image_eqI)+

end
