(* ===== verification/Engine.thy ===== *)
theory Engine
  imports Config
begin

text \<open>
  \<^verbatim>\<open>src/engine\<close>: the protocol tag (\<^verbatim>\<open>types.rs\<close>), the per-pool metadata with the
  Uniswap V4 identity (\<^verbatim>\<open>pool_meta.rs\<close>) and the pool registry (\<^verbatim>\<open>engine.rs\<close>), together
  with the route types of \<^verbatim>\<open>src/routing/types.rs\<close>.  Atomics are plain fields: a load reads
  the field, a store updates the record.  \<open>keccak256\<close> is a parameter (\<open>keccak\<close>) wherever
  it is used.
\<close>

section \<open>Tags\<close>

type_synonym pool_idx = u32

definition idx_get :: "pool_idx \<Rightarrow> nat" where
  "idx_get i = unat i"

datatype dex_tag =
    UniV2Fork | AeroVolatile | AeroStable | UniV3Fork | PancakeV3 | Slipstream | UniV4 | Algebra

definition is_v3_family :: "dex_tag \<Rightarrow> bool" where
  "is_v3_family d \<longleftrightarrow> d \<in> {UniV3Fork, PancakeV3, Slipstream}"

definition is_v4 :: "dex_tag \<Rightarrow> bool" where
  "is_v4 d \<longleftrightarrow> d = UniV4"

definition is_algebra :: "dex_tag \<Rightarrow> bool" where
  "is_algebra d \<longleftrightarrow> d = Algebra"

definition is_v2_family :: "dex_tag \<Rightarrow> bool" where
  "is_v2_family d \<longleftrightarrow> d \<in> {UniV2Fork, AeroVolatile}"

lemmas dex_defs = is_v3_family_def is_v4_def is_algebra_def is_v2_family_def

section \<open>Pool metadata\<close>

record v4_meta =
  v4_pool_id :: b256
  v4_currency0 :: address
  v4_currency1 :: address
  v4_fee_pips :: u32
  v4_tick_spacing :: int

text \<open>Big-endian bytes of a word, the unit of ABI encoding and of mapping-slot preimages.\<close>

definition be_bytes32 :: "u256 \<Rightarrow> u8 list" where
  "be_bytes32 w = map (\<lambda>i. ucast (drop_bit (8 * i) w)) (rev [0..<32])"

lemma length_be_bytes32 [simp]: "length (be_bytes32 w) = 32"
  by (simp add: be_bytes32_def)

text \<open>
  \<open>V4Meta::pool_id_of\<close>: the PoolKey is a static struct, so its ABI encoding is the five words
  currency0, currency1, fee, tickSpacing (sign extended) and hooks = 0.  The fee must fit 24
  bits and the spacing a signed 24-bit integer, or the conversions panic.
\<close>

definition pool_id_of ::
    "(u8 list \<Rightarrow> b256) \<Rightarrow> address \<Rightarrow> address \<Rightarrow> u32 \<Rightarrow> int \<Rightarrow> b256 res" where
  "pool_id_of keccak currency0 currency1 fee_pips tick_spacing =
     (if 2 ^ 24 \<le> unat fee_pips then Inl ConversionLoss
      else if tick_spacing < - (2 ^ 23) \<or> 2 ^ 23 \<le> tick_spacing then Inl ExpectFailed
      else Inr (keccak
        (be_bytes32 (ucast currency0) @ be_bytes32 (ucast currency1) @
         be_bytes32 (ucast fee_pips) @ be_bytes32 (word_of_int tick_spacing) @ be_bytes32 0)))"

text \<open>\<open>Address::from_slice(&pool_id[0..20])\<close>: the top 160 of 256 bits.\<close>

definition synthetic_address :: "b256 \<Rightarrow> address" where
  "synthetic_address pool_id = ucast (drop_bit 96 pool_id)"

record pool_meta =
  pm_idx :: pool_idx
  pm_address :: address
  pm_dex :: dex_tag
  pm_factory :: address
  pm_token0 :: address
  pm_token1 :: address
  pm_dec0 :: u8
  pm_dec1 :: u8
  pm_fee_bps :: u32
  pm_fee_pips :: u32
  pm_tick_spacing :: int
  pm_v4 :: "v4_meta option"

definition set_fee_bps :: "u32 \<Rightarrow> pool_meta \<Rightarrow> pool_meta" where
  "set_fee_bps v m = m\<lparr>pm_fee_bps := v\<rparr>"

definition set_fee_pips :: "u32 \<Rightarrow> pool_meta \<Rightarrow> pool_meta" where
  "set_fee_pips v m = m\<lparr>pm_fee_pips := v\<rparr>"

section \<open>Registry\<close>

text \<open>
  \<open>ChangedBatch\<close> carries the seal instant; instants are milliseconds of a clock.
\<close>

record changed_batch =
  cb_block :: u64
  cb_pools :: "pool_idx list"
  cb_ts :: nat

record registration =
  reg_meta :: pool_meta
  reg_gate :: "(address \<times> f64) list option"

record engine =
  eng_metas :: "pool_meta list"
  eng_by_address :: "address \<rightharpoonup> pool_idx"
  eng_fee_dynamic :: "pool_idx set"
  eng_fee_recheck :: "pool_idx set"
  eng_head_block :: u64

text \<open>
  The loop of \<open>Engine::new\<close>, with its three assertions in the source's order: no address
  twice, the tag agrees with the V4 payload, no V4 pool id twice.
\<close>

fun engine_new_loop ::
    "registration list \<Rightarrow> pool_meta list \<Rightarrow> (address \<rightharpoonup> pool_idx) \<Rightarrow> b256 set
      \<Rightarrow> (pool_meta list \<times> (address \<rightharpoonup> pool_idx)) res" where
  "engine_new_loop [] metas by_address seen = Inr (metas, by_address)"
| "engine_new_loop (reg # regs) metas by_address seen =
     (if by_address (pm_address (reg_meta reg)) \<noteq> None then Inl AssertFailed
      else if is_v4 (pm_dex (reg_meta reg)) \<noteq> (pm_v4 (reg_meta reg) \<noteq> None) then Inl AssertFailed
      else case pm_v4 (reg_meta reg) of
             Some v4 \<Rightarrow>
               (if v4_pool_id v4 \<in> seen then Inl AssertFailed
                else engine_new_loop regs (metas @ [reg_meta reg])
                       (by_address(pm_address (reg_meta reg) \<mapsto> pm_idx (reg_meta reg)))
                       (insert (v4_pool_id v4) seen))
           | None \<Rightarrow> engine_new_loop regs (metas @ [reg_meta reg])
                       (by_address(pm_address (reg_meta reg) \<mapsto> pm_idx (reg_meta reg))) seen)"

definition engine_new :: "registration list \<Rightarrow> engine res" where
  "engine_new regs =
     rbind (engine_new_loop regs [] Map.empty {}) (\<lambda>(metas, by_address).
       Inr \<lparr>eng_metas = metas, eng_by_address = by_address, eng_fee_dynamic = {},
            eng_fee_recheck = {}, eng_head_block = 0\<rparr>)"

definition eng_meta :: "engine \<Rightarrow> pool_idx \<Rightarrow> pool_meta res" where
  "eng_meta e idx = index (eng_metas e) (idx_get idx)"

definition eng_len :: "engine \<Rightarrow> nat" where
  "eng_len e = length (eng_metas e)"

definition set_head :: "u64 \<Rightarrow> engine \<Rightarrow> engine" where
  "set_head b e = e\<lparr>eng_head_block := b\<rparr>"

definition head_block :: "engine \<Rightarrow> u64" where
  "head_block e = eng_head_block e"

section \<open>Routes\<close>

record hop =
  hop_pool :: pool_idx
  hop_zero_for_one :: bool
  hop_token_in :: address

record route =
  rt_id :: u32
  rt_anchor :: address
  rt_hops :: "hop list"

section \<open>The registry's contract\<close>

text \<open>
  What registrations must satisfy, and what the registry promises for them: this is the
  specification \<open>engine_new\<close> implements exactly.
\<close>

definition v4_ids :: "registration list \<Rightarrow> b256 list" where
  "v4_ids regs = concat (map (\<lambda>r. case pm_v4 (reg_meta r) of None \<Rightarrow> [] | Some v \<Rightarrow> [v4_pool_id v]) regs)"

definition regs_ok :: "registration list \<Rightarrow> bool" where
  "regs_ok regs \<longleftrightarrow>
     distinct (map (pm_address \<circ> reg_meta) regs) \<and>
     (\<forall>r \<in> set regs. is_v4 (pm_dex (reg_meta r)) = (pm_v4 (reg_meta r) \<noteq> None)) \<and>
     distinct (v4_ids regs)"

definition by_address_of :: "registration list \<Rightarrow> (address \<rightharpoonup> pool_idx)" where
  "by_address_of regs = map_of (map (\<lambda>r. (pm_address (reg_meta r), pm_idx (reg_meta r))) regs)"

lemma v4_ids_Cons:
  "v4_ids (r # rs) = (case pm_v4 (reg_meta r) of None \<Rightarrow> v4_ids rs | Some v \<Rightarrow> v4_pool_id v # v4_ids rs)"
  by (simp add: v4_ids_def split: option.splits)

lemma engine_new_loop_spec:
  "(\<exists>r. engine_new_loop regs metas m seen = Inr r) \<longleftrightarrow>
     regs_ok regs \<and> (pm_address \<circ> reg_meta) ` set regs \<inter> dom m = {} \<and> set (v4_ids regs) \<inter> seen = {}"
proof (induction regs arbitrary: metas m seen)
  case Nil
  then show ?case by (simp add: regs_ok_def v4_ids_def)
next
  case (Cons reg regs)
  define a where "a = pm_address (reg_meta reg)"
  consider (dup) "a \<in> dom m" | (tag) "a \<notin> dom m" "is_v4 (pm_dex (reg_meta reg)) \<noteq> (pm_v4 (reg_meta reg) \<noteq> None)"
    | (none) "a \<notin> dom m" "is_v4 (pm_dex (reg_meta reg)) = (pm_v4 (reg_meta reg) \<noteq> None)" "pm_v4 (reg_meta reg) = None"
    | (some) v where "a \<notin> dom m" "is_v4 (pm_dex (reg_meta reg)) = (pm_v4 (reg_meta reg) \<noteq> None)" "pm_v4 (reg_meta reg) = Some v"
    by (cases "pm_v4 (reg_meta reg)") auto
  then show ?case
  proof cases
    case dup
    then show ?thesis by (auto simp: a_def comp_def)
  next
    case tag
    then show ?thesis by (auto simp: a_def regs_ok_def)
  next
    case none
    then show ?thesis using Cons.IH
      by (auto simp: a_def regs_ok_def v4_ids_Cons domIff)
  next
    case some
    then show ?thesis using Cons.IH
      by (auto simp: a_def regs_ok_def v4_ids_Cons domIff)
  qed
qed

lemma engine_new_loop_result:
  "engine_new_loop regs metas m seen = Inr (ms, m') \<Longrightarrow>
     ms = metas @ map reg_meta regs \<and> m' = m ++ by_address_of (rev regs)"
proof (induction regs arbitrary: metas m seen)
  case Nil
  then show ?case by (simp add: by_address_of_def)
next
  case (Cons reg regs)
  have "ms = (metas @ [reg_meta reg]) @ map reg_meta regs \<and>
        m' = m(pm_address (reg_meta reg) \<mapsto> pm_idx (reg_meta reg)) ++ by_address_of (rev regs)"
  proof -
    obtain seen' where "engine_new_loop regs (metas @ [reg_meta reg])
        (m(pm_address (reg_meta reg) \<mapsto> pm_idx (reg_meta reg))) seen' = Inr (ms, m')"
      using Cons.prems by (auto split: if_splits option.splits)
    then show ?thesis by (rule Cons.IH)
  qed
  then show ?case by (simp add: by_address_of_def map_add_def map_of_append fun_eq_iff split: option.splits)
qed

text \<open>A successful construction keeps the registrations in order and indexes each by its address.\<close>

lemma engine_new_Inr:
  assumes "engine_new regs = Inr e"
  shows "eng_metas e = map reg_meta regs" and "eng_by_address e = by_address_of (rev regs)" and "regs_ok regs"
proof -
  obtain ms m where l: "engine_new_loop regs [] Map.empty {} = Inr (ms, m)"
    and e: "eng_metas e = ms" "eng_by_address e = m"
    using assms by (auto simp: engine_new_def)
  then show "eng_metas e = map reg_meta regs" "eng_by_address e = by_address_of (rev regs)"
    using engine_new_loop_result [OF l] by simp_all
  show "regs_ok regs" using engine_new_loop_spec [of regs "[]" Map.empty "{}"] l by auto
qed

lemma by_address_of_rev: "distinct (map (pm_address \<circ> reg_meta) regs) \<Longrightarrow> by_address_of (rev regs) = by_address_of regs"
proof -
  assume d: "distinct (map (pm_address \<circ> reg_meta) regs)"
  let ?xs = "map (\<lambda>r. (pm_address (reg_meta r), pm_idx (reg_meta r))) regs"
  have "distinct (map fst ?xs)" using d by (simp add: comp_def)
  then have "map_of (rev ?xs) = map_of ?xs"
    using map_of_inject_set [of "rev ?xs" ?xs] by (simp only: rev_map [symmetric] distinct_rev set_rev)
  then show ?thesis by (simp add: by_address_of_def rev_map)
qed

lemma by_address_lookup:
  assumes "engine_new regs = Inr e" "i < length regs"
  shows "eng_by_address e (pm_address (reg_meta (regs ! i))) = Some (pm_idx (reg_meta (regs ! i)))"
proof -
  have d: "distinct (map (pm_address \<circ> reg_meta) regs)" using engine_new_Inr(3) [OF assms(1)] by (simp add: regs_ok_def)
  have "(pm_address (reg_meta (regs ! i)), pm_idx (reg_meta (regs ! i))) \<in>
          set (map (\<lambda>r. (pm_address (reg_meta r), pm_idx (reg_meta r))) regs)"
    using assms(2) by auto
  then have "by_address_of regs (pm_address (reg_meta (regs ! i))) = Some (pm_idx (reg_meta (regs ! i)))"
    unfolding by_address_of_def using d by (intro map_of_is_SomeI) (auto simp: comp_def)
  then show ?thesis using engine_new_Inr(2) [OF assms(1)] by_address_of_rev [OF d] by simp
qed

lemma engine_new_loop_Inl: "engine_new_loop regs metas m seen = Inl e \<Longrightarrow> e = AssertFailed"
  by (induction regs arbitrary: metas m seen) (auto split: if_splits option.splits)

section \<open>Properties\<close>

text \<open>Building the registry succeeds exactly when the registrations have pairwise distinct
  addresses and V4 pool ids and tags that agree with their V4 payload; it then holds every
  registration in order, with an exact address index, empty dirty sets and head 0.  Any other
  input fails an assertion.\<close>

lemma engine_new_spec:
  "engine_new regs =
     (if regs_ok regs
      then Inr \<lparr>eng_metas = map reg_meta regs, eng_by_address = by_address_of regs, eng_fee_dynamic = {},
                eng_fee_recheck = {}, eng_head_block = 0\<rparr>
      else Inl AssertFailed)"
proof (cases "engine_new_loop regs [] Map.empty {}")
  case (Inl e)
  then have "\<not> regs_ok regs" using engine_new_loop_spec [of regs "[]" Map.empty "{}"] by auto
  then show ?thesis using Inl engine_new_loop_Inl [OF Inl] by (simp add: engine_new_def)
next
  case (Inr r)
  obtain ms m where r: "r = (ms, m)" by fastforce
  have ok: "regs_ok regs" using engine_new_loop_spec [of regs "[]" Map.empty "{}"] Inr by auto
  then have "by_address_of (rev regs) = by_address_of regs"
    by (intro by_address_of_rev) (simp add: regs_ok_def)
  then show ?thesis using engine_new_loop_result [OF Inr [unfolded r]] Inr ok r by (simp add: engine_new_def)
qed

text \<open>When the registrations carry their own position as index, as the loader numbers them, looking a
  registered address up and reading the metadata at the index found returns that pool.\<close>
lemma engine_lookup:
  assumes "engine_new regs = Inr e" "i < length regs" "length regs < 2 ^ 32"
    and "\<forall>j < length regs. pm_idx (reg_meta (regs ! j)) = of_nat j"
  shows "eng_by_address e (pm_address (reg_meta (regs ! i))) = Some (of_nat i) \<and>
    eng_meta e (of_nat i) = Inr (reg_meta (regs ! i))"
proof
  show "eng_by_address e (pm_address (reg_meta (regs ! i))) = Some (of_nat i)"
    using by_address_lookup [OF assms(1,2)] assms(2,4) by simp
  have "idx_get (of_nat i :: pool_idx) = i" using assms(2,3) by (simp add: idx_get_def unat_of_nat_u32)
  then show "eng_meta e (of_nat i) = Inr (reg_meta (regs ! i))"
    using engine_new_Inr(1) [OF assms(1)] assms(2) by (simp add: eng_meta_def)
qed

definition sample_meta :: "nat \<Rightarrow> address \<Rightarrow> pool_meta" where
  "sample_meta i a =
     \<lparr>pm_idx = of_nat i, pm_address = a, pm_dex = UniV2Fork, pm_factory = 0, pm_token0 = 1, pm_token1 = 2,
      pm_dec0 = 18, pm_dec1 = 6, pm_fee_bps = 30, pm_fee_pips = 3000, pm_tick_spacing = 1, pm_v4 = None\<rparr>"

lemma engine_lookup_witness:
  "\<exists>e. engine_new [\<lparr>reg_meta = sample_meta 0 7, reg_gate = None\<rparr>, \<lparr>reg_meta = sample_meta 1 9, reg_gate = None\<rparr>] = Inr e \<and>
     eng_by_address e 9 = Some 1"
proof -
  let ?regs = "[\<lparr>reg_meta = sample_meta 0 7, reg_gate = None\<rparr>, \<lparr>reg_meta = sample_meta 1 9, reg_gate = None\<rparr>]"
  obtain e where e: "engine_new ?regs = Inr e"
    by (simp add: engine_new_def sample_meta_def is_v4_def)
  have "eng_by_address e (pm_address (reg_meta (?regs ! 1))) = Some (of_nat 1)"
    using engine_lookup [OF e, of 1] by (auto simp: sample_meta_def less_Suc_eq nth_Cons')
  then show ?thesis using e by (auto simp: sample_meta_def)
qed

end
