(* ===== verification/V3_Math.thy ===== *)
theory V3_Math
  imports Engine
begin

unbundle bit_operations_syntax

text \<open>
  Concentrated-liquidity exact-input quotes, \<^verbatim>\<open>src/math/v3.rs\<close>: the tick-bitmap search and
  the swap walk over a lazy tick source, and the windowed table walk the tests keep as a
  reference.  The arithmetic primitives of the crate \<^verbatim>\<open>uniswap_v3_math\<close> are not part of
  the repository; they are the fields of the record \<open>v3lib\<close>, an argument of every definition.
  The walk is bounded by the code's own crossing guard (1024 iterations), over which the
  model recurses.
\<close>

section \<open>The third-party primitives and the tick source\<close>

record 'e v3lib =
  lib_sqrt_at_tick :: "int \<Rightarrow> 'e + u256"
  lib_tick_at_sqrt :: "u256 \<Rightarrow> 'e + int"
  lib_swap_step :: "u256 \<Rightarrow> u256 \<Rightarrow> u128 \<Rightarrow> int \<Rightarrow> u32 \<Rightarrow> 'e + (u256 \<times> u256 \<times> u256 \<times> u256)"
  lib_add_delta :: "u128 \<Rightarrow> int \<Rightarrow> 'e + u128"
  lib_msb :: "u256 \<Rightarrow> 'e + u8"
  lib_lsb :: "u256 \<Rightarrow> 'e + u8"
  lib_next_tick :: "(int \<rightharpoonup> u256) \<Rightarrow> int \<Rightarrow> int \<Rightarrow> bool \<Rightarrow> 'e + (int \<times> bool)"

text \<open>
  The trait \<open>TickSource\<close>: the bitmap word at a word index, \<open>None\<close> where it was never
  hydrated, and the net liquidity of a tick.
\<close>

record tick_source =
  bitmap_word :: "int \<Rightarrow> u256 option"
  liquidity_net :: "int \<Rightarrow> int"

text \<open>A call that may panic and otherwise returns a library result; its sequencing is \<open>?\<close>.\<close>

type_synonym ('e, 'a) eres = "('e + 'a) res"

definition ebind :: "('e, 'a) eres \<Rightarrow> ('a \<Rightarrow> ('e, 'b) eres) \<Rightarrow> ('e, 'b) eres" where
  "ebind m f = rbind m (\<lambda>r. case r of Inl e \<Rightarrow> Inr (Inl e) | Inr x \<Rightarrow> f x)"

definition eok :: "'a \<Rightarrow> ('e, 'a) eres" where
  "eok x = Inr (Inr x)"

definition elib :: "'e + 'a \<Rightarrow> ('e, 'a) eres" where
  "elib r = Inr r"

lemma ebind_simps [simp]:
  "ebind (Inl p) f = Inl p"
  "ebind (Inr (Inl e)) f = Inr (Inl e)"
  "ebind (Inr (Inr x)) f = f x"
  by (simp_all add: ebind_def)

lemma ebind_eok [simp]: "ebind (eok x) f = f x"
  by (simp add: eok_def)

lemma ebind_eq_ok: "ebind m f = Inr (Inr y) \<longleftrightarrow> (\<exists>x. m = Inr (Inr x) \<and> f x = Inr (Inr y))"
  by (cases m) (auto simp: ebind_def split: sum.splits)

section \<open>The bitmap search\<close>

text \<open>
  Truncating \<open>i32\<close> division, which panics on a zero divisor and on \<open>i32::MIN / -1\<close>, and tick
  compression on top of it.  \<open>v3.rs\<close> writes the expression of
  \<^verbatim>\<open>slot_layout.rs::compress_tick\<close> in line.
\<close>

definition i32_div :: "int \<Rightarrow> int \<Rightarrow> int res" where
  "i32_div a b =
     (if b = 0 then Inl DivByZero
      else if a = - (2 ^ 31) \<and> b = - 1 then Inl ArithOverflow
      else Inr (tdiv a b))"

definition compress_tick :: "int \<Rightarrow> int \<Rightarrow> int res" where
  "compress_tick tick spacing =
     rbind (i32_div tick spacing) (\<lambda>q.
       Inr (if tick < 0 \<and> tmod tick spacing \<noteq> 0 then wrap_i32 (q - 1) else q))"

definition position :: "int \<Rightarrow> int \<times> u8" where
  "position compressed = (wrap_i16 (compressed div 256), word_of_int (compressed mod 256))"

definition next_initialized_tick_src ::
    "'e v3lib \<Rightarrow> tick_source \<Rightarrow> int \<Rightarrow> int \<Rightarrow> bool \<Rightarrow> ('e, (int \<times> bool) option) eres" where
  "next_initialized_tick_src lib src tick tick_spacing lte =
     rbind (compress_tick tick tick_spacing) (\<lambda>compressed.
       let one = (1 :: u256) in
       if lte then
         let (word_pos, bit_pos) = position compressed in
         case bitmap_word src word_pos of
           None \<Rightarrow> eok None
         | Some word \<Rightarrow>
             let mask = (push_bit (unat bit_pos) one - one) + push_bit (unat bit_pos) one;
                 masked = word AND mask;
                 initialized = (masked \<noteq> 0)
             in if initialized then
                  ebind (elib (lib_msb lib masked)) (\<lambda>m.
                    eok (Some (wrap_i32 (wrap_i32 (compressed - uint (bit_pos - m)) * tick_spacing), initialized)))
                else eok (Some (wrap_i32 (wrap_i32 (compressed - uint bit_pos) * tick_spacing), initialized))
       else
         let (word_pos, bit_pos) = position (wrap_i32 (compressed + 1)) in
         case bitmap_word src word_pos of
           None \<Rightarrow> eok None
         | Some word \<Rightarrow>
             let mask = NOT (push_bit (unat bit_pos) one - one);
                 masked = word AND mask;
                 initialized = (masked \<noteq> 0)
             in if initialized then
                  ebind (elib (lib_lsb lib masked)) (\<lambda>l.
                    eok (Some (wrap_i32 (wrap_i32 (wrap_i32 (compressed + 1) + uint (l - bit_pos)) * tick_spacing), initialized)))
                else eok (Some (wrap_i32 (wrap_i32 (wrap_i32 (compressed + 1) + uint (0xff - bit_pos)) * tick_spacing), initialized)))"

section \<open>The swap walk\<close>

text \<open>\<open>I256\<close> values are signed integers below \<open>2^255\<close>; \<open>from_raw\<close> reinterprets the bits.\<close>

record swap_state =
  sw_remaining :: int
  sw_calculated :: int
  sw_sqrt :: u256
  sw_tick :: int
  sw_liq :: u128

definition price_limit :: "bool \<Rightarrow> u256" where
  "price_limit zero_for_one = (if zero_for_one then min_sqrt_ratio + 1 else max_sqrt_ratio - 1)"

definition clamp_tick :: "int \<Rightarrow> int" where
  "clamp_tick t = max MIN_TICK (min MAX_TICK t)"

text \<open>One iteration of the loop body once the next tick is known (both walks share it).\<close>

definition swap_body ::
    "'e v3lib \<Rightarrow> (int \<Rightarrow> int) \<Rightarrow> bool \<Rightarrow> u32 \<Rightarrow> int \<Rightarrow> bool \<Rightarrow> swap_state \<Rightarrow> ('e, swap_state) eres" where
  "swap_body lib net zero_for_one fee_pips next_tick0 initialized s =
     (let next_tick = clamp_tick next_tick0;
          limit = price_limit zero_for_one
      in ebind (elib (lib_sqrt_at_tick lib next_tick)) (\<lambda>sqrt_price_next.
         let sqrt_target =
               (if (zero_for_one \<and> sqrt_price_next < limit) \<or> (\<not> zero_for_one \<and> limit < sqrt_price_next)
                then limit else sqrt_price_next)
         in ebind (elib (lib_swap_step lib (sw_sqrt s) sqrt_target (sw_liq s) (sw_remaining s) fee_pips))
            (\<lambda>(sqrt_price_new, amount_in_step, amount_out_step, fee_amount).
              let consumed = sint (amount_in_step + fee_amount);
                  s1 = s\<lparr>sw_sqrt := sqrt_price_new,
                         sw_remaining := wrap_i256 (sw_remaining s - consumed),
                         sw_calculated := wrap_i256 (sw_calculated s - sint amount_out_step)\<rparr>
              in if sqrt_price_new = sqrt_price_next then
                   ebind
                     (if initialized then
                        let liquidity_net = (if zero_for_one then wrap_i128 (- net next_tick) else net next_tick)
                        in elib (lib_add_delta lib (sw_liq s) liquidity_net)
                      else eok (sw_liq s))
                     (\<lambda>liq. eok (s1\<lparr>sw_liq := liq, sw_tick := (if zero_for_one then next_tick - 1 else next_tick)\<rparr>))
                 else if sqrt_price_new \<noteq> sw_sqrt s then
                   ebind (elib (lib_tick_at_sqrt lib sqrt_price_new)) (\<lambda>t. eok (s1\<lparr>sw_tick := t\<rparr>))
                 else eok s1)))"

definition swap_more :: "bool \<Rightarrow> swap_state \<Rightarrow> bool" where
  "swap_more zero_for_one s \<longleftrightarrow> sw_remaining s \<noteq> 0 \<and> sw_sqrt s \<noteq> price_limit zero_for_one"

fun swap_loop ::
    "'e v3lib \<Rightarrow> tick_source \<Rightarrow> bool \<Rightarrow> u32 \<Rightarrow> int \<Rightarrow> nat \<Rightarrow> swap_state \<Rightarrow> ('e, swap_state) eres" where
  "swap_loop lib src zfo fee spacing 0 s = eok s"
| "swap_loop lib src zfo fee spacing (Suc n) s =
     (if swap_more zfo s then
        ebind (next_initialized_tick_src lib src (sw_tick s) spacing zfo) (\<lambda>next.
          case next of
            None \<Rightarrow> eok s
          | Some (next_tick, initialized) \<Rightarrow>
              ebind (swap_body lib (liquidity_net src) zfo fee next_tick initialized s)
                (swap_loop lib src zfo fee spacing n))
      else eok s)"

definition swap_init :: "u256 \<Rightarrow> u256 \<Rightarrow> int \<Rightarrow> u128 \<Rightarrow> swap_state" where
  "swap_init amount_in sqrt_price tick liquidity =
     \<lparr>sw_remaining = sint amount_in, sw_calculated = 0, sw_sqrt = sqrt_price, sw_tick = tick, sw_liq = liquidity\<rparr>"

text \<open>\<open>(-amount_calculated).into_raw()\<close>\<close>

definition swap_out :: "swap_state \<Rightarrow> u256" where
  "swap_out s = word_of_int (wrap_i256 (- sw_calculated s))"

definition try_swap_src ::
    "'e v3lib \<Rightarrow> u256 \<Rightarrow> bool \<Rightarrow> u256 \<Rightarrow> int \<Rightarrow> u128 \<Rightarrow> u32 \<Rightarrow> int \<Rightarrow> tick_source \<Rightarrow> ('e, u256) eres" where
  "try_swap_src lib amount_in zero_for_one sqrt_price_x96 start_tick start_liquidity fee_pips tick_spacing src =
     (if amount_in = 0 then eok 0
      else ebind
        (swap_loop lib src zero_for_one fee_pips tick_spacing 1024
           (swap_init amount_in sqrt_price_x96 start_tick start_liquidity))
        (\<lambda>s. eok (swap_out s)))"

definition v3_get_amount_out_src ::
    "'e v3lib \<Rightarrow> u256 \<Rightarrow> bool \<Rightarrow> u256 \<Rightarrow> int \<Rightarrow> u128 \<Rightarrow> u32 \<Rightarrow> int \<Rightarrow> tick_source \<Rightarrow> u256 res" where
  "v3_get_amount_out_src lib amount_in zero_for_one sqrt_price_x96 tick liquidity fee_pips tick_spacing src =
     rbind (try_swap_src lib amount_in zero_for_one sqrt_price_x96 tick liquidity fee_pips tick_spacing src)
       (\<lambda>r. case r of Inr out \<Rightarrow> Inr out | Inl e \<Rightarrow> Inr 0)"

section \<open>The windowed table walk of the tests\<close>

record tick_table =
  tt_bitmap :: "int \<rightharpoonup> u256"
  tt_ticks :: "int \<rightharpoonup> int"
  tt_min_word :: int
  tt_max_word :: int

definition tt_liquidity_net :: "tick_table \<Rightarrow> int \<Rightarrow> int" where
  "tt_liquidity_net t tick = (case tt_ticks t tick of Some n \<Rightarrow> n | None \<Rightarrow> 0)"

definition word_in_window :: "tick_table \<Rightarrow> int \<Rightarrow> bool" where
  "word_in_window t word \<longleftrightarrow> tt_min_word t \<le> word \<and> word \<le> tt_max_word t"

definition probe_word :: "bool \<Rightarrow> int \<Rightarrow> int" where
  "probe_word zero_for_one compressed =
     (if zero_for_one then wrap_i16 (compressed div 256) else wrap_i16 (wrap_i32 (compressed + 1) div 256))"

fun table_loop ::
    "'e v3lib \<Rightarrow> tick_table \<Rightarrow> bool \<Rightarrow> u32 \<Rightarrow> int \<Rightarrow> nat \<Rightarrow> swap_state \<Rightarrow> ('e, swap_state) eres" where
  "table_loop lib table zfo fee spacing 0 s = eok s"
| "table_loop lib table zfo fee spacing (Suc n) s =
     (if swap_more zfo s then
        rbind (compress_tick (sw_tick s) spacing) (\<lambda>compressed.
          if \<not> word_in_window table (probe_word zfo compressed) then eok s
          else
            ebind (elib (lib_next_tick lib (tt_bitmap table) (sw_tick s) spacing zfo)) (\<lambda>(next_tick, initialized).
              ebind (swap_body lib (tt_liquidity_net table) zfo fee next_tick initialized s)
                (table_loop lib table zfo fee spacing n)))
      else eok s)"

definition try_swap ::
    "'e v3lib \<Rightarrow> u256 \<Rightarrow> bool \<Rightarrow> u256 \<Rightarrow> int \<Rightarrow> u128 \<Rightarrow> u32 \<Rightarrow> int \<Rightarrow> tick_table \<Rightarrow> ('e, u256) eres" where
  "try_swap lib amount_in zero_for_one sqrt_price_x96 start_tick start_liquidity fee_pips tick_spacing table =
     (if amount_in = 0 then eok 0
      else ebind
        (table_loop lib table zero_for_one fee_pips tick_spacing 1024
           (swap_init amount_in sqrt_price_x96 start_tick start_liquidity))
        (\<lambda>s. eok (swap_out s)))"

definition v3_get_amount_out ::
    "'e v3lib \<Rightarrow> u256 \<Rightarrow> bool \<Rightarrow> u256 \<Rightarrow> int \<Rightarrow> u128 \<Rightarrow> u32 \<Rightarrow> int \<Rightarrow> tick_table \<Rightarrow> u256 res" where
  "v3_get_amount_out lib amount_in zero_for_one sqrt_price_x96 tick liquidity fee_pips tick_spacing table =
     rbind (try_swap lib amount_in zero_for_one sqrt_price_x96 tick liquidity fee_pips tick_spacing table)
       (\<lambda>r. case r of Inr out \<Rightarrow> Inr out | Inl e \<Rightarrow> Inr 0)"

text \<open>The table read as a lazy source: inside the window a missing word is empty, outside it is unknown.\<close>

definition source_of_table :: "tick_table \<Rightarrow> tick_source" where
  "source_of_table t =
     \<lparr>bitmap_word = (\<lambda>w. if word_in_window t w then Some (case tt_bitmap t w of Some b \<Rightarrow> b | None \<Rightarrow> 0) else None),
      liquidity_net = tt_liquidity_net t\<rparr>"

definition source_of_map :: "(int \<rightharpoonup> u256) \<Rightarrow> (int \<rightharpoonup> int) \<Rightarrow> tick_source" where
  "source_of_map bitmap ticks =
     \<lparr>bitmap_word = (\<lambda>w. Some (case bitmap w of Some b \<Rightarrow> b | None \<Rightarrow> 0)),
      liquidity_net = (\<lambda>t. case ticks t of Some n \<Rightarrow> n | None \<Rightarrow> 0)\<rparr>"

section \<open>Correctness of the bitmap search\<close>

text \<open>What the crate documents of its bit scans: the highest and the lowest set bit.\<close>

definition bit_scans_ok :: "'e v3lib \<Rightarrow> bool" where
  "bit_scans_ok lib \<longleftrightarrow>
     (\<forall>w. w \<noteq> 0 \<longrightarrow> (\<exists>m. lib_msb lib w = Inr m \<and> bit w (unat m) \<and> (\<forall>j. unat m < j \<longrightarrow> \<not> bit w j))) \<and>
     (\<forall>w. w \<noteq> 0 \<longrightarrow> (\<exists>m. lib_lsb lib w = Inr m \<and> bit w (unat m) \<and> (\<forall>j. j < unat m \<longrightarrow> \<not> bit w j)))"

text \<open>The protocol's ticks (one below the minimum included: a downward crossing steps there).\<close>

definition search_ok :: "int \<Rightarrow> int \<Rightarrow> bool" where
  "search_ok tick spacing \<longleftrightarrow> MIN_TICK - 1 \<le> tick \<and> tick \<le> MAX_TICK \<and> 0 < spacing \<and> spacing \<le> 32767"

lemma compress_tick_floor:
  assumes "in_i32 tick" "0 < spacing"
  shows "compress_tick tick spacing = Inr (tick div spacing)"
proof -
  have lo: "- (2 ^ 31) \<le> tick" and hi: "tick < 2 ^ 31" using assms(1) by (simp_all add: in_i32_def)
  have "in_i32 (tick div spacing)"
  proof (cases "0 \<le> tick")
    case True
    have "tick div spacing \<le> tick div 1" using True assms(2) by (intro zdiv_mono2) auto
    moreover have "0 \<le> tick div spacing" using True assms(2) by (simp add: pos_imp_zdiv_nonneg_iff)
    ultimately show ?thesis using hi by (simp add: in_i32_def)
  next
    case False
    then have "tick div spacing < 0" using assms(2) by (simp add: pos_imp_zdiv_neg_iff)
    moreover have "tick \<le> tick div spacing"
      using zdiv_mono2_neg [of tick 1 spacing] False assms(2) by simp
    ultimately show ?thesis using lo by (simp add: in_i32_def)
  qed
  moreover have "(if tick < 0 \<and> tmod tick spacing \<noteq> 0 then tdiv tick spacing - 1 else tdiv tick spacing) = tick div spacing"
    using assms(2) by (rule tdiv_floor)
  ultimately have "(if tick < 0 \<and> tmod tick spacing \<noteq> 0 then wrap_i32 (tdiv tick spacing - 1) else tdiv tick spacing)
      = tick div spacing"
    by (auto simp: wrap_i32_id split: if_splits)
  then show ?thesis using assms(2) by (simp add: compress_tick_def i32_div_def)
qed

text \<open>The range facts every case of the search needs.\<close>

lemma search_ok_range:
  assumes "search_ok tick spacing" "c = tick div spacing"
  shows "in_i32 tick" "- 887273 \<le> c" "c \<le> 887272" "in_i16 (c div 256)" "in_i16 ((c + 1) div 256)"
    and "\<And>k. c - 255 \<le> k \<Longrightarrow> k \<le> c + 256 \<Longrightarrow> in_i32 k \<and> in_i32 (k * spacing)"
proof -
  have s: "0 < spacing" "spacing \<le> 32767" and t: "- 887273 \<le> tick" "tick \<le> 887272"
    using assms(1) by (simp_all add: search_ok_def MIN_TICK_def MAX_TICK_def)
  show i: "in_i32 tick" using t by (simp add: in_i32_def)
  have "c * spacing + tick mod spacing = tick" unfolding assms(2) by (rule div_mult_mod_eq)
  moreover have "0 \<le> tick mod spacing" "tick mod spacing < spacing" using s by simp_all
  moreover have "(c + 1) * spacing = c * spacing + spacing" by (simp add: algebra_simps)
  ultimately have c1: "c * spacing \<le> tick" "tick < (c + 1) * spacing" by linarith+
  show lo: "- 887273 \<le> c"
  proof (rule ccontr)
    assume "\<not> - 887273 \<le> c"
    then have "(c + 1) * spacing \<le> c + 1" using s mult_left_mono_neg [of 1 spacing "c + 1"] by simp
    then show False using c1(2) t \<open>\<not> - 887273 \<le> c\<close> by linarith
  qed
  show hi: "c \<le> 887272"
  proof (rule ccontr)
    assume "\<not> c \<le> 887272"
    then have "c \<le> c * spacing" using s mult_left_mono [of 1 spacing c] by simp
    then show False using c1(1) t \<open>\<not> c \<le> 887272\<close> by linarith
  qed
  have "- 887273 div 256 \<le> k div 256 \<and> k div 256 \<le> 887273 div 256" if "- 887273 \<le> k" "k \<le> 887273" for k :: int
    using that zdiv_mono1 [of "- 887273" k 256] zdiv_mono1 [of k 887273 256] by simp
  from this [of c] this [of "c + 1"] show "in_i16 (c div 256)" "in_i16 ((c + 1) div 256)"
    using lo hi by (simp_all add: in_i16_def)
  fix k :: int
  assume k: "c - 255 \<le> k" "k \<le> c + 256"
  have "k * spacing \<le> (c + 256) * spacing" using k s by (intro mult_right_mono) auto
  also have "\<dots> \<le> tick + 256 * 32767" using c1(1) s by (simp add: algebra_simps)
  finally have u: "k * spacing \<le> 887272 + 256 * 32767" using t by linarith
  have "(c - 255) * spacing \<le> k * spacing" using k s by (intro mult_right_mono) auto
  moreover have "(c - 255) * spacing = (c + 1) * spacing - 256 * spacing" by (simp add: algebra_simps)
  ultimately have l: "- 887273 - 256 * 32767 \<le> k * spacing" using c1(2) s t by linarith
  show "in_i32 k \<and> in_i32 (k * spacing)" using u l k lo hi by (simp add: in_i32_def)
qed

lemma low_mask: "push_bit b (1::u256) - 1 + push_bit b 1 = mask (Suc b)"
  by (simp add: mask_eq_exp_minus_1 push_bit_eq_mult)

lemma bit_low_mask: "bit (w AND mask (Suc b) :: u256) i \<longleftrightarrow> bit w i \<and> i \<le> b"
  by (auto simp: bit_and_iff bit_mask_iff dest: bit_imp_le_length)

lemma bit_high_mask: "bit (w AND NOT (push_bit b 1 - 1) :: u256) i \<longleftrightarrow> bit w i \<and> b \<le> i"
proof -
  have "push_bit b (1::u256) - 1 = mask b" by (simp add: mask_eq_exp_minus_1 push_bit_eq_mult)
  then show ?thesis by (auto simp: bit_and_iff bit_not_iff bit_mask_iff possible_bit_def dest: bit_imp_le_length)
qed

lemma u8_of_mod: "unat (word_of_int (c mod 256) :: u8) = nat (c mod 256)"
  by (simp add: unsigned_of_int take_bit_eq_mod nat_mod_distrib)

lemma uint_u8_diff:
  assumes "unat (n::u8) \<le> unat m"
  shows "uint (m - n) = int (unat m) - int (unat n)"
proof -
  have "uint (m - n) = int (unat (m - n))" by (rule uint_nat)
  then show ?thesis using assms by (simp only: unat_minus_id [OF assms] of_nat_diff)
qed

text \<open>The bit of the compressed tick \<open>k\<close>: bit \<open>k mod 256\<close> of word \<open>k div 256\<close>.\<close>

definition tick_bit :: "tick_source \<Rightarrow> int \<Rightarrow> bool" where
  "tick_bit src k = (case bitmap_word src (k div 256) of None \<Rightarrow> False | Some w \<Rightarrow> bit w (nat (k mod 256)))"

lemma in_word: "0 \<le> m \<Longrightarrow> m < 256 \<Longrightarrow> (256 * q + m) div 256 = q \<and> (256 * q + m) mod 256 = (m :: int)"
  by simp

lemma next_tick_lte:
  assumes lib: "bit_scans_ok lib" and ok: "search_ok tick spacing" and c: "c = tick div spacing"
    and w: "bitmap_word src (c div 256) = Some w"
  shows "\<exists>c' init. next_initialized_tick_src lib src tick spacing True = eok (Some (c' * spacing, init)) \<and>
    c' \<le> c \<and> c' div 256 = c div 256 \<and> init = tick_bit src c' \<and> (\<not> init \<longrightarrow> c' mod 256 = 0) \<and>
    (\<forall>k. c' < k \<and> k \<le> c \<longrightarrow> \<not> tick_bit src k)"
proof -
  note r = search_ok_range [OF ok c]
  have sp: "0 < spacing" using ok by (simp add: search_ok_def)
  have ct: "compress_tick tick spacing = Inr c" using compress_tick_floor [OF r(1) sp] c by simp
  define q where "q = c div 256"
  define b where "b = nat (c mod 256)"
  have b: "b < 256" and cq: "c = 256 * q + int b" by (simp_all add: b_def q_def)
  have pos: "position c = (q, word_of_int (c mod 256))" using r(4) by (simp add: position_def wrap_i16_id q_def)
  have ub: "unat (word_of_int (c mod 256) :: u8) = b" by (simp only: u8_of_mod b_def)
  have ui: "uint (word_of_int (c mod 256) :: u8) = int b" by (simp only: uint_nat ub)
  have w': "bitmap_word src q = Some w" using w by (simp add: q_def)
  define masked where "masked = w AND mask (Suc b)"
  have bm: "bit masked i \<longleftrightarrow> bit w i \<and> i \<le> b" for i unfolding masked_def by (rule bit_low_mask)
  have tb: "tick_bit src (256 * q + int m) = bit w m" if "m < 256" for m
    using that w' in_word [of "int m" q] by (simp add: tick_bit_def)
  have clear: "\<not> tick_bit src k" if "256 * q + int m < k" "k \<le> c" "\<forall>j. m < j \<longrightarrow> \<not> bit masked j" for k m
  proof -
    define j where "j = nat (k - 256 * q)"
    have "k = 256 * q + int j" "m < j" "j \<le> b" using that cq by (simp_all add: j_def)
    then show ?thesis using that(3) tb [of j] b bm [of j] by auto
  qed
  show ?thesis
  proof (cases "masked = 0")
    case True
    have e: "next_initialized_tick_src lib src tick spacing True =
        eok (Some (wrap_i32 (wrap_i32 (c - int b) * spacing), False))"
      unfolding next_initialized_tick_src_def ct rbind_Inr Let_def if_True pos prod.case w' option.case ub ui
        low_mask masked_def [symmetric]
      using True by simp
    have n: "\<not> bit w i" if "i \<le> b" for i using bm [of i] that True by simp
    have i: "in_i32 (256 * q)" "in_i32 (256 * q * spacing)" using r(6) [of "256 * q"] cq b by simp_all
    have "\<not> tick_bit src k" if "256 * q < k" "k \<le> c" for k
      using clear [of 0 k] that True by simp
    moreover have "\<not> tick_bit src (256 * q)" using tb [of 0] n [of 0] by simp
    ultimately show ?thesis using e i cq b
      by (intro exI [of _ "256 * q"] exI [of _ False]) (auto simp: wrap_i32_id)
  next
    case False
    then obtain m where m: "lib_msb lib masked = Inr m" "bit masked (unat m)" "\<forall>j. unat m < j \<longrightarrow> \<not> bit masked j"
      using lib unfolding bit_scans_ok_def by blast
    define n where "n = unat m"
    have mb: "n \<le> b" "bit w n" using m(2) bm by (auto simp: n_def)
    have d: "uint (word_of_int (c mod 256) - m) = int b - int n"
      using mb(1) unfolding n_def by (simp only: uint_u8_diff ub)
    have e: "next_initialized_tick_src lib src tick spacing True =
        eok (Some (wrap_i32 (wrap_i32 (c - (int b - int n)) * spacing), True))"
      unfolding next_initialized_tick_src_def ct rbind_Inr Let_def if_True pos prod.case w' option.case ub
        low_mask masked_def [symmetric]
      using False m(1) by (simp add: d elib_def)
    define c' where "c' = 256 * q + int n"
    have c': "c - (int b - int n) = c'" using cq by (simp add: c'_def)
    have n256: "n < 256" using mb b by simp
    have i: "in_i32 c'" "in_i32 (c' * spacing)" using r(6) [of c'] cq b mb by (simp_all add: c'_def)
    have "c' \<le> c" "c' div 256 = c div 256" "tick_bit src c'"
      using cq b mb n256 in_word [of "int n" q] tb [OF n256] by (simp_all add: c'_def)
    then show ?thesis using e i clear [OF _ _ m(3)] unfolding c'
      by (intro exI [of _ c'] exI [of _ True]) (auto simp: wrap_i32_id c'_def n_def)
  qed
qed

lemma next_tick_gt:
  assumes lib: "bit_scans_ok lib" and ok: "search_ok tick spacing" and c: "c = tick div spacing"
    and w: "bitmap_word src ((c + 1) div 256) = Some w"
  shows "\<exists>c' init. next_initialized_tick_src lib src tick spacing False = eok (Some (c' * spacing, init)) \<and>
    c < c' \<and> c' div 256 = (c + 1) div 256 \<and> init = tick_bit src c' \<and> (\<not> init \<longrightarrow> c' mod 256 = 255) \<and>
    (\<forall>k. c < k \<and> k < c' \<longrightarrow> \<not> tick_bit src k)"
proof -
  note r = search_ok_range [OF ok c]
  have sp: "0 < spacing" using ok by (simp add: search_ok_def)
  have ct: "compress_tick tick spacing = Inr c" using compress_tick_floor [OF r(1) sp] c by simp
  have c1: "wrap_i32 (c + 1) = c + 1" using r(6) [of "c + 1"] by (simp add: wrap_i32_id)
  define q where "q = (c + 1) div 256"
  define b where "b = nat ((c + 1) mod 256)"
  have b: "b < 256" and cq: "c + 1 = 256 * q + int b" by (simp_all add: b_def q_def)
  have pos: "position (c + 1) = (q, word_of_int ((c + 1) mod 256))"
    using r(5) by (simp add: position_def wrap_i16_id q_def)
  have ub: "unat (word_of_int ((c + 1) mod 256) :: u8) = b" by (simp only: u8_of_mod b_def)
  have w': "bitmap_word src q = Some w" using w by (simp add: q_def)
  define masked where "masked = w AND NOT (push_bit b 1 - 1)"
  have bm: "bit masked i \<longleftrightarrow> bit w i \<and> b \<le> i" for i unfolding masked_def by (rule bit_high_mask)
  have tb: "tick_bit src (256 * q + int m) = bit w m" if "m < 256" for m
    using that w' in_word [of "int m" q] by (simp add: tick_bit_def)
  have clear: "\<not> tick_bit src k" if "c < k" "k < 256 * q + int m" "m \<le> 256" "\<forall>j. j < m \<longrightarrow> \<not> bit masked j" for k m
  proof -
    define j where "j = nat (k - 256 * q)"
    have "k = 256 * q + int j" "j < m" "b \<le> j" using that cq by (simp_all add: j_def)
    then show ?thesis using that(3,4) tb [of j] bm [of j] by auto
  qed
  show ?thesis
  proof (cases "masked = 0")
    case True
    have ff: "unat (0xff :: u8) = 255" by simp
    have "unat (word_of_int ((c + 1) mod 256) :: u8) \<le> unat (0xff :: u8)" unfolding ub ff using b by linarith
    from uint_u8_diff [OF this] have d: "uint (0xff - word_of_int ((c + 1) mod 256) :: u8) = 255 - int b"
      unfolding ub ff by (simp only: of_nat_numeral)
    have e: "next_initialized_tick_src lib src tick spacing False =
        eok (Some (wrap_i32 (wrap_i32 (c + 1 + (255 - int b)) * spacing), False))"
      unfolding next_initialized_tick_src_def ct rbind_Inr Let_def if_False c1 pos prod.case w' option.case ub d
        masked_def [symmetric]
      using True by simp
    define c' where "c' = 256 * q + 255"
    have c': "c + 1 + (255 - int b) = c'" using cq by (simp add: c'_def)
    have i: "in_i32 c'" "in_i32 (c' * spacing)" using r(6) [of c'] cq b by (simp_all add: c'_def)
    have "\<not> tick_bit src k" if "c < k" "k < c'" for k
      using clear [of k 256] that True by (simp add: c'_def)
    moreover have "\<not> tick_bit src c'" using tb [of 255] bm [of 255] True b by (simp add: c'_def)
    moreover have "c' mod 256 = 255" "c' div 256 = q" by (simp_all add: c'_def)
    moreover have "c < c'" using cq b by (simp add: c'_def)
    ultimately show ?thesis using e i unfolding c' q_def [symmetric]
      by (intro exI [of _ c'] exI [of _ False]) (simp add: wrap_i32_id)
  next
    case False
    then obtain m where m: "lib_lsb lib masked = Inr m" "bit masked (unat m)" "\<forall>j. j < unat m \<longrightarrow> \<not> bit masked j"
      using lib unfolding bit_scans_ok_def by blast
    define n where "n = unat m"
    have mb: "b \<le> n" "bit w n" using m(2) bm by (auto simp: n_def)
    have n256: "n < 256" using unsigned_less [of m, where 'a = nat] by (simp add: n_def)
    have d: "uint (m - word_of_int ((c + 1) mod 256)) = int n - int b"
      using mb(1) unfolding n_def by (simp only: uint_u8_diff ub)
    have e: "next_initialized_tick_src lib src tick spacing False =
        eok (Some (wrap_i32 (wrap_i32 (c + 1 + (int n - int b)) * spacing), True))"
      unfolding next_initialized_tick_src_def ct rbind_Inr Let_def if_False c1 pos prod.case w' option.case ub
        masked_def [symmetric]
      using False m(1) by (simp add: d elib_def)
    define c' where "c' = 256 * q + int n"
    have c': "c + 1 + (int n - int b) = c'" using cq by (simp add: c'_def)
    have i: "in_i32 c'" "in_i32 (c' * spacing)" using r(6) [of c'] cq b mb n256 by (simp_all add: c'_def)
    have "c < c'" "c' div 256 = (c + 1) div 256" "tick_bit src c'"
      using cq b mb n256 in_word [of "int n" q] tb [OF n256] by (simp_all add: c'_def q_def)
    moreover have "\<not> tick_bit src k" if "c < k" "k < c'" for k
      using clear [of k n] that m(3) n256 by (simp add: c'_def n_def)
    ultimately show ?thesis using e i unfolding c'
      by (intro exI [of _ c'] exI [of _ True]) (simp add: wrap_i32_id)
  qed
qed

section \<open>The walk\<close>

text \<open>With a positive spacing compression never divides by zero, so the walk cannot panic.\<close>

lemma compress_tick_total: "0 < spacing \<Longrightarrow> \<not> isl (compress_tick tick spacing)"
  by (simp add: compress_tick_def i32_div_def)

lemma isl_ebind [simp]: "isl (ebind m f) \<longleftrightarrow> isl m \<or> (\<exists>x. m = Inr (Inr x) \<and> isl (f x))"
  by (cases m) (auto simp: ebind_def split: sum.splits)

lemma not_isl_eok [simp]: "\<not> isl (elib x)" "\<not> isl (eok y)"
  by (simp_all add: elib_def eok_def)

lemma next_tick_no_panic: "0 < spacing \<Longrightarrow> \<not> isl (next_initialized_tick_src lib src tick spacing lte)"
  using compress_tick_total [of spacing tick]
  by (auto simp: next_initialized_tick_src_def Let_def split: option.splits prod.splits)

lemma swap_body_no_panic: "\<not> isl (swap_body lib net zfo fee t i s)"
  by (auto simp: swap_body_def Let_def split: prod.splits if_splits)

lemma swap_loop_no_panic: "0 < spacing \<Longrightarrow> \<not> isl (swap_loop lib src zfo fee spacing n s)"
  by (induction n arbitrary: s)
     (auto simp: next_tick_no_panic swap_body_no_panic split: option.splits prod.splits)

lemma v3_src_total:
  assumes "0 < spacing"
  shows "\<not> isl (v3_get_amount_out_src lib a zfo sp tick liq fee spacing src)"
proof -
  have "\<not> isl (try_swap_src lib a zfo sp tick liq fee spacing src)"
    using assms by (simp add: try_swap_src_def swap_loop_no_panic)
  then show ?thesis by (auto simp: v3_get_amount_out_src_def split: sum.splits)
qed

text \<open>
  Hydrating more words only extends the walk.  A source is below another one when every word
  it knows is the other's, and it knows the net liquidity of every initialised tick in those
  words.  Each step's output is far below \<open>2^240\<close> (a 128-bit liquidity times a 160-bit price
  difference), so 1024 of them cannot wrap.
\<close>

definition src_le :: "int \<Rightarrow> tick_source \<Rightarrow> tick_source \<Rightarrow> bool" where
  "src_le spacing a b \<longleftrightarrow>
     (\<forall>w. bitmap_word a w = None \<or> bitmap_word a w = bitmap_word b w) \<and>
     (\<forall>k. tick_bit a k \<longrightarrow> liquidity_net a (clamp_tick (k * spacing)) = liquidity_net b (clamp_tick (k * spacing)))"

definition ticks_in_range :: "'e v3lib \<Rightarrow> bool" where
  "ticks_in_range lib \<longleftrightarrow> (\<forall>p t. lib_tick_at_sqrt lib p = Inr t \<longrightarrow> MIN_TICK \<le> t \<and> t \<le> MAX_TICK)"

definition step_out_small :: "'e v3lib \<Rightarrow> bool" where
  "step_out_small lib \<longleftrightarrow>
     (\<forall>p t l r f p' i out fe. lib_swap_step lib p t l r f = Inr (p', i, out, fe) \<longrightarrow> unat out < 2 ^ 240)"

lemma next_tick_mono:
  "src_le spacing a b \<Longrightarrow> next_initialized_tick_src lib a tick spacing lte = eok None \<or>
     next_initialized_tick_src lib a tick spacing lte = next_initialized_tick_src lib b tick spacing lte"
proof -
  assume "src_le spacing a b"
  then have *: "bitmap_word a w = None \<or> bitmap_word a w = bitmap_word b w" for w by (simp add: src_le_def)
  show ?thesis
  proof (cases "compress_tick tick spacing")
    case (Inr c)
    show ?thesis
      using * [of "fst (position c)"] * [of "fst (position (wrap_i32 (c + 1)))"] Inr
      by (cases lte) (auto simp: next_initialized_tick_src_def Let_def split: prod.splits)
  qed (simp add: next_initialized_tick_src_def)
qed

lemma swap_body_calculated:
  assumes "step_out_small lib" "swap_body lib net zfo fee t i s = Inr (Inr s')"
    and "- (2 ^ 255) + 2 ^ 240 \<le> sw_calculated s" "sw_calculated s \<le> 0"
  shows "sw_calculated s' \<le> sw_calculated s" "sw_calculated s - 2 ^ 240 \<le> sw_calculated s'"
proof -
  let ?nt = "clamp_tick t"
  obtain pn where pn: "lib_sqrt_at_tick lib ?nt = Inr pn"
    using assms(2) by (cases "lib_sqrt_at_tick lib ?nt") (simp_all add: swap_body_def Let_def elib_def)
  define tg where "tg = (if (zfo \<and> pn < price_limit zfo) \<or> (\<not> zfo \<and> price_limit zfo < pn) then price_limit zfo else pn)"
  obtain p' ai out fe where st: "lib_swap_step lib (sw_sqrt s) tg (sw_liq s) (sw_remaining s) fee = Inr (p', ai, out, fe)"
    using assms(2) by (cases "lib_swap_step lib (sw_sqrt s) tg (sw_liq s) (sw_remaining s) fee")
      (auto simp: swap_body_def Let_def elib_def pn tg_def)
  have c: "sw_calculated s' = wrap_i256 (sw_calculated s - sint out)"
    using assms(2) st by (auto simp: swap_body_def Let_def elib_def pn tg_def [symmetric] ebind_eq_ok eok_def split: if_splits)
  have small: "unat out < 2 ^ 240" using st assms(1) unfolding step_out_small_def by blast
  then have "uint out < 2 ^ 240" by (rule uint_less_of_unat)
  moreover have so: "sint out = uint out"
    using small by (intro sint_small_u256) (erule order_less_le_trans, simp)
  moreover have "0 \<le> uint out" by simp
  moreover from calculation have "wrap_i256 (sw_calculated s - sint out) = sw_calculated s - sint out"
    using assms(3,4) by (intro wrap_i256_id) linarith+
  ultimately show "sw_calculated s' \<le> sw_calculated s" "sw_calculated s - 2 ^ 240 \<le> sw_calculated s'"
    unfolding c by linarith+
qed

lemma swap_loop_calculated:
  assumes "step_out_small lib" "swap_loop lib src zfo fee spacing n s = Inr (Inr s')"
    and "- (2 ^ 255) + int n * 2 ^ 240 \<le> sw_calculated s" "sw_calculated s \<le> 0"
  shows "sw_calculated s' \<le> sw_calculated s \<and> sw_calculated s - int n * 2 ^ 240 \<le> sw_calculated s'"
  using assms(2-)
proof (induction n arbitrary: s)
  case 0
  then show ?case by (simp add: eok_def)
next
  case (Suc n)
  show ?case
  proof (cases "s' = s")
    case False
    then obtain t i m where m: "swap_body lib (liquidity_net src) zfo fee t i s = Inr (Inr m)"
      and l: "swap_loop lib src zfo fee spacing n m = Inr (Inr s')"
      using Suc.prems(1) by (auto simp: ebind_eq_ok eok_def split: if_splits option.splits prod.splits)
    have b: "- (2 ^ 255) + 2 ^ 240 + int n * 2 ^ 240 \<le> sw_calculated s"
      using Suc.prems(2) by (simp add: algebra_simps)
    have nn: "0 \<le> int n * 2 ^ 240" by simp
    have b1: "- (2 ^ 255) + 2 ^ 240 \<le> sw_calculated s" using b nn by linarith
    note c = swap_body_calculated [OF assms(1) m b1 Suc.prems(3)]
    have "- (2 ^ 255) + int n * 2 ^ 240 \<le> sw_calculated m" "sw_calculated m \<le> 0"
      using c b Suc.prems(3) by linarith+
    note ih = Suc.IH [OF l this]
    have "int (Suc n) * 2 ^ 240 = 2 ^ 240 + int n * 2 ^ 240" by (simp add: algebra_simps)
    then show ?thesis using c ih by linarith
  qed simp
qed

text \<open>An initialised tick the search returns is a set bit of the source.\<close>

lemma next_tick_initialized:
  assumes "bit_scans_ok lib" "search_ok tick spacing"
    and "next_initialized_tick_src lib src tick spacing lte = Inr (Inr (Some (t, True)))"
  shows "\<exists>k. t = k * spacing \<and> tick_bit src k"
proof -
  let ?c = "tick div spacing"
  have r: "in_i32 tick" "0 < spacing" and c1: "wrap_i32 (?c + 1) = ?c + 1"
    and p: "fst (position ?c) = ?c div 256" "fst (position (?c + 1)) = (?c + 1) div 256"
    using search_ok_range [OF assms(2) refl] assms(2) by (simp_all add: search_ok_def wrap_i32_id wrap_i16_id position_def)
  have w: "bitmap_word src ((if lte then ?c else ?c + 1) div 256) \<noteq> None"
  proof
    assume "bitmap_word src ((if lte then ?c else ?c + 1) div 256) = None"
    then have "next_initialized_tick_src lib src tick spacing lte = eok None"
      using p c1 unfolding next_initialized_tick_src_def compress_tick_floor [OF r] Let_def
      by (auto split: prod.splits)
    then show False using assms(3) by (simp add: eok_def)
  qed
  then obtain w where "bitmap_word src ((if lte then ?c else ?c + 1) div 256) = Some w" by blast
  then show ?thesis
    using next_tick_lte [OF assms(1,2) refl, of src w] next_tick_gt [OF assms(1,2) refl, of src w] assms(3)
    by (cases lte) (auto simp: eok_def)
qed

lemma swap_body_net_cong:
  "(i \<Longrightarrow> net (clamp_tick t) = net' (clamp_tick t)) \<Longrightarrow> swap_body lib net zfo fee t i s = swap_body lib net' zfo fee t i s"
  by (cases i) (simp_all add: swap_body_def Let_def cong: if_cong)

lemma swap_body_tick:
  assumes "ticks_in_range lib" "swap_body lib net zfo fee t i s = Inr (Inr s')" "search_ok (sw_tick s) spacing"
  shows "search_ok (sw_tick s') spacing"
proof -
  have c: "MIN_TICK \<le> clamp_tick t" "clamp_tick t \<le> MAX_TICK" by (simp_all add: clamp_tick_def MIN_TICK_def MAX_TICK_def)
  obtain pn where pn: "lib_sqrt_at_tick lib (clamp_tick t) = Inr pn"
    using assms(2) by (cases "lib_sqrt_at_tick lib (clamp_tick t)") (simp_all add: swap_body_def Let_def elib_def)
  define tg where "tg = (if (zfo \<and> pn < price_limit zfo) \<or> (\<not> zfo \<and> price_limit zfo < pn) then price_limit zfo else pn)"
  obtain p' ai out fe where st: "lib_swap_step lib (sw_sqrt s) tg (sw_liq s) (sw_remaining s) fee = Inr (p', ai, out, fe)"
    using assms(2) by (cases "lib_swap_step lib (sw_sqrt s) tg (sw_liq s) (sw_remaining s) fee")
      (auto simp: swap_body_def Let_def elib_def pn tg_def)
  have "sw_tick s' \<in> {clamp_tick t - 1, clamp_tick t, sw_tick s} \<or> (\<exists>p. lib_tick_at_sqrt lib p = Inr (sw_tick s'))"
    using assms(2) st
    by (auto simp: swap_body_def Let_def elib_def pn tg_def [symmetric] ebind_eq_ok eok_def split: if_splits)
  then show ?thesis using assms(1,3) c unfolding ticks_in_range_def search_ok_def by fastforce
qed

lemma swap_loop_mono:
  assumes lib: "step_out_small lib" "bit_scans_ok lib" "ticks_in_range lib" and le: "src_le spacing a b"
    and "swap_loop lib b zfo fee spacing n s = Inr (Inr full)"
    and "- (2 ^ 255) + int n * 2 ^ 240 \<le> sw_calculated s" "sw_calculated s \<le> 0" "search_ok (sw_tick s) spacing"
  shows "\<exists>part. swap_loop lib a zfo fee spacing n s = Inr (Inr part) \<and>
    sw_calculated full \<le> sw_calculated part \<and> sw_calculated part \<le> 0"
  using assms(5-)
proof (induction n arbitrary: s)
  case 0
  then show ?case by (simp add: eok_def)
next
  case (Suc n)
  show ?case
  proof (cases "swap_more zfo s")
    case False
    then show ?thesis using Suc.prems by (simp add: eok_def)
  next
    case True
    have stop: "sw_calculated full \<le> sw_calculated s"
      using swap_loop_calculated [OF lib(1) Suc.prems(1-3)] by simp
    obtain o1 where o1: "next_initialized_tick_src lib b (sw_tick s) spacing zfo = Inr (Inr o1)"
      using Suc.prems(1) True by (auto simp: ebind_eq_ok)
    then have "next_initialized_tick_src lib a (sw_tick s) spacing zfo = eok None \<or>
        next_initialized_tick_src lib a (sw_tick s) spacing zfo = Inr (Inr o1)"
      using next_tick_mono [OF le, of lib "sw_tick s" zfo] by simp
    then show ?thesis
    proof
      assume "next_initialized_tick_src lib a (sw_tick s) spacing zfo = eok None"
      then show ?thesis using True stop Suc.prems(3) by (simp add: eok_def)
    next
      assume oa: "next_initialized_tick_src lib a (sw_tick s) spacing zfo = Inr (Inr o1)"
      show ?thesis
      proof (cases o1)
        case None
        then show ?thesis using oa o1 True Suc.prems by (simp add: eok_def)
      next
        case (Some ti)
        obtain t i where ti: "ti = (t, i)" by fastforce
        have "liquidity_net a (clamp_tick t) = liquidity_net b (clamp_tick t)" if i
          using next_tick_initialized [OF lib(2) Suc.prems(4), of a zfo t] oa Some ti that le
          by (auto simp: src_le_def)
        then have net: "swap_body lib (liquidity_net a) zfo fee t i s = swap_body lib (liquidity_net b) zfo fee t i s"
          by (rule swap_body_net_cong)
        obtain m where m: "swap_body lib (liquidity_net b) zfo fee t i s = Inr (Inr m)"
          and l: "swap_loop lib b zfo fee spacing n m = Inr (Inr full)"
          using Suc.prems(1) True o1 Some ti by (auto simp: ebind_eq_ok)
        have b: "- (2 ^ 255) + 2 ^ 240 + int n * 2 ^ 240 \<le> sw_calculated s"
          using Suc.prems(2) by (simp add: algebra_simps)
        have nn: "0 \<le> int n * 2 ^ 240" by simp
        have b1: "- (2 ^ 255) + 2 ^ 240 \<le> sw_calculated s" using b nn by linarith
        note c = swap_body_calculated [OF lib(1) m b1 Suc.prems(3)]
        have "- (2 ^ 255) + int n * 2 ^ 240 \<le> sw_calculated m" "sw_calculated m \<le> 0"
          using c b Suc.prems(3) by linarith+
        from Suc.IH [OF l this swap_body_tick [OF lib(3) m Suc.prems(4)]]
        show ?thesis using True oa Some ti m by (simp add: net)
      qed
    qed
  qed
qed

lemma unat_swap_out:
  assumes "- (2 ^ 255) < sw_calculated s" "sw_calculated s \<le> 0"
  shows "unat (swap_out s) = nat (- sw_calculated s)"
proof -
  have "wrap_i256 (- sw_calculated s) = - sw_calculated s" using assms by (intro wrap_i256_id) linarith+
  moreover have "- sw_calculated s < 2 ^ 256" proof -
    have "- sw_calculated s < 2 ^ 255" using assms(1) by linarith
    also have "(2 :: int) ^ 255 < 2 ^ 256" by simp
    finally show ?thesis .
  qed
  moreover have "unat (word_of_int x :: u256) = nat x" if "0 \<le> x" "x < 2 ^ 256" for x
    using that by (simp add: unsigned_of_int take_bit_int_eq_self)
  ultimately show ?thesis using assms(2) by (simp only: swap_out_def neg_0_le_iff_le)
qed

text \<open>The same amount quoted over fewer hydrated words is never more.\<close>

lemma quote_src_mono:
  assumes lib: "step_out_small lib" "bit_scans_ok lib" "ticks_in_range lib" and le: "src_le spacing a b"
    and tick: "search_ok tick spacing"
    and full: "try_swap_src lib amt zfo sp tick liq fee spacing b = eok out"
  shows "\<exists>out'. try_swap_src lib amt zfo sp tick liq fee spacing a = eok out' \<and> out' \<le> out"
proof (cases "amt = 0")
  case True
  then show ?thesis using full by (simp add: try_swap_src_def eok_def)
next
  case False
  let ?s = "swap_init amt sp tick liq"
  have z: "sw_calculated ?s = 0" and tk: "search_ok (sw_tick ?s) spacing" using tick by (simp_all add: swap_init_def)
  obtain f where f: "swap_loop lib b zfo fee spacing 1024 ?s = Inr (Inr f)" and out: "out = swap_out f"
    using full False by (auto simp: try_swap_src_def ebind_eq_ok eok_def)
  have lo: "- (2 ^ 255) + int 1024 * 2 ^ 240 \<le> sw_calculated ?s" "sw_calculated ?s \<le> 0" by (simp_all add: z)
  from swap_loop_mono [OF lib le f lo tk] obtain p where
    p: "swap_loop lib a zfo fee spacing 1024 ?s = Inr (Inr p)" "sw_calculated f \<le> sw_calculated p" "sw_calculated p \<le> 0"
    by blast
  have fl: "- (int 1024 * 2 ^ 240) \<le> sw_calculated f"
    using swap_loop_calculated [OF lib(1) f lo] by (simp add: z)
  have "- (2 ^ 255) < - (int 1024 * 2 ^ 240)" by simp
  then have fl': "- (2 ^ 255) < sw_calculated f" using fl by (rule order_less_le_trans)
  have "nat (- sw_calculated p) \<le> nat (- sw_calculated f)" using p(2) by linarith
  then have "unat (swap_out p) \<le> unat (swap_out f)" using p(2,3) fl' by (simp add: unat_swap_out)
  then show ?thesis using False p(1) out by (simp add: try_swap_src_def word_le_nat_alt eok_def)
qed

text \<open>
  The reference table walk and the lazy walk agree when the crate's own bitmap search is the
  search over the same bitmap.
\<close>

definition lib_search_ok :: "'e v3lib \<Rightarrow> bool" where
  "lib_search_ok lib \<longleftrightarrow>
     (\<forall>bitmap ticks tick spacing lte.
        0 < spacing \<longrightarrow>
        ebind (elib (lib_next_tick lib bitmap tick spacing lte)) (\<lambda>r. eok (Some r)) =
        next_initialized_tick_src lib (source_of_map bitmap ticks) tick spacing lte)"

lemma probe_word_position: "fst (position c) = wrap_i16 (c div 256)"
  by (simp add: position_def)

lemma next_tick_table:
  assumes "lib_search_ok lib" "0 < spacing" "compress_tick tick spacing = Inr c"
  shows "next_initialized_tick_src lib (source_of_table t) tick spacing zfo =
    (if word_in_window t (probe_word zfo c)
     then ebind (elib (lib_next_tick lib (tt_bitmap t) tick spacing zfo)) (\<lambda>r. eok (Some r))
     else eok None)"
proof -
  have "ebind (elib (lib_next_tick lib (tt_bitmap t) tick spacing zfo)) (\<lambda>r. eok (Some r)) =
      next_initialized_tick_src lib (source_of_map (tt_bitmap t) (tt_ticks t)) tick spacing zfo"
    using assms(1,2) unfolding lib_search_ok_def by blast
  then show ?thesis unfolding next_initialized_tick_src_def
    by (simp add: assms(3) position_def probe_word_def source_of_table_def source_of_map_def Let_def)
qed

lemma table_loop_eq:
  assumes "lib_search_ok lib" "0 < spacing"
  shows "table_loop lib t zfo fee spacing n s = swap_loop lib (source_of_table t) zfo fee spacing n s"
proof (induction n arbitrary: s)
  case (Suc n)
  obtain c where c: "compress_tick (sw_tick s) spacing = Inr c"
    using compress_tick_total [OF assms(2)] by (auto simp: not_isl_Inr)
  have ih: "table_loop lib t zfo fee spacing n = swap_loop lib (source_of_table t) zfo fee spacing n"
    by (rule ext) (rule Suc.IH)
  have net: "liquidity_net (source_of_table t) = tt_liquidity_net t" by (simp add: source_of_table_def)
  show ?case
    using next_tick_table [OF assms c, of t zfo] c
    by (cases "lib_next_tick lib (tt_bitmap t) (sw_tick s) spacing zfo") (auto simp: ih net elib_def)
qed simp

lemma v3_table_eq:
  assumes "lib_search_ok lib" "0 < spacing"
  shows "v3_get_amount_out lib amt zfo sp tick liq fee spacing t =
    v3_get_amount_out_src lib amt zfo sp tick liq fee spacing (source_of_table t)"
  by (simp add: v3_get_amount_out_def v3_get_amount_out_src_def try_swap_def try_swap_src_def table_loop_eq [OF assms])

lemma unhydrated_start:
  assumes "0 < spacing" "in_i32 tick"
    and "bitmap_word src (fst (position (if zfo then tick div spacing else wrap_i32 (tick div spacing + 1)))) = None"
  shows "next_initialized_tick_src lib src tick spacing zfo = eok None"
  using assms(3) compress_tick_floor [OF assms(2,1)]
  by (auto simp: next_initialized_tick_src_def Let_def split: prod.splits)

lemma unhydrated_quote_zero:
  assumes "0 < spacing" "in_i32 tick"
    and "bitmap_word src (fst (position (if zfo then tick div spacing else wrap_i32 (tick div spacing + 1)))) = None"
  shows "v3_get_amount_out_src lib a zfo sp tick liq fee spacing src = Inr 0"
proof -
  let ?s = "swap_init a sp tick liq"
  have s: "sw_tick ?s = tick" "sw_calculated ?s = 0" by (simp_all add: swap_init_def)
  have "swap_loop lib src zfo fee spacing (Suc n) ?s = eok ?s" for n
    using unhydrated_start [OF assms, of lib] by (simp add: s)
  from this [of 1023] have l: "swap_loop lib src zfo fee spacing 1024 ?s = eok ?s" by (simp add: eval_nat_numeral)
  have "swap_out ?s = 0" by (simp add: swap_out_def s wrap_i256_def)
  then show ?thesis using l by (simp add: v3_get_amount_out_src_def try_swap_src_def eok_def)
qed

section \<open>A concrete instance of the primitives\<close>

text \<open>
  The witnesses need one: bit scans by search, and a step that fills the whole remaining
  amount at the target price.
\<close>

definition scan_bits :: "nat list \<Rightarrow> u256 \<Rightarrow> unit + u8" where
  "scan_bits is w = (case find (bit w) is of None \<Rightarrow> Inl () | Some i \<Rightarrow> Inr (of_nat i))"

definition base_lib :: "unit v3lib" where
  "base_lib =
     \<lparr>lib_sqrt_at_tick = (\<lambda>t. Inr (word_of_int (2 ^ 96 + t))),
      lib_tick_at_sqrt = (\<lambda>p. Inr (clamp_tick (uint p - 2 ^ 96))),
      lib_swap_step = (\<lambda>p target l r f. Inr (target, word_of_int r, ucast l, 0)),
      lib_add_delta = (\<lambda>l d. Inr (word_of_int (uint l + d))),
      lib_msb = scan_bits (rev [0..<256]),
      lib_lsb = scan_bits [0..<256],
      lib_next_tick = (\<lambda>_ _ _ _. Inl ())\<rparr>"

definition sample_lib :: "unit v3lib" where
  "sample_lib = base_lib\<lparr>lib_next_tick := (\<lambda>bitmap tick spacing lte.
     case next_initialized_tick_src base_lib (source_of_map bitmap Map.empty) tick spacing lte of
       Inr (Inr (Some r)) \<Rightarrow> Inr r | _ \<Rightarrow> Inl ())\<rparr>"

lemma word_has_bit: "(w :: u256) \<noteq> 0 \<Longrightarrow> \<exists>i < 256. bit w i"
proof (rule ccontr)
  assume "w \<noteq> 0" and n: "\<not> (\<exists>i < 256. bit w i)"
  have "w = 0" using n by (intro bit_word_eqI) auto
  then show False using \<open>w \<noteq> 0\<close> by simp
qed

lemma unat_u8_of_nat: "i < 256 \<Longrightarrow> unat (of_nat i :: u8) = i"
  by (rule unat_of_nat_id) simp

lemma scan_msb_ok:
  assumes "(w :: u256) \<noteq> 0"
  shows "\<exists>m. scan_bits (rev [0..<256]) w = Inr m \<and> bit w (unat m) \<and> (\<forall>j. unat m < j \<longrightarrow> \<not> bit w j)"
proof (cases "find (bit w) (rev [0..<256])")
  case None
  then show ?thesis using word_has_bit [OF assms] by (auto simp: find_None_iff)
next
  case (Some k)
  then obtain i where i: "i < 256" "bit w k" "k = 255 - i" "\<forall>j < i. \<not> bit w (255 - j)"
    by (auto simp: find_Some_iff rev_nth)
  have "\<not> bit w j" if "k < j" for j
  proof (cases "j < 256")
    case True
    then show ?thesis using i(1,3,4) that by (auto dest!: spec [of _ "255 - j"])
  qed (auto dest: bit_imp_le_length)
  moreover have "unat (of_nat k :: u8) = k" using i(3) by (intro unat_u8_of_nat) simp
  moreover have "scan_bits (rev [0..<256]) w = Inr (of_nat k)" using Some by (simp add: scan_bits_def)
  ultimately show ?thesis using i(2) by metis
qed

lemma scan_lsb_ok:
  assumes "(w :: u256) \<noteq> 0"
  shows "\<exists>m. scan_bits [0..<256] w = Inr m \<and> bit w (unat m) \<and> (\<forall>j. j < unat m \<longrightarrow> \<not> bit w j)"
proof (cases "find (bit w) [0..<256]")
  case None
  then show ?thesis using word_has_bit [OF assms] by (auto simp: find_None_iff)
next
  case (Some k)
  then obtain i where "i < 256" "bit w k" "k = i" "\<forall>j < i. \<not> bit w j"
    by (auto simp: find_Some_iff)
  then show ?thesis using Some by (simp add: scan_bits_def unat_u8_of_nat)
qed

lemma base_lib_scans: "bit_scans_ok base_lib" and sample_lib_scans: "bit_scans_ok sample_lib"
  using scan_msb_ok scan_lsb_ok by (auto simp: bit_scans_ok_def base_lib_def sample_lib_def)

lemma sample_lib_step: "step_out_small sample_lib"
proof -
  have "unat (ucast l :: u256) < 2 ^ 240" for l :: u128
  proof -
    have "unat (ucast l :: u256) = unat l" by (rule unat_ucast_up) simp
    also have "\<dots> < 2 ^ 128" using unsigned_less [of l, where 'a = nat] by simp
    also have "(2 :: nat) ^ 128 < 2 ^ 240" by simp
    finally show ?thesis .
  qed
  then show ?thesis by (auto simp: step_out_small_def sample_lib_def base_lib_def)
qed

lemma next_tick_of_map_cong:
  "lib_msb lib = lib_msb lib' \<Longrightarrow> lib_lsb lib = lib_lsb lib' \<Longrightarrow>
   next_initialized_tick_src lib (source_of_map b t) tick spacing lte =
   next_initialized_tick_src lib' (source_of_map b t') tick spacing lte"
proof -
  assume l: "lib_msb lib = lib_msb lib'" "lib_lsb lib = lib_lsb lib'"
  have b: "bitmap_word (source_of_map b t) = bitmap_word (source_of_map b t')" by (simp add: source_of_map_def)
  show ?thesis unfolding next_initialized_tick_src_def l b by (rule refl)
qed

lemma next_tick_of_map_ok:
  assumes "bit_scans_ok lib" "0 < spacing"
  shows "\<exists>r. next_initialized_tick_src lib (source_of_map b t) tick spacing lte = Inr (Inr (Some r))"
proof -
  obtain c where c: "compress_tick tick spacing = Inr c"
    using compress_tick_total [OF assms(2)] by (auto simp: not_isl_Inr)
  have "\<exists>m. lib_msb lib w = Inr m" "\<exists>m. lib_lsb lib w = Inr m" if "w \<noteq> 0" for w
    using assms(1) that unfolding bit_scans_ok_def by blast+
  then show ?thesis
    by (auto simp: next_initialized_tick_src_def c source_of_map_def Let_def elib_def eok_def ebind_eq_ok
        split: prod.splits option.splits)
qed

lemma sample_lib_search: "lib_search_ok sample_lib"
proof -
  have "ebind (elib (lib_next_tick sample_lib b tick spacing lte)) (\<lambda>r. eok (Some r)) =
      next_initialized_tick_src sample_lib (source_of_map b t) tick spacing lte" if sp: "0 < spacing"
    for b t tick spacing lte
  proof -
    obtain r where r: "next_initialized_tick_src base_lib (source_of_map b Map.empty) tick spacing lte = Inr (Inr (Some r))"
      using next_tick_of_map_ok [OF base_lib_scans sp] by blast
    moreover have "next_initialized_tick_src sample_lib (source_of_map b t) tick spacing lte = Inr (Inr (Some r))"
      by (rule next_tick_of_map_cong [THEN trans, OF _ _ r]) (simp_all add: sample_lib_def)
    ultimately show ?thesis by (simp add: sample_lib_def elib_def eok_def)
  qed
  then show ?thesis by (simp add: lib_search_ok_def)
qed

section \<open>Properties\<close>

text \<open>C34. The bitmap search returns the nearest initialised tick in the searched word: at or below the
  current tick going down, strictly above it going up, with no initialised tick in between, and
  the word's edge, flagged uninitialised, when the word has none.\<close>
theorem next_tick_nearest:
  assumes "bit_scans_ok lib" "search_ok tick spacing"
    and "bitmap_word src ((if lte then tick div spacing else tick div spacing + 1) div 256) = Some w"
  shows "\<exists>k init. next_initialized_tick_src lib src tick spacing lte = eok (Some (k * spacing, init)) \<and>
    init = tick_bit src k \<and>
    (if lte
     then k \<le> tick div spacing \<and> k div 256 = tick div spacing div 256 \<and> (init \<or> k mod 256 = 0) \<and>
       (\<forall>j \<in> {k<..tick div spacing}. \<not> tick_bit src j)
     else tick div spacing < k \<and> k div 256 = (tick div spacing + 1) div 256 \<and> (init \<or> k mod 256 = 255) \<and>
       (\<forall>j \<in> {tick div spacing<..<k}. \<not> tick_bit src j))"
proof (cases lte)
  case True
  then show ?thesis using next_tick_lte [OF assms(1,2) refl, of src w] assms(3) by auto
next
  case False
  then show ?thesis using next_tick_gt [OF assms(1,2) refl, of src w] assms(3) by auto
qed

theorem next_tick_nearest_witness:
  "\<exists>k init. next_initialized_tick_src sample_lib (source_of_map [0 \<mapsto> 0b1010] Map.empty) 125 60 True
     = eok (Some (k * 60, init)) \<and> k \<le> 2"
proof -
  let ?src = "source_of_map [0 \<mapsto> 0b1010] Map.empty"
  have ok: "search_ok 125 60" by (simp add: search_ok_def MIN_TICK_def MAX_TICK_def)
  have w: "bitmap_word ?src ((if True then 125 div 60 else 125 div 60 + 1) div 256) = Some 0b1010"
    by (simp add: source_of_map_def)
  from next_tick_nearest [OF sample_lib_scans ok w] show ?thesis by fastforce
qed

text \<open>With a positive tick spacing a concentrated-liquidity quote never panics and always returns, and
  it is zero when the bitmap word the walk starts in was never hydrated.\<close>
lemma v3_quote_total:
  assumes "0 < spacing" "in_i32 tick"
  shows "\<exists>out. v3_get_amount_out_src lib amt zfo sp tick liq fee spacing src = Inr out \<and>
    (bitmap_word src (fst (position (if zfo then tick div spacing else wrap_i32 (tick div spacing + 1)))) \<noteq> None
      \<or> out = 0)"
proof -
  obtain out where out: "v3_get_amount_out_src lib amt zfo sp tick liq fee spacing src = Inr out"
    using v3_src_total [OF assms(1)] unfolding not_isl_Inr by blast
  then show ?thesis using unhydrated_quote_zero [OF assms, of src zfo lib amt sp liq fee]
    by (metis (full_types) sum.inject(2))
qed

theorem v3_quote_total_witness:
  "\<exists>out. v3_get_amount_out_src sample_lib 1000 True 5000000000 (- 61) 77 3000 60 (source_of_map Map.empty Map.empty) = Inr out"
  using v3_quote_total [of 60 "- 61" sample_lib 1000 True 5000000000 77 3000 "source_of_map Map.empty Map.empty"]
  by (auto simp: in_i32_def)


lemma sample_walk:
  "try_swap_src sample_lib 1000 True (2 ^ 96) 0 77 3000 60 \<lparr>bitmap_word = (\<lambda>w. Some 1), liquidity_net = (\<lambda>t. 0)\<rparr> = eok 77"
  by code_simp

lemma sample_lib_ticks: "ticks_in_range sample_lib"
  by (auto simp: ticks_in_range_def sample_lib_def base_lib_def clamp_tick_def MIN_TICK_def MAX_TICK_def)




end
