(* ===== verification/Slot_Layout.thy ===== *)
theory Slot_Layout
  imports V3_Math
begin

unbundle bit_operations_syntax

text \<open>
  Storage-layout discovery and packed-word decoding, \<^verbatim>\<open>src/ingest/slot_layout.rs\<close>.  The
  decoders are word functions.  Discovery matches view calls against storage words of one
  pinned block; the RPC provider is not part of the repository, so its answers at a block are
  the fields of the record \<open>chain_view\<close>, an argument of the discovery functions.  An
  answer is an error or a value, and \<open>?\<close> is \<open>ebind\<close>.
\<close>

section \<open>Decoders\<close>

definition decode_v2_packed :: "u256 \<Rightarrow> u128 \<times> u128" where
  "decode_v2_packed w =
     (let m = push_bit 112 1 - 1
      in (ucast (w AND m), ucast (drop_bit 112 w AND m)))"

definition decode_v3_slot0 :: "u256 \<Rightarrow> u256 \<times> int" where
  "decode_v3_slot0 w =
     (let mask160 = push_bit 160 1 - 1;
          sqrt = w AND mask160;
          raw = (ucast (drop_bit 160 w AND 0xFFFFFF) :: u32);
          tick = (if raw AND 0x800000 \<noteq> 0 then sint (raw OR 0xFF000000) else sint raw)
      in (sqrt, tick))"

definition decode_low128 :: "u256 \<Rightarrow> u128" where
  "decode_low128 w = ucast (w AND (push_bit 128 1 - 1))"

definition decode_shifted128 :: "u256 \<Rightarrow> u32 \<Rightarrow> u128" where
  "decode_shifted128 w shift = ucast (drop_bit (unat shift) w AND (push_bit 128 1 - 1))"

text \<open>\<open>(word >> 128).to::<u128>() as i128\<close>: the signed high half of a gross/net word.\<close>

definition high_i128 :: "u256 \<Rightarrow> int" where
  "high_i128 w = sint (ucast (drop_bit 128 w) :: u128)"

text \<open>\<open>keccak256(abi.encodePacked(int256(key), base))\<close>\<close>

definition mapping_slot_signed :: "(u8 list \<Rightarrow> b256) \<Rightarrow> int \<Rightarrow> u256 \<Rightarrow> u256" where
  "mapping_slot_signed keccak key base = keccak (be_bytes32 (word_of_int key) @ be_bytes32 base)"

definition probe_word_offsets :: "int list" where
  "probe_word_offsets = 0 # concat (map (\<lambda>d. [- d, d]) [1..32])"

definition lowest_set_bit :: "u256 \<Rightarrow> nat option" where
  "lowest_set_bit bits = find (bit bits) [0..<256]"

definition discover_algebra_fee_shift :: "u256 \<Rightarrow> u16 \<Rightarrow> u32 option" where
  "discover_algebra_fee_shift gs_word last_fee =
     (if last_fee = 0 then None
      else find (\<lambda>shift. drop_bit (unat shift) gs_word AND 0xffff = ucast last_fee)
             (184 # filter (\<lambda>s. s \<noteq> 184) (map (\<lambda>i. 160 + 8 * of_nat i) [0..<11])))"

section \<open>Layouts\<close>

datatype slot_layout =
    LV2Packed u64
  | LV2TwoSlots u64
  | LV3 (l_slot0: u64) (l_liquidity: u64) (l_ticks: u64) (l_bitmap: u64)
  | LAlgebra (l_state: u64) (l_liq_slot: u64) (l_liq_shift: u32) (l_tick_base: u64) (l_table: u64) (l_fee: "u32 option")

text \<open>
  Every call of one probe is pinned to one block.  The head may have moved between probes, so
  its answer depends on the pool probed and on the kind of probe.
\<close>

record 'e chain_view =
  cv_head :: "address \<Rightarrow> 'e + u64"
  cv_head_fee :: "address \<Rightarrow> 'e + u64"
  cv_storage :: "u64 \<Rightarrow> address \<Rightarrow> u256 \<Rightarrow> 'e + u256"
  cv_slot0 :: "u64 \<Rightarrow> address \<Rightarrow> 'e + (160 word \<times> int)"
  cv_liquidity :: "u64 \<Rightarrow> address \<Rightarrow> 'e + u128"
  cv_tick_bitmap :: "u64 \<Rightarrow> address \<Rightarrow> int \<Rightarrow> 'e + u256"
  cv_ticks :: "u64 \<Rightarrow> address \<Rightarrow> int \<Rightarrow> 'e + (u128 \<times> int)"
  cv_global_state :: "u64 \<Rightarrow> address \<Rightarrow> 'e + (160 word \<times> int \<times> u16)"
  cv_tick_table :: "u64 \<Rightarrow> address \<Rightarrow> int \<Rightarrow> 'e + u256"
  cv_alg_ticks :: "u64 \<Rightarrow> address \<Rightarrow> int \<Rightarrow> 'e + (u256 \<times> int)"
  cv_fee :: "u64 \<Rightarrow> address \<Rightarrow> 'e + u16"
  cv_reserves_v2 :: "u64 \<Rightarrow> address \<Rightarrow> 'e + (112 word \<times> 112 word)"
  cv_reserves_aero :: "u64 \<Rightarrow> address \<Rightarrow> 'e + (u256 \<times> u256)"

definition SCAN_SLOTS :: nat where
  "SCAN_SLOTS = 24"

definition DISCOVERY_SAMPLES :: nat where
  "DISCOVERY_SAMPLES = 3"

definition TICK_MAPPING_SCAN :: nat where
  "TICK_MAPPING_SCAN = 20"

definition algebra_liquidity_shifts :: "u32 list" where
  "algebra_liquidity_shifts = [0, 48]"

text \<open>\<open>iter().position(p)\<close>\<close>

fun first_index :: "('a \<Rightarrow> bool) \<Rightarrow> 'a list \<Rightarrow> nat option" where
  "first_index p [] = None"
| "first_index p (x # xs) = (if p x then Some 0 else map_option Suc (first_index p xs))"

fun windows2 :: "'a list \<Rightarrow> ('a \<times> 'a) list" where
  "windows2 (x # y # xs) = (x, y) # windows2 (y # xs)"
| "windows2 xs = []"

fun emap :: "('a \<Rightarrow> 'e + 'b) \<Rightarrow> 'a list \<Rightarrow> 'e + 'b list" where
  "emap f [] = Inr []"
| "emap f (x # xs) =
     (case f x of Inl e \<Rightarrow> Inl e
      | Inr y \<Rightarrow> (case emap f xs of Inl e \<Rightarrow> Inl e | Inr ys \<Rightarrow> Inr (y # ys)))"

definition read_slots :: "'e chain_view \<Rightarrow> address \<Rightarrow> nat list \<Rightarrow> u64 \<Rightarrow> 'e + u256 list" where
  "read_slots view addr slots block = emap (\<lambda>s. cv_storage view block addr (of_nat s)) slots"

text \<open>The outward scan for a word with an initialised tick; a word index past \<open>i16\<close> is skipped.\<close>

fun find_probe :: "(int \<Rightarrow> 'e + u256) \<Rightarrow> int \<Rightarrow> int list \<Rightarrow> 'e + (int \<times> nat \<times> u256) option" where
  "find_probe call center [] = Inr None"
| "find_probe call center (delta # rest) =
     (if \<not> in_i16 (center + delta) then find_probe call center rest
      else case call (center + delta) of
             Inl e \<Rightarrow> Inl e
           | Inr bits \<Rightarrow>
               (case lowest_set_bit bits of
                  Some b \<Rightarrow> Inr (Some (center + delta, b, bits))
                | None \<Rightarrow> find_probe call center rest))"

text \<open>The scan over candidate mapping bases: the first one the test accepts.\<close>

fun scan_bases :: "(nat \<Rightarrow> 'e + bool) \<Rightarrow> nat list \<Rightarrow> 'e + nat option" where
  "scan_bases test [] = Inr None"
| "scan_bases test (b # bs) =
     (case test b of Inl e \<Rightarrow> Inl e | Inr True \<Rightarrow> Inr (Some b) | Inr False \<Rightarrow> scan_bases test bs)"

definition storage_matches :: "'e + u256 \<Rightarrow> (u256 \<Rightarrow> bool) \<Rightarrow> 'e + bool" where
  "storage_matches r p = (case r of Inl e \<Rightarrow> Inl e | Inr w \<Rightarrow> Inr (p w))"

definition in_i24 :: "int \<Rightarrow> bool" where
  "in_i24 t \<longleftrightarrow> - (2 ^ 23) \<le> t \<and> t < 2 ^ 23"

definition pick_bases :: "nat option \<Rightarrow> nat option \<Rightarrow> (u64 \<times> u64) option" where
  "pick_bases t b =
     (case (t, b) of (Some t, Some b) \<Rightarrow> if t \<noteq> b then Some (of_nat t, of_nat b) else None | _ \<Rightarrow> None)"

definition discover_v3_tick_mapping ::
    "(u8 list \<Rightarrow> b256) \<Rightarrow> 'e chain_view \<Rightarrow> address \<Rightarrow> u64 \<Rightarrow> int \<Rightarrow> int \<Rightarrow> ('e, (u64 \<times> u64) option) eres" where
  "discover_v3_tick_mapping keccak view addr block current_tick tick_spacing =
     rbind (compress_tick current_tick tick_spacing) (\<lambda>c.
     ebind (elib (find_probe (cv_tick_bitmap view block addr) (wrap_i16 (c div 256)) probe_word_offsets)) (\<lambda>probe.
     case probe of None \<Rightarrow> eok None
     | Some (pword, b, real_bitmap) \<Rightarrow>
         let probe_tick = wrap_i32 ((pword * 256 + int b) * tick_spacing) in
         if \<not> in_i24 probe_tick then Inl ExpectFailed
         else ebind (elib (cv_ticks view block addr probe_tick)) (\<lambda>(real_gross, real_net).
           if real_gross = 0 then eok None
           else
             ebind (elib (scan_bases (\<lambda>base.
                 storage_matches (cv_storage view block addr (mapping_slot_signed keccak probe_tick (of_nat base)))
                   (\<lambda>word. decode_low128 word = real_gross \<and> high_i128 word = real_net)) [0..<TICK_MAPPING_SCAN])) (\<lambda>ticks_base.
             ebind (elib (scan_bases (\<lambda>base.
                 storage_matches (cv_storage view block addr (mapping_slot_signed keccak pword (of_nat base)))
                   (\<lambda>word. word = real_bitmap)) [0..<TICK_MAPPING_SCAN])) (\<lambda>bitmap_base.
             eok (pick_bases ticks_base bitmap_base))))))"

definition discover_algebra_tick_mapping ::
    "(u8 list \<Rightarrow> b256) \<Rightarrow> 'e chain_view \<Rightarrow> address \<Rightarrow> u64 \<Rightarrow> int \<Rightarrow> ('e, (u64 \<times> u64) option) eres" where
  "discover_algebra_tick_mapping keccak view addr block current_tick =
     ebind (elib (find_probe (cv_tick_table view block addr) (wrap_i16 (current_tick div 256)) probe_word_offsets)) (\<lambda>probe.
     case probe of None \<Rightarrow> eok None
     | Some (pword, b, real_table) \<Rightarrow>
         let probe_tick = wrap_i32 (pword * 256 + int b) in
         if \<not> in_i24 probe_tick then Inl ExpectFailed
         else ebind (elib (cv_alg_ticks view block addr probe_tick)) (\<lambda>(real_total, real_delta).
           if real_total = 0 then eok None
           else
             ebind (elib (scan_bases (\<lambda>base.
                 let slot0 = mapping_slot_signed keccak probe_tick (of_nat base) in
                 case cv_storage view block addr slot0 of
                   Inl e \<Rightarrow> Inl e
                 | Inr word0 \<Rightarrow>
                     if word0 \<noteq> real_total then Inr False
                     else storage_matches (cv_storage view block addr (slot0 + 1))
                            (\<lambda>word1. sint (decode_low128 word1) = real_delta)) [0..<TICK_MAPPING_SCAN])) (\<lambda>ticks_base.
             ebind (elib (scan_bases (\<lambda>base.
                 storage_matches (cv_storage view block addr (mapping_slot_signed keccak pword (of_nat base)))
                   (\<lambda>word. word = real_table)) [0..<TICK_MAPPING_SCAN])) (\<lambda>table_base.
             eok (pick_bases ticks_base table_base)))))"

text \<open>The first word, other than the state word, that holds the liquidity at a candidate shift.\<close>

fun liquidity_pick :: "u128 \<Rightarrow> nat option \<Rightarrow> nat \<Rightarrow> u256 list \<Rightarrow> (nat \<times> u32) option" where
  "liquidity_pick liq gs i [] = None"
| "liquidity_pick liq gs i (w # ws) =
     (if Some i = gs then liquidity_pick liq gs (Suc i) ws
      else case find (\<lambda>shift. decode_shifted128 w shift = liq) algebra_liquidity_shifts of
             Some shift \<Rightarrow> Some (i, shift)
           | None \<Rightarrow> liquidity_pick liq gs (Suc i) ws)"

definition discover_algebra ::
    "(u8 list \<Rightarrow> b256) \<Rightarrow> 'e chain_view \<Rightarrow> address \<Rightarrow> u256 list \<Rightarrow> u64 \<Rightarrow> ('e, slot_layout option) eres" where
  "discover_algebra keccak view addr words block =
     ebind (elib (cv_global_state view block addr)) (\<lambda>(price, tick, last_fee).
     ebind (elib (cv_liquidity view block addr)) (\<lambda>liq.
       let sqrt = (ucast price :: u256) in
       if sqrt = 0 \<or> liq = 0 then eok None
       else
         let global_state = first_index (\<lambda>w. decode_v3_slot0 w = (sqrt, tick)) words in
         case (global_state, liquidity_pick liq global_state 0 words) of
           (Some gs_slot, Some (liq_slot, liq_shift)) \<Rightarrow>
             ebind (discover_algebra_tick_mapping keccak view addr block tick) (\<lambda>m.
               case m of
                 None \<Rightarrow> eok None
               | Some (ticks, tick_table) \<Rightarrow>
                   eok (Some (LAlgebra (of_nat gs_slot) (of_nat liq_slot) liq_shift ticks tick_table
                     (discover_algebra_fee_shift (words ! gs_slot) last_fee))))
         | _ \<Rightarrow> eok None))"

definition discover_v3 ::
    "(u8 list \<Rightarrow> b256) \<Rightarrow> 'e chain_view \<Rightarrow> pool_meta \<Rightarrow> u256 list \<Rightarrow> u64 \<Rightarrow> ('e, slot_layout option) eres" where
  "discover_v3 keccak view meta words block =
     ebind (elib (cv_slot0 view block (pm_address meta))) (\<lambda>(price, tick).
     ebind (elib (cv_liquidity view block (pm_address meta))) (\<lambda>liq.
       let sqrt = (ucast price :: u256) in
       if sqrt = 0 \<or> liq = 0 then eok None
       else
         case (first_index (\<lambda>w. decode_v3_slot0 w = (sqrt, tick)) words, first_index (\<lambda>w. decode_low128 w = liq) words) of
           (Some s0, Some lq) \<Rightarrow>
             if s0 = lq then eok None
             else ebind (discover_v3_tick_mapping keccak view (pm_address meta) block tick (pm_tick_spacing meta)) (\<lambda>m.
               case m of
                 None \<Rightarrow> eok None
               | Some (ticks, tick_bitmap) \<Rightarrow> eok (Some (LV3 (of_nat s0) (of_nat lq) ticks tick_bitmap)))
         | _ \<Rightarrow> eok None))"

definition discover_one ::
    "(u8 list \<Rightarrow> b256) \<Rightarrow> 'e chain_view \<Rightarrow> pool_meta \<Rightarrow> ('e, slot_layout option) eres" where
  "discover_one keccak view meta =
     ebind (elib (cv_head view (pm_address meta))) (\<lambda>block.
     ebind (elib (read_slots view (pm_address meta) [0..<SCAN_SLOTS] block)) (\<lambda>words.
       if is_v3_family (pm_dex meta) then discover_v3 keccak view meta words block
       else if pm_dex meta = Algebra then discover_algebra keccak view (pm_address meta) words block
       else if pm_dex meta = UniV2Fork then
         ebind (elib (cv_reserves_v2 view block (pm_address meta))) (\<lambda>(reserve0, reserve1).
           let r0 = (ucast reserve0 :: u128); r1 = (ucast reserve1 :: u128) in
           if r0 = 0 then eok None
           else eok (map_option (\<lambda>s. LV2Packed (of_nat s)) (first_index (\<lambda>w. decode_v2_packed w = (r0, r1)) words)))
       else if pm_dex meta = AeroVolatile \<or> pm_dex meta = AeroStable then
         ebind (elib (cv_reserves_aero view block (pm_address meta))) (\<lambda>(reserve0, reserve1).
           if reserve0 = 0 then eok None
           else eok (map_option (\<lambda>s. LV2TwoSlots (of_nat s))
                  (first_index (\<lambda>(a, b). a = reserve0 \<and> b = reserve1) (windows2 words))))
       else eok None))"

text \<open>\<open>algebra_fee_word_trusted\<close>: the field of the state word equals the fee a swap is charged.\<close>

definition algebra_fee_word_trusted :: "'e chain_view \<Rightarrow> address \<Rightarrow> u64 \<Rightarrow> u32 \<Rightarrow> 'e + bool" where
  "algebra_fee_word_trusted view addr gs_slot shift =
     (case cv_head_fee view addr of Inl e \<Rightarrow> Inl e
      | Inr block \<Rightarrow> (case cv_storage view block addr (ucast gs_slot) of Inl e \<Rightarrow> Inl e
        | Inr word \<Rightarrow> (case cv_fee view block addr of Inl e \<Rightarrow> Inl e
          | Inr fee \<Rightarrow> Inr (drop_bit (unat shift) word AND 0xffff = ucast fee))))"

text \<open>
  \<open>discover_layouts\<close>: at most three sample pools per tag, in registration order; the first that
  yields a layout decides, a failed probe is skipped.  The tags are independent of each other,
  so the hash map's iteration order is not observable.
\<close>

definition layout_samples :: "pool_meta list \<Rightarrow> dex_tag \<Rightarrow> pool_meta list" where
  "layout_samples metas tag =
     take DISCOVERY_SAMPLES (filter (\<lambda>m. \<not> is_v4 (pm_dex m) \<and> pm_dex m = tag) metas)"

fun first_layout :: "(pool_meta \<Rightarrow> ('e, slot_layout option) eres) \<Rightarrow> pool_meta list \<Rightarrow> slot_layout option res" where
  "first_layout probe [] = Inr None"
| "first_layout probe (m # ms) =
     rbind (probe m) (\<lambda>r. case r of Inr (Some layout) \<Rightarrow> Inr (Some layout) | _ \<Rightarrow> first_layout probe ms)"

definition discover_layouts ::
    "(u8 list \<Rightarrow> b256) \<Rightarrow> 'e chain_view \<Rightarrow> engine \<Rightarrow> dex_tag \<Rightarrow> slot_layout option res" where
  "discover_layouts keccak view e tag = first_layout (discover_one keccak view) (layout_samples (eng_metas e) tag)"

section \<open>The decoders invert packing\<close>

text \<open>The layouts Solidity gives the two words, with whatever the remaining bits hold.\<close>

definition pack_v2 :: "112 word \<Rightarrow> 112 word \<Rightarrow> u32 \<Rightarrow> u256" where
  "pack_v2 r0 r1 ts = ucast r0 OR push_bit 112 (ucast r1) OR push_bit 224 (ucast ts)"

definition pack_slot0 :: "160 word \<Rightarrow> int \<Rightarrow> 72 word \<Rightarrow> u256" where
  "pack_slot0 price tick rest =
     ucast price OR push_bit 160 (ucast (word_of_int tick :: 24 word)) OR push_bit 184 (ucast rest)"

lemma low_mask_eq: "push_bit n (1 :: u256) - 1 = mask n"
  by (simp add: mask_eq_exp_minus_1 push_bit_eq_mult)

lemma decode_v2_pack: "decode_v2_packed (pack_v2 r0 r1 ts) = (ucast r0, ucast r1)"
proof -
  have "ucast (pack_v2 r0 r1 ts AND mask 112) = (ucast r0 :: u128)"
    by (rule bit_word_eqI) (auto simp: pack_v2_def bit_simps dest: bit_imp_le_length)
  moreover have "ucast (drop_bit 112 (pack_v2 r0 r1 ts) AND mask 112) = (ucast r1 :: u128)"
    by (rule bit_word_eqI) (auto simp: pack_v2_def bit_simps dest: bit_imp_le_length)
  ultimately show ?thesis unfolding decode_v2_packed_def Let_def low_mask_eq by simp
qed

text \<open>The masks make every conversion to a narrower type lossless, so the code's checked \<open>to\<close> never panics.\<close>

lemma masked_to_u128: "to_u128 (w AND (push_bit 128 1 - 1)) = Inr (ucast (w AND (push_bit 128 1 - 1)))"
proof -
  have "unat (w AND mask 128) < 2 ^ 128" using and_mask_less' [of 128 w] by (simp add: word_less_nat_alt)
  then show ?thesis unfolding to_u128_def low_mask_eq by (simp only: if_True)
qed

lemma bit_raw24: "bit (ucast (drop_bit 160 w AND 0xFFFFFF :: u256) :: u32) i \<longleftrightarrow> i < 24 \<and> bit w (160 + i)"
proof -
  have m: "(0xFFFFFF :: u256) = mask 24" by (simp add: mask_eq_exp_minus_1)
  show ?thesis unfolding m by (auto simp: bit_simps)
qed

lemma i24_of_raw: "snd (decode_v3_slot0 w) = sint (ucast (drop_bit 160 w) :: 24 word)"
proof -
  let ?raw = "ucast (drop_bit 160 w AND 0xFFFFFF) :: u32"
  let ?x = "ucast (drop_bit 160 w) :: 24 word"
  have hi: "bit (0x800000 :: u32) i \<longleftrightarrow> i = 23" for i
  proof -
    have "(0x800000 :: u32) = push_bit 23 1" by simp
    then show ?thesis by (simp only: bit_push_bit_iff bit_1_iff) auto
  qed
  have ext: "bit (0xFF000000 :: u32) i \<longleftrightarrow> 24 \<le> i \<and> i < 32" for i
  proof -
    have "(0xFF000000 :: u32) = push_bit 24 (mask 8)" by (simp add: mask_eq_exp_minus_1)
    then show ?thesis by (simp only: bit_push_bit_iff bit_mask_iff) (auto simp: possible_bit_def)
  qed
  have neg: "?raw AND 0x800000 \<noteq> 0 \<longleftrightarrow> bit w 183"
  proof
    assume "?raw AND 0x800000 \<noteq> 0"
    then obtain i where "bit (?raw AND 0x800000) i" by (metis bit_eq_iff bit_0_eq bot_apply bot_bool_def)
    then have "bit ?raw i" "i = 23" unfolding bit_and_iff hi by blast+
    then show "bit w 183" unfolding bit_raw24 by force
  next
    assume "bit w 183"
    then have "bit (?raw AND 0x800000) 23" by (simp add: hi bit_and_iff bit_raw24)
    then show "?raw AND 0x800000 \<noteq> 0" by (metis bit_0_eq bot_apply bot_bool_def)
  qed
  have "(if ?raw AND 0x800000 \<noteq> 0 then ?raw OR 0xFF000000 else ?raw) = scast ?x"
    unfolding neg
  proof (rule bit_word_eqI)
    fix i assume i: "i < LENGTH(32)"
    have "bit (scast ?x :: u32) i \<longleftrightarrow> bit ?x (min i 23)" using i by (simp add: bit_simps min_def)
    also have "\<dots> \<longleftrightarrow> bit w (160 + min i 23)"
      using min.cobounded2 [of i 23] by (auto simp: bit_simps simp del: min.cobounded2)
    also have "\<dots> \<longleftrightarrow> bit (if bit w 183 then ?raw OR 0xFF000000 else ?raw) i"
      using i unfolding if_distrib [of "\<lambda>x. bit x i"] bit_or_iff ext bit_raw24 by (auto simp: min_def)
    finally show "bit (if bit w 183 then ?raw OR 0xFF000000 else ?raw) i \<longleftrightarrow> bit (scast ?x :: u32) i" by simp
  qed
  then have "snd (decode_v3_slot0 w) = sint (scast ?x :: u32)"
    by (simp add: decode_v3_slot0_def Let_def split: if_splits)
  also have "\<dots> = sint ?x" by (simp add: sint_up_scast is_up)
  finally show ?thesis .
qed

lemma decode_slot0_pack:
  assumes "in_i24 tick"
  shows "decode_v3_slot0 (pack_slot0 price tick rest) = (ucast price, tick)"
proof -
  have p: "pack_slot0 price tick rest AND mask 160 = ucast price"
    by (rule bit_word_eqI) (auto simp: pack_slot0_def bit_simps dest: bit_imp_le_length)
  have "ucast (drop_bit 160 (pack_slot0 price tick rest)) = (word_of_int tick :: 24 word)"
    by (rule bit_word_eqI) (auto simp: pack_slot0_def bit_simps dest: bit_imp_le_length)
  then have "snd (decode_v3_slot0 (pack_slot0 price tick rest)) = sint (word_of_int tick :: 24 word)"
    by (simp add: i24_of_raw)
  also have "\<dots> = tick" using assms by (simp add: in_i24_def signed_of_int signed_take_bit_int_eq_self)
  finally have t: "snd (decode_v3_slot0 (pack_slot0 price tick rest)) = tick" .
  have "fst (decode_v3_slot0 (pack_slot0 price tick rest)) = ucast price"
    using p unfolding decode_v3_slot0_def Let_def low_mask_eq by simp
  then show ?thesis using t by (simp add: prod_eq_iff)
qed

lemma decode_low_pack: "decode_low128 (pack_slot0 price tick rest) = ucast price"
  unfolding decode_low128_def low_mask_eq
  by (rule bit_word_eqI) (auto simp: pack_slot0_def bit_simps dest: bit_imp_le_length)

lemma decode_slot0_range: "in_i24 (snd (decode_v3_slot0 w))"
  using sint_lt [of "ucast (drop_bit 160 w) :: 24 word"] sint_ge [of "ucast (drop_bit 160 w) :: 24 word"]
  by (simp add: i24_of_raw in_i24_def)

section \<open>What discovery guarantees\<close>

lemma first_index_Some: "first_index p xs = Some i \<Longrightarrow> i < length xs \<and> p (xs ! i) \<and> (\<forall>j < i. \<not> p (xs ! j))"
proof (induction xs arbitrary: i)
  case Nil
  then show ?case by simp
next
  case (Cons x xs)
  then show ?case by (cases i) (auto split: if_splits simp: nth_Cons' less_Suc_eq_0_disj)
qed

lemma emap_Inr_nth: "emap f xs = Inr ys \<Longrightarrow> length ys = length xs \<and> (\<forall>i < length xs. f (xs ! i) = Inr (ys ! i))"
proof (induction xs arbitrary: ys)
  case Nil
  then show ?case by simp
next
  case (Cons x xs)
  then show ?case by (auto split: sum.splits simp: nth_Cons' less_Suc_eq_0_disj)
qed

lemma find_probe_Some:
  "find_probe call c ds = Inr (Some (w, b, bits)) \<Longrightarrow> call w = Inr bits \<and> lowest_set_bit bits = Some b \<and> in_i16 w"
  by (induction ds) (auto split: if_splits sum.splits option.splits)

lemma scan_bases_Some: "scan_bases test bs = Inr (Some b) \<Longrightarrow> b \<in> set bs \<and> test b = Inr True"
  by (induction bs) (auto split: sum.splits bool.splits)

lemma storage_matches_True: "storage_matches r p = Inr True \<longleftrightarrow> (\<exists>w. r = Inr w \<and> p w)"
  by (simp add: storage_matches_def split: sum.splits)

lemma pick_bases_Some: "pick_bases t b = Some (x, y) \<longleftrightarrow> (\<exists>i j. t = Some i \<and> b = Some j \<and> i \<noteq> j \<and> x = of_nat i \<and> y = of_nat j)"
  by (auto simp: pick_bases_def split: option.splits if_splits)

text \<open>The two mapping bases are confirmed against a tick and a word the chain itself nominated.\<close>

definition mapping_confirmed ::
    "(u8 list \<Rightarrow> b256) \<Rightarrow> 'e chain_view \<Rightarrow> address \<Rightarrow> u64 \<Rightarrow> int \<Rightarrow> u64 \<Rightarrow> u64 \<Rightarrow> bool" where
  "mapping_confirmed keccak view addr block spacing ticks bitmap \<longleftrightarrow>
     (\<exists>pw b bits gross net word.
        cv_tick_bitmap view block addr pw = Inr bits \<and> lowest_set_bit bits = Some b \<and>
        cv_storage view block addr (mapping_slot_signed keccak pw (ucast bitmap)) = Inr bits \<and>
        cv_ticks view block addr (wrap_i32 ((pw * 256 + int b) * spacing)) = Inr (gross, net) \<and> gross \<noteq> 0 \<and>
        cv_storage view block addr
          (mapping_slot_signed keccak (wrap_i32 ((pw * 256 + int b) * spacing)) (ucast ticks)) = Inr word \<and>
        decode_low128 word = gross \<and> high_i128 word = net)"

lemma small_slot: "i < 2 ^ 64 \<Longrightarrow> (ucast (of_nat i :: u64) :: u256) = of_nat i"
  by (rule word_unat_eq_iff [THEN iffD2])
     (simp add: unsigned_ucast_eq unsigned_of_nat take_bit_nat_eq_self order_less_trans)

lemma v3_tick_mapping_sound:
  assumes "discover_v3_tick_mapping keccak view addr block tick spacing = Inr (Inr (Some (tk, bm)))"
  shows "mapping_confirmed keccak view addr block spacing tk bm \<and> tk \<noteq> bm"
proof -
  obtain c where c: "compress_tick tick spacing = Inr c"
    using assms by (auto simp: discover_v3_tick_mapping_def)
  obtain pw b bits where pr: "find_probe (cv_tick_bitmap view block addr) (wrap_i16 (c div 256)) probe_word_offsets
      = Inr (Some (pw, b, bits))"
    using assms c by (auto simp: discover_v3_tick_mapping_def ebind_eq_ok elib_def eok_def split: option.splits)
  define t where "t = wrap_i32 ((pw * 256 + int b) * spacing)"
  obtain g n where gn: "cv_ticks view block addr t = Inr (g, n)"
    using assms c pr by (auto simp: discover_v3_tick_mapping_def ebind_eq_ok elib_def eok_def Let_def t_def split: if_splits)
  have g: "g \<noteq> 0"
    using assms c pr gn
    by (auto simp: discover_v3_tick_mapping_def ebind_eq_ok elib_def eok_def Let_def t_def split: if_splits)
  obtain i j where ij: "scan_bases (\<lambda>base.
        storage_matches (cv_storage view block addr (mapping_slot_signed keccak t (of_nat base)))
          (\<lambda>word. decode_low128 word = g \<and> high_i128 word = n)) [0..<TICK_MAPPING_SCAN] = Inr i"
      "scan_bases (\<lambda>base.
        storage_matches (cv_storage view block addr (mapping_slot_signed keccak pw (of_nat base)))
          (\<lambda>word. word = bits)) [0..<TICK_MAPPING_SCAN] = Inr j"
      "pick_bases i j = Some (tk, bm)"
    using assms c pr gn g
    by (auto simp: discover_v3_tick_mapping_def ebind_eq_ok elib_def eok_def Let_def t_def split: if_splits)
  obtain x y where xy: "i = Some x" "j = Some y" "x \<noteq> y" "tk = of_nat x" "bm = of_nat y"
    using ij(3) by (auto simp: pick_bases_Some)
  note si = scan_bases_Some [OF ij(1) [unfolded xy]] scan_bases_Some [OF ij(2) [unfolded xy]]
  have lt: "x < 2 ^ 64" "y < 2 ^ 64" using si by (auto simp: TICK_MAPPING_SCAN_def)
  have "unat tk = x" "unat bm = y" using xy lt by (simp_all add: unat_of_nat_id)
  then have "tk \<noteq> bm" using xy(3) by auto
  moreover have "mapping_confirmed keccak view addr block spacing tk bm"
  proof -
    obtain w where w: "cv_storage view block addr (mapping_slot_signed keccak t (ucast tk)) = Inr w"
        "decode_low128 w = g" "high_i128 w = n"
      using si(1) xy lt by (auto simp: storage_matches_True small_slot)
    moreover have "cv_storage view block addr (mapping_slot_signed keccak pw (ucast bm)) = Inr bits"
      using si(2) xy lt by (auto simp: storage_matches_True small_slot)
    ultimately show ?thesis unfolding mapping_confirmed_def using find_probe_Some [OF pr] gn g
      by (intro exI [of _ pw] exI [of _ b] exI [of _ bits] exI [of _ g] exI [of _ n] exI [of _ w])
         (simp add: t_def [symmetric])
  qed
  ultimately show ?thesis by simp
qed

text \<open>The probe's words are the storage words of the first 24 slots.\<close>

lemma read_slots_nth:
  assumes "read_slots view addr [0..<SCAN_SLOTS] block = Inr words" "i < length words"
  shows "i < 24 \<and> cv_storage view block addr (of_nat i) = Inr (words ! i)"
  using emap_Inr_nth [of "\<lambda>s. cv_storage view block addr (of_nat s)" "[0..<SCAN_SLOTS]" words] assms
  by (simp add: read_slots_def SCAN_SLOTS_def)

definition v3_layout_confirmed ::
    "(u8 list \<Rightarrow> b256) \<Rightarrow> 'e chain_view \<Rightarrow> pool_meta \<Rightarrow> u64 \<Rightarrow> u64 \<Rightarrow> u64 \<Rightarrow> u64 \<Rightarrow> bool" where
  "v3_layout_confirmed keccak view meta s0 lq tk bm \<longleftrightarrow>
     (\<exists>block price tick liq w0 wl.
        cv_head view (pm_address meta) = Inr block \<and>
        cv_slot0 view block (pm_address meta) = Inr (price, tick) \<and>
        cv_liquidity view block (pm_address meta) = Inr liq \<and> price \<noteq> 0 \<and> liq \<noteq> 0 \<and>
        cv_storage view block (pm_address meta) (ucast s0) = Inr w0 \<and> decode_v3_slot0 w0 = (ucast price, tick) \<and>
        cv_storage view block (pm_address meta) (ucast lq) = Inr wl \<and> decode_low128 wl = liq \<and>
        s0 \<noteq> lq \<and> tk \<noteq> bm \<and>
        mapping_confirmed keccak view (pm_address meta) block (pm_tick_spacing meta) tk bm)"

lemma discover_v3_sound:
  assumes words: "read_slots view (pm_address meta) [0..<SCAN_SLOTS] block = Inr words"
    and head: "cv_head view (pm_address meta) = Inr block"
    and found: "discover_v3 keccak view meta words block = Inr (Inr (Some layout))"
  shows "\<exists>s0 lq tk bm. layout = LV3 s0 lq tk bm \<and> v3_layout_confirmed keccak view meta s0 lq tk bm"
proof -
  obtain price tick liq where v: "cv_slot0 view block (pm_address meta) = Inr (price, tick)"
      "cv_liquidity view block (pm_address meta) = Inr liq"
    using found by (auto simp: discover_v3_def ebind_eq_ok elib_def)
  have nz: "price \<noteq> 0" "liq \<noteq> 0"
    using found v by (auto simp: discover_v3_def elib_def eok_def)
  have "unat (ucast price :: u256) = unat price" by (rule unat_ucast_up) simp
  with nz have pz: "(ucast price :: u256) \<noteq> 0" by (metis unat_eq_zero)
  obtain i j where ij: "first_index (\<lambda>w. decode_v3_slot0 w = (ucast price, tick)) words = Some i"
      "first_index (\<lambda>w. decode_low128 w = liq) words = Some j" "i \<noteq> j"
    using found v nz pz by (auto simp: discover_v3_def elib_def eok_def Let_def split: option.splits if_splits)
  obtain tk bm where m: "discover_v3_tick_mapping keccak view (pm_address meta) block tick (pm_tick_spacing meta)
      = Inr (Inr (Some (tk, bm)))" "layout = LV3 (of_nat i) (of_nat j) tk bm"
    using found v nz pz ij
    by (auto simp: discover_v3_def elib_def eok_def Let_def ebind_eq_ok split: option.splits if_splits)
  note fi = first_index_Some [OF ij(1)] and fj = first_index_Some [OF ij(2)]
  note ri = read_slots_nth [OF words, of i] and rj = read_slots_nth [OF words, of j]
  have lt: "i < 2 ^ 64" "j < 2 ^ 64" using fi fj ri rj by auto
  have "unat (of_nat i :: u64) = i" "unat (of_nat j :: u64) = j" using lt by (simp_all add: unat_of_nat_id)
  then have ne: "(of_nat i :: u64) \<noteq> of_nat j" using ij(3) by metis
  have "v3_layout_confirmed keccak view meta (of_nat i) (of_nat j) tk bm"
    unfolding v3_layout_confirmed_def
    using head v nz fi fj ri rj lt ne v3_tick_mapping_sound [OF m(1)]
    by (intro exI [of _ block] exI [of _ price] exI [of _ tick] exI [of _ liq] exI [of _ "words ! i"] exI [of _ "words ! j"])
       (simp add: small_slot)
  then show ?thesis using m(2) by blast
qed

section \<open>Properties\<close>

text \<open>C37. Decoding inverts Solidity's packing: reserves come back from a V2 word whatever the timestamp, and
  price and signed tick come back from a slot0 word whatever the remaining 72 bits hold.\<close>
theorem slot_words_round_trip:
  "decode_v2_packed (pack_v2 r0 r1 ts) = (ucast r0, ucast r1) \<and>
   decode_v3_slot0 (pack_slot0 price (sint (tick :: 24 word)) rest) = (ucast price, sint tick)"
proof -
  have "in_i24 (sint tick)" using sint_lt [of tick] sint_ge [of tick] by (simp add: in_i24_def)
  then show ?thesis by (simp add: decode_v2_pack decode_slot0_pack)
qed

text \<open>C35. A layout discovered for a V3-family pool is confirmed by the chain: at the probed block the chosen
  slots decode to the pool's own price, tick and liquidity, and the two mapping bases reproduce the
  bitmap word and the tick the pool's view calls return.\<close>
theorem discovered_v3_layout_confirmed:
  assumes "is_v3_family (pm_dex meta)" "discover_one keccak view meta = Inr (Inr (Some layout))"
  shows "\<exists>s0 lq tk bm. layout = LV3 s0 lq tk bm \<and> v3_layout_confirmed keccak view meta s0 lq tk bm"
proof -
  obtain block words where b: "cv_head view (pm_address meta) = Inr block"
      "read_slots view (pm_address meta) [0..<SCAN_SLOTS] block = Inr words"
    and d: "discover_v3 keccak view meta words block = Inr (Inr (Some layout))"
    using assms by (auto simp: discover_one_def ebind_eq_ok elib_def)
  show ?thesis by (rule discover_v3_sound [OF b(2,1) d])
qed

definition sample_keccak :: "u8 list \<Rightarrow> b256" where
  "sample_keccak bs = 1000 + 256 * ucast (bs ! 31) + ucast (bs ! 63)"

definition sample_view :: "unit chain_view" where
  "sample_view =
     \<lparr>cv_head = (\<lambda>_. Inr 9), cv_head_fee = (\<lambda>_. Inr 9),
      cv_storage = (\<lambda>b a s. Inr (if s = 0 then pack_slot0 77 (- 5) 1 else if s = 4 then 9
                      else if s = 1005 then 3 + push_bit 128 4 else if s = 1006 then 1 else 0)),
      cv_slot0 = (\<lambda>b a. Inr (77, - 5)), cv_liquidity = (\<lambda>b a. Inr 9),
      cv_tick_bitmap = (\<lambda>b a w. Inr (if w = 0 then 1 else 0)), cv_ticks = (\<lambda>b a t. Inr (3, 4)),
      cv_global_state = (\<lambda>b a. Inl ()), cv_tick_table = (\<lambda>b a w. Inl ()), cv_alg_ticks = (\<lambda>b a t. Inl ()),
      cv_fee = (\<lambda>b a. Inl ()), cv_reserves_v2 = (\<lambda>b a. Inl ()), cv_reserves_aero = (\<lambda>b a. Inl ())\<rparr>"

definition sample_v3_meta :: pool_meta where
  "sample_v3_meta = (sample_meta 0 7)\<lparr>pm_dex := UniV3Fork, pm_tick_spacing := 1\<rparr>"

lemma sample_tick_mapping:
  "discover_v3_tick_mapping sample_keccak sample_view 7 9 (- 5) 1 = Inr (Inr (Some (5, 6)))"
proof -
  have c: "compress_tick (- 5) 1 = Inr (- 5)" "wrap_i16 (- 5 div 256) = - 1" "wrap_i32 ((0 * 256 + int 0) * 1) = 0"
      "in_i24 0" "cv_ticks sample_view 9 7 0 = Inr (3, 4)"
    by code_simp+
  have p: "find_probe (cv_tick_bitmap sample_view 9 7) (- 1) probe_word_offsets = Inr (Some (0, 0, 1))"
    by code_simp
  have s1: "scan_bases (\<lambda>base.
      storage_matches (cv_storage sample_view 9 7 (mapping_slot_signed sample_keccak 0 (of_nat base)))
        (\<lambda>word. decode_low128 word = 3 \<and> high_i128 word = 4)) [0..<TICK_MAPPING_SCAN] = Inr (Some 5)"
    by code_simp
  have s2: "scan_bases (\<lambda>base.
      storage_matches (cv_storage sample_view 9 7 (mapping_slot_signed sample_keccak 0 (of_nat base)))
        (\<lambda>word. word = 1)) [0..<TICK_MAPPING_SCAN] = Inr (Some 6)"
    by code_simp
  show ?thesis
    unfolding discover_v3_tick_mapping_def c rbind_Inr p elib_def ebind_simps option.case prod.case Let_def
    by (simp add: c(4) s1 s2 pick_bases_def eok_def)
qed

lemma sample_discover_v3:
  "discover_v3 sample_keccak sample_view sample_v3_meta (pack_slot0 77 (- 5) 1 # 0 # 0 # 0 # 9 # replicate 19 0) 9
    = Inr (Inr (Some (LV3 0 4 5 6)))"
proof -
  let ?words = "pack_slot0 77 (- 5) 1 # 0 # 0 # 0 # 9 # replicate 19 0"
  have "decode_low128 (pack_slot0 77 (- 5) 1) = ucast (77 :: 160 word)" by (rule decode_low_pack)
  moreover have "decode_low128 0 = 0" "decode_low128 9 = 9" by (simp_all add: decode_low128_def)
  ultimately have f: "first_index (\<lambda>w. decode_v3_slot0 w = (ucast (77 :: 160 word), - 5)) ?words = Some 0"
      "first_index (\<lambda>w. decode_low128 w = 9) ?words = Some 4"
    by (simp_all add: decode_slot0_pack in_i24_def)
  have v: "cv_slot0 sample_view 9 7 = Inr (77, - 5)" "cv_liquidity sample_view 9 7 = Inr 9"
      "pm_address sample_v3_meta = 7" "pm_tick_spacing sample_v3_meta = 1"
    by (simp_all add: sample_view_def sample_v3_meta_def sample_meta_def)
  show ?thesis
    unfolding discover_v3_def v elib_def ebind_simps prod.case Let_def f option.case sample_tick_mapping
    by (simp add: eok_def)
qed

theorem discovered_v3_layout_confirmed_witness:
  "discover_one sample_keccak sample_view sample_v3_meta = Inr (Inr (Some (LV3 0 4 5 6))) \<and>
   v3_layout_confirmed sample_keccak sample_view sample_v3_meta 0 4 5 6"
proof -
  have u: "[0..<24 :: nat] = [0, 1, 2, 3, 4, 5, 6, 7, 8, 9, 10, 11, 12, 13, 14, 15, 16, 17, 18, 19, 20, 21, 22, 23]"
    by code_simp
  have st: "cv_storage sample_view 9 7 s = Inr (if s = 0 then pack_slot0 77 (- 5) 1 else if s = 4 then 9
      else if s = 1005 then 3 + push_bit 128 4 else if s = 1006 then 1 else 0)" for s
    by (simp only: sample_view_def chain_view.simps)
  have "replicate 19 0 = [0, 0, 0, 0, 0, 0, 0, 0, 0, 0, 0, 0, 0, 0, 0, 0, 0, 0, 0 :: u256]" by code_simp
  then have r: "read_slots sample_view 7 [0..<SCAN_SLOTS] 9 = Inr (pack_slot0 77 (- 5) 1 # 0 # 0 # 0 # 9 # replicate 19 0)"
    by (simp add: read_slots_def SCAN_SLOTS_def u st)
  have v: "cv_head sample_view 7 = Inr 9" "pm_address sample_v3_meta = 7" "is_v3_family (pm_dex sample_v3_meta)"
    by (simp_all add: sample_view_def sample_v3_meta_def sample_meta_def is_v3_family_def)
  have d: "discover_one sample_keccak sample_view sample_v3_meta = Inr (Inr (Some (LV3 0 4 5 6)))"
    unfolding discover_one_def v elib_def ebind_simps r sample_discover_v3 using v(3) by simp
  from discovered_v3_layout_confirmed [OF v(3) d] d show ?thesis by auto
qed

end
