(* ===== verification/Route_Store.thy ===== *)
theory Route_Store
  imports Engine
begin

text \<open>
  The route store with its reverse index, \<^verbatim>\<open>src/routing/store.rs\<close>, and the interface its
  clients (the state's prefetch, the evaluator) rely on: the locale \<open>route_index\<close>, which the
  store's own operations interpret.
\<close>

record route_store =
  st_routes :: "route list"
  st_by_pool :: "u32 list list"

definition index_hop :: "u32 \<Rightarrow> u32 list list \<Rightarrow> hop \<Rightarrow> u32 list list" where
  "index_hop rid by_pool h =
     (let p = idx_get (hop_pool h)
      in if p < length by_pool then by_pool[p := by_pool ! p @ [rid]] else by_pool)"

definition index_route :: "u32 list list \<Rightarrow> route \<Rightarrow> u32 list list" where
  "index_route by_pool r = foldl (index_hop (rt_id r)) by_pool (rt_hops r)"

definition store_build :: "route list \<Rightarrow> nat \<Rightarrow> route_store" where
  "store_build routes pool_count =
     \<lparr>st_routes = routes, st_by_pool = foldl index_route (replicate pool_count []) routes\<rparr>"

definition routes_for_pool :: "route_store \<Rightarrow> pool_idx \<Rightarrow> u32 list" where
  "routes_for_pool s p = (case get (st_by_pool s) (idx_get p) of Some v \<Rightarrow> v | None \<Rightarrow> [])"

definition store_route :: "route_store \<Rightarrow> u32 \<Rightarrow> route res" where
  "store_route s rid = index (st_routes s) (unat rid)"

definition store_len :: "route_store \<Rightarrow> nat" where
  "store_len s = length (st_routes s)"

section \<open>What the index holds\<close>

text \<open>One entry per hop through the pool, in route order, so a route crossing it twice is listed twice.\<close>

definition crossings :: "nat \<Rightarrow> route \<Rightarrow> u32 list" where
  "crossings p r = map (\<lambda>_. rt_id r) (filter (\<lambda>h. idx_get (hop_pool h) = p) (rt_hops r))"

lemma length_index_hop [simp]: "length (index_hop rid b h) = length b"
  by (simp add: index_hop_def Let_def)

lemma index_hops_nth:
  "length (foldl (index_hop rid) b hs) = length b \<and>
   (p < length b \<longrightarrow>
    foldl (index_hop rid) b hs ! p = b ! p @ map (\<lambda>_. rid) (filter (\<lambda>h. idx_get (hop_pool h) = p) hs))"
proof (induction hs arbitrary: b)
  case Nil
  then show ?case by simp
next
  case (Cons h hs)
  have "index_hop rid b h ! p = (if idx_get (hop_pool h) = p then b ! p @ [rid] else b ! p)" if "p < length b"
    using that by (auto simp: index_hop_def Let_def)
  then show ?case using Cons.IH [of "index_hop rid b h"] by auto
qed

lemma index_routes_nth:
  "length (foldl index_route b rs) = length b \<and>
   (p < length b \<longrightarrow> foldl index_route b rs ! p = b ! p @ concat (map (crossings p) rs))"
proof (induction rs arbitrary: b)
  case Nil
  then show ?case by simp
next
  case (Cons r rs)
  have "length (index_route b r) = length b"
    "p < length b \<Longrightarrow> index_route b r ! p = b ! p @ crossings p r"
    using index_hops_nth [of "rt_id r" b "rt_hops r" p] by (auto simp: index_route_def crossings_def)
  then show ?case using Cons.IH [of "index_route b r"] by auto
qed

lemma routes_for_pool_build:
  "routes_for_pool (store_build rs n) p =
     (if idx_get p < n then concat (map (crossings (idx_get p)) rs) else [])"
  using index_routes_nth [of "replicate n []" rs "idx_get p"]
  by (auto simp: routes_for_pool_def store_build_def get_def)

section \<open>The interface\<close>

text \<open>
  A numbered universe: each route carries its own position as id, ids fit \<open>u32\<close>, and every hop
  names a registered pool.  Route building renumbers its result this way.
\<close>

definition numbered :: "route list \<Rightarrow> nat \<Rightarrow> bool" where
  "numbered rs n \<longleftrightarrow> length rs < 2 ^ 32 \<and> (\<forall>i < length rs. rt_id (rs ! i) = of_nat i) \<and>
     (\<forall>r \<in> set rs. \<forall>h \<in> set (rt_hops r). idx_get (hop_pool h) < n)"

locale route_index =
  fixes build :: "route list \<Rightarrow> nat \<Rightarrow> 's"
    and lookup :: "'s \<Rightarrow> pool_idx \<Rightarrow> u32 list"
    and route_at :: "'s \<Rightarrow> u32 \<Rightarrow> route res"
  assumes lookup_iff: "numbered rs n \<Longrightarrow>
      rid \<in> set (lookup (build rs n) p) \<longleftrightarrow> (\<exists>i < length rs. rid = of_nat i \<and> p \<in> hop_pool ` set (rt_hops (rs ! i)))"
    and route_at_build: "numbered rs n \<Longrightarrow> i < length rs \<Longrightarrow> route_at (build rs n) (of_nat i) = Inr (rs ! i)"
begin

text \<open>The candidates of a changed-pool set are exactly the routes touching it.\<close>

lemma candidates_iff:
  assumes "numbered rs n"
  shows "rid \<in> set (concat (map (lookup (build rs n)) ps)) \<longleftrightarrow>
    (\<exists>i < length rs. rid = of_nat i \<and> hop_pool ` set (rt_hops (rs ! i)) \<inter> set ps \<noteq> {})"
  using lookup_iff [OF assms] by fastforce

lemma candidate_route:
  assumes "numbered rs n" "rid \<in> set (lookup (build rs n) p)"
  shows "\<exists>r \<in> set rs. route_at (build rs n) rid = Inr r \<and> rt_id r = rid \<and> p \<in> hop_pool ` set (rt_hops r)"
proof -
  obtain i where i: "i < length rs" "rid = of_nat i" "p \<in> hop_pool ` set (rt_hops (rs ! i))"
    using assms lookup_iff by blast
  then have "rt_id (rs ! i) = rid" using assms(1) by (simp add: numbered_def)
  moreover have "route_at (build rs n) rid = Inr (rs ! i)" using route_at_build [OF assms(1) i(1)] i(2) by simp
  moreover have "rs ! i \<in> set rs" using i(1) by simp
  ultimately show ?thesis using i(3) by blast
qed

end

lemma crossings_iff: "rid \<in> set (crossings p r) \<longleftrightarrow> rid = rt_id r \<and> (\<exists>h \<in> set (rt_hops r). idx_get (hop_pool h) = p)"
  by (auto simp: crossings_def)

lemma idx_get_inj [simp]: "idx_get a = idx_get b \<longleftrightarrow> a = b"
  by (simp add: idx_get_def word_unat_eq_iff)

interpretation ri: route_index store_build routes_for_pool store_route
proof (unfold_locales, goal_cases)
  case (1 rs n rid p)
  have num: "rt_id (rs ! i) = of_nat i" if "i < length rs" for i using 1 that by (simp add: numbered_def)
  have rng: "idx_get (hop_pool h) < n" if "i < length rs" "h \<in> set (rt_hops (rs ! i))" for i h
    using 1 that by (auto simp: numbered_def)
  have "rid \<in> set (routes_for_pool (store_build rs n) p) \<longleftrightarrow>
      idx_get p < n \<and> (\<exists>r \<in> set rs. rid = rt_id r \<and> p \<in> hop_pool ` set (rt_hops r))"
    unfolding routes_for_pool_build by (auto simp: crossings_iff image_iff)
  moreover have "(\<exists>r \<in> set rs. P r) \<longleftrightarrow> (\<exists>i < length rs. P (rs ! i))" for P :: "route \<Rightarrow> bool"
    by (metis in_set_conv_nth)
  ultimately show ?case using num rng by auto
next
  case (2 rs n i)
  then have "unat (of_nat i :: u32) = i" by (intro unat_of_nat_u32) (auto simp: numbered_def)
  then show ?case using 2 by (simp add: store_route_def store_build_def)
qed

section \<open>Properties\<close>

text \<open>After building the store over renumbered routes, the reverse index of a pool lists exactly the
  routes with a hop through it, and every id it lists reads back a route that crosses the pool.\<close>
lemma reverse_index_exact:
  assumes "numbered rs n"
  shows "set (routes_for_pool (store_build rs n) p) =
      {of_nat i | i. i < length rs \<and> p \<in> hop_pool ` set (rt_hops (rs ! i))} \<and>
    (\<forall>rid \<in> set (routes_for_pool (store_build rs n) p).
       \<exists>r \<in> set rs. store_route (store_build rs n) rid = Inr r \<and> rt_id r = rid \<and> p \<in> hop_pool ` set (rt_hops r))"
  using ri.lookup_iff [OF assms] ri.candidate_route [OF assms] by blast

definition sample_route :: "nat \<Rightarrow> pool_idx list \<Rightarrow> route" where
  "sample_route i ps =
     \<lparr>rt_id = of_nat i, rt_anchor = 1, rt_hops = map (\<lambda>p. \<lparr>hop_pool = p, hop_zero_for_one = True, hop_token_in = 1\<rparr>) ps\<rparr>"

definition sample_store :: route_store where
  "sample_store = store_build [sample_route 0 [2, 3], sample_route 1 [4, 2]] 5"

lemma sample_store_numbered: "numbered [sample_route 0 [2, 3], sample_route 1 [4, 2]] 5"
  by (auto simp: numbered_def sample_route_def idx_get_def less_Suc_eq nth_Cons')

lemma reverse_index_exact_witness:
  "routes_for_pool sample_store 2 = [0, 1] \<and>
   (\<exists>r. store_route sample_store 1 = Inr r \<and> 2 \<in> hop_pool ` set (rt_hops r))"
proof
  show lst: "routes_for_pool sample_store 2 = [0, 1]" by code_simp
  have "1 \<in> set (routes_for_pool sample_store 2)" by (simp add: lst)
  then show "\<exists>r. store_route sample_store 1 = Inr r \<and> 2 \<in> hop_pool ` set (rt_hops r)"
    using reverse_index_exact [OF sample_store_numbered, of 2, THEN conjunct2] unfolding sample_store_def by blast
qed

end
