(* ===== verification/Chain_State.thy ===== *)
theory Chain_State
  imports Slot_Layout Route_Store
begin

unbundle bit_operations_syntax

text \<open>
  The state source of all quote math, \<^verbatim>\<open>src/state.rs\<close>: the per-block memo, the persistent
  tick cache, the per-pool read recipes, the prefetch operations that fill the two maps from
  storage reads, and the lazy tick reader.  An RPC read is a call of the function \<open>rpc\<close> the
  operation is given (one per batch of requests, since the chain moves between batches); a
  failed read leaves its slot unset.  Requests of one batch complete in any order in the code;
  the model takes the order of the request list, and \<open>prefetch_order\<close> shows that no order
  gives another state.
\<close>

definition V4_POOLS_SLOT :: u256 where
  "V4_POOLS_SLOT = 6"

definition V4_LIQUIDITY_OFFSET :: u256 where
  "V4_LIQUIDITY_OFFSET = 3"

definition V4_TICKS_OFFSET :: u256 where
  "V4_TICKS_OFFSET = 4"

definition V4_TICK_BITMAP_OFFSET :: u256 where
  "V4_TICK_BITMAP_OFFSET = 5"

definition v4_state_slot :: "(u8 list \<Rightarrow> b256) \<Rightarrow> b256 \<Rightarrow> u256" where
  "v4_state_slot keccak pool_id = keccak (be_bytes32 pool_id @ be_bytes32 V4_POOLS_SLOT)"

section \<open>Read recipes\<close>

datatype tick_codec = PackedCodec | TwoWordCodec

datatype cl_fee = FeeMeta | FeeWord u32

record cl_plan =
  cl_addr :: address
  cl_slot0 :: u256
  cl_liquidity :: u256
  cl_liq_shift :: u32
  cl_ticks_base :: u256
  cl_bitmap_base :: u256
  cl_codec :: tick_codec
  cl_fee_src :: cl_fee

datatype slot_plan =
    PV2Packed address u256
  | PV2TwoSlot address u256
  | PCl cl_plan

type_synonym slot_key = "address \<times> u256"

record chain_state =
  cs_tip :: u64
  cs_memo :: "slot_key \<rightharpoonup> u256"
  cs_ticks :: "slot_key \<rightharpoonup> u256"
  cs_plans :: "slot_plan option list"
  cs_n_rpc :: u64
  cs_n_memo :: u64

definition state_new :: "u64 \<Rightarrow> chain_state" where
  "state_new tip =
     \<lparr>cs_tip = tip, cs_memo = Map.empty, cs_ticks = Map.empty, cs_plans = [], cs_n_rpc = 0, cs_n_memo = 0\<rparr>"

definition set_plans :: "slot_plan option list \<Rightarrow> chain_state \<Rightarrow> chain_state" where
  "set_plans plans s = s\<lparr>cs_plans := plans\<rparr>"

definition cs_plan :: "chain_state \<Rightarrow> pool_idx \<Rightarrow> slot_plan option" where
  "cs_plan s i = (case get (cs_plans s) (idx_get i) of Some p \<Rightarrow> p | None \<Rightarrow> None)"

text \<open>
  The quote-path read: memo, then tick cache, then zero.  \<open>cs_read\<close> is its value;
  \<open>cs_read_counted\<close> is the whole operation with the hit counter, which nothing but the
  statistics reads, so the quote functions use the value.
\<close>

definition cs_read :: "chain_state \<Rightarrow> address \<Rightarrow> u256 \<Rightarrow> u256" where
  "cs_read s addr slot =
     (case cs_memo s (addr, slot) of
        Some v \<Rightarrow> v
      | None \<Rightarrow> (case cs_ticks s (addr, slot) of Some v \<Rightarrow> v | None \<Rightarrow> 0))"

definition cs_read_counted :: "address \<Rightarrow> u256 \<Rightarrow> chain_state \<Rightarrow> u256 \<times> chain_state" where
  "cs_read_counted addr slot s =
     (case cs_memo s (addr, slot) of
        Some v \<Rightarrow> (v, s\<lparr>cs_n_memo := cs_n_memo s + 1\<rparr>)
      | None \<Rightarrow> (case cs_ticks s (addr, slot) of
                  Some v \<Rightarrow> (v, s\<lparr>cs_n_memo := cs_n_memo s + 1\<rparr>)
                | None \<Rightarrow> (0, s)))"

definition read_tick_cache_checked :: "chain_state \<Rightarrow> address \<Rightarrow> u256 \<Rightarrow> u256 option" where
  "read_tick_cache_checked s addr slot = cs_ticks s (addr, slot)"

definition read_counters :: "chain_state \<Rightarrow> u64 \<times> u64" where
  "read_counters s = (cs_n_rpc s, cs_n_memo s)"

section \<open>Fetching\<close>

type_synonym 'e storage_rpc = "address \<Rightarrow> u256 \<Rightarrow> 'e + u256"

definition fetch_one :: "'e storage_rpc \<Rightarrow> bool \<Rightarrow> chain_state \<Rightarrow> slot_key \<Rightarrow> chain_state" where
  "fetch_one rpc into_ticks s k =
     (case rpc (fst k) (snd k) of
        Inr v \<Rightarrow>
          let s1 = s\<lparr>cs_n_rpc := cs_n_rpc s + 1\<rparr>
          in if into_ticks then s1\<lparr>cs_ticks := (cs_ticks s1)(k \<mapsto> v)\<rparr>
             else s1\<lparr>cs_memo := (cs_memo s1)(k \<mapsto> v)\<rparr>
      | Inl e \<Rightarrow> s)"

definition prefetch_into :: "'e storage_rpc \<Rightarrow> bool \<Rightarrow> slot_key list \<Rightarrow> chain_state \<Rightarrow> chain_state" where
  "prefetch_into rpc into_ticks pairs s = foldl (fetch_one rpc into_ticks) s pairs"

definition prefetch :: "'e storage_rpc \<Rightarrow> slot_key list \<Rightarrow> chain_state \<Rightarrow> chain_state" where
  "prefetch rpc pairs s = prefetch_into rpc False pairs s"

definition prefetch_ticks :: "'e storage_rpc \<Rightarrow> slot_key list \<Rightarrow> chain_state \<Rightarrow> chain_state" where
  "prefetch_ticks rpc pairs s = prefetch_into rpc True pairs s"

definition plan_slots :: "slot_plan \<Rightarrow> slot_key list" where
  "plan_slots plan =
     (case plan of
        PV2Packed addr slot \<Rightarrow> [(addr, slot)]
      | PV2TwoSlot addr r0 \<Rightarrow> [(addr, r0), (addr, r0 + 1)]
      | PCl c \<Rightarrow> [(cl_addr c, cl_slot0 c), (cl_addr c, cl_liquidity c)])"

definition pool_slots :: "chain_state \<Rightarrow> pool_idx \<Rightarrow> slot_key list" where
  "pool_slots s i = (case cs_plan s i of Some plan \<Rightarrow> plan_slots plan | None \<Rightarrow> [])"

definition prefetch_all :: "'e storage_rpc \<Rightarrow> engine \<Rightarrow> chain_state \<Rightarrow> chain_state" where
  "prefetch_all rpc e s = prefetch rpc (concat (map (\<lambda>m. pool_slots s (pm_idx m)) (eng_metas e))) s"

text \<open>
  Every pool on a route through a dirty pool.  The code collects a hash set; only its elements
  matter, so the model keeps the list without repetitions.
\<close>

definition neighborhood :: "route_store \<Rightarrow> pool_idx list \<Rightarrow> pool_idx list res" where
  "neighborhood store dirty =
     rbind (rmap (store_route store) (concat (map (routes_for_pool store) dirty))) (\<lambda>routes.
       Inr (remdups (dirty @ concat (map (\<lambda>r. map hop_pool (rt_hops r)) routes))))"

definition prefetch_neighborhood ::
    "'e storage_rpc \<Rightarrow> route_store \<Rightarrow> pool_idx list \<Rightarrow> chain_state \<Rightarrow> chain_state res" where
  "prefetch_neighborhood rpc store dirty s =
     rbind (neighborhood store dirty) (\<lambda>pools.
       let slots = concat (map (pool_slots s) pools)
       in Inr (if slots \<noteq> [] then prefetch rpc slots s else s))"

definition advance_to :: "u64 \<Rightarrow> chain_state \<Rightarrow> chain_state" where
  "advance_to tip s = s\<lparr>cs_memo := Map.empty, cs_tip := tip\<rparr>"

definition advance_and_prefetch ::
    "'e storage_rpc \<Rightarrow> route_store \<Rightarrow> u64 \<Rightarrow> pool_idx list \<Rightarrow> chain_state \<Rightarrow> chain_state res" where
  "advance_and_prefetch rpc store tip dirty s = prefetch_neighborhood rpc store dirty (advance_to tip s)"

section \<open>Tick windows\<close>

definition BOOTSTRAP_TICK_WORD_RANGE :: int where
  "BOOTSTRAP_TICK_WORD_RANGE = 64"

definition PATCH_WORD_RANGE :: int where
  "PATCH_WORD_RANGE = 1"

definition sat_i16 :: "int \<Rightarrow> int" where
  "sat_i16 x = max (- (2 ^ 15)) (min (2 ^ 15 - 1) x)"

record tick_window =
  tw_addr :: address
  tw_ticks_base :: u256
  tw_bitmap_base :: u256
  tw_spacing :: int
  tw_lo :: int
  tw_hi :: int

definition window_of :: "chain_state \<Rightarrow> int \<Rightarrow> slot_plan \<times> int \<Rightarrow> tick_window option res" where
  "window_of s word_range p =
     (case p of
        (PCl c, tick_spacing) \<Rightarrow>
          (if cl_codec c \<noteq> PackedCodec then Inr None
           else
             let tick = snd (decode_v3_slot0 (cs_read s (cl_addr c) (cl_slot0 c)));
                 spacing = max tick_spacing 1
             in rbind (compress_tick tick spacing) (\<lambda>compressed.
                  let center = wrap_i16 (compressed div 256)
                  in Inr (Some \<lparr>tw_addr = cl_addr c, tw_ticks_base = cl_ticks_base c,
                       tw_bitmap_base = cl_bitmap_base c, tw_spacing = spacing,
                       tw_lo = sat_i16 (center - word_range), tw_hi = sat_i16 (center + word_range)\<rparr>)))
      | _ \<Rightarrow> Inr None)"

definition window_bitmap_slots :: "(u8 list \<Rightarrow> b256) \<Rightarrow> tick_window \<Rightarrow> slot_key list" where
  "window_bitmap_slots keccak w =
     map (\<lambda>i. (tw_addr w, mapping_slot_signed keccak i (tw_bitmap_base w))) [tw_lo w..tw_hi w]"

text \<open>The net-liquidity slots of the ticks initialised in bitmap word \<open>i\<close>.\<close>

definition word_tick_slots ::
    "(u8 list \<Rightarrow> b256) \<Rightarrow> chain_state \<Rightarrow> address \<Rightarrow> u256 \<Rightarrow> u256 \<Rightarrow> int \<Rightarrow> int \<Rightarrow> slot_key list" where
  "word_tick_slots keccak s addr ticks_base bitmap_base spacing i =
     (let bits = cs_read s addr (mapping_slot_signed keccak i bitmap_base)
      in if bits = 0 then []
         else map (\<lambda>b. (addr, mapping_slot_signed keccak (wrap_i32 ((i * 256 + int b) * spacing)) ticks_base))
                (filter (bit bits) [0..<256]))"

definition window_tick_slots :: "(u8 list \<Rightarrow> b256) \<Rightarrow> chain_state \<Rightarrow> tick_window \<Rightarrow> slot_key list" where
  "window_tick_slots keccak s w =
     concat (map (word_tick_slots keccak s (tw_addr w) (tw_ticks_base w) (tw_bitmap_base w) (tw_spacing w))
       [tw_lo w..tw_hi w])"

definition prefetch_cl_tick_windows ::
    "(u8 list \<Rightarrow> b256) \<Rightarrow> 'e storage_rpc \<Rightarrow> 'e storage_rpc \<Rightarrow> (slot_plan \<times> int) list \<Rightarrow> int
      \<Rightarrow> chain_state \<Rightarrow> chain_state res" where
  "prefetch_cl_tick_windows keccak rpc1 rpc2 plans word_range s =
     rbind (rmap (window_of s word_range) plans) (\<lambda>ws.
       let windows = concat (map (\<lambda>w. case w of None \<Rightarrow> [] | Some x \<Rightarrow> [x]) ws);
           bitmap_slots = concat (map (window_bitmap_slots keccak) windows)
       in if bitmap_slots = [] then Inr s
          else
            let s1 = prefetch_ticks rpc1 bitmap_slots s;
                tick_slots = concat (map (window_tick_slots keccak s1) windows)
            in Inr (if tick_slots \<noteq> [] then prefetch_ticks rpc2 tick_slots s1 else s1))"

definition cl_plans_of :: "engine \<Rightarrow> chain_state \<Rightarrow> (slot_plan \<times> int) list" where
  "cl_plans_of e s =
     concat (map (\<lambda>m. case cs_plan s (pm_idx m) of Some (PCl c) \<Rightarrow> [(PCl c, pm_tick_spacing m)] | _ \<Rightarrow> [])
       (eng_metas e))"

definition hydrate_all_ticks ::
    "(u8 list \<Rightarrow> b256) \<Rightarrow> 'e storage_rpc \<Rightarrow> 'e storage_rpc \<Rightarrow> engine \<Rightarrow> chain_state \<Rightarrow> chain_state res" where
  "hydrate_all_ticks keccak rpc1 rpc2 e s =
     prefetch_cl_tick_windows keccak rpc1 rpc2 (cl_plans_of e s) BOOTSTRAP_TICK_WORD_RANGE s"

definition hydrate_cl_ticks_for_pool ::
    "(u8 list \<Rightarrow> b256) \<Rightarrow> 'e storage_rpc \<Rightarrow> 'e storage_rpc \<Rightarrow> slot_plan \<Rightarrow> int \<Rightarrow> chain_state \<Rightarrow> chain_state res" where
  "hydrate_cl_ticks_for_pool keccak rpc1 rpc2 plan tick_spacing s =
     prefetch_cl_tick_windows keccak rpc1 rpc2 [(plan, tick_spacing)] BOOTSTRAP_TICK_WORD_RANGE s"

definition patch_words :: "int \<Rightarrow> int \<Rightarrow> int list res" where
  "patch_words spacing t =
     rbind (compress_tick t spacing) (\<lambda>compressed.
       let word = wrap_i16 (compressed div 256)
       in Inr [sat_i16 (word - PATCH_WORD_RANGE)..sat_i16 (word + PATCH_WORD_RANGE)])"

definition patch_cl_ticks ::
    "(u8 list \<Rightarrow> b256) \<Rightarrow> 'e storage_rpc \<Rightarrow> 'e storage_rpc \<Rightarrow> address \<Rightarrow> u256 \<Rightarrow> u256 \<Rightarrow> int \<Rightarrow> int list
      \<Rightarrow> chain_state \<Rightarrow> chain_state res" where
  "patch_cl_ticks keccak rpc1 rpc2 addr ticks_base bitmap_base tick_spacing ticks s =
     (if ticks = [] then Inr s
      else
        let spacing = max tick_spacing 1 in
        rbind (rmap (patch_words spacing) ticks) (\<lambda>wss.
          let words = concat wss;
              s1 = prefetch_ticks rpc1 (map (\<lambda>w. (addr, mapping_slot_signed keccak w bitmap_base)) words) s;
              tick_slots = map (\<lambda>t. (addr, mapping_slot_signed keccak t ticks_base)) ticks @
                concat (map (word_tick_slots keccak s1 addr ticks_base bitmap_base spacing) words)
          in Inr (prefetch_ticks rpc2 tick_slots s1)))"

section \<open>The lazy tick reader\<close>

text \<open>
  \<open>ClTickReader\<close> borrows the state and keeps the last bitmap word it read.  A probe returns the
  word and the updated one-word cache; an unhydrated word leaves the cache as it was.
\<close>

record cl_tick_reader =
  tr_addr :: address
  tr_ticks_base :: u256
  tr_bitmap_base :: u256
  tr_codec :: tick_codec

type_synonym last_word = "(int \<times> u256) option"

definition reader_of :: "cl_plan \<Rightarrow> cl_tick_reader" where
  "reader_of c =
     \<lparr>tr_addr = cl_addr c, tr_ticks_base = cl_ticks_base c, tr_bitmap_base = cl_bitmap_base c, tr_codec = cl_codec c\<rparr>"

definition reader_bitmap_word ::
    "(u8 list \<Rightarrow> b256) \<Rightarrow> chain_state \<Rightarrow> cl_tick_reader \<Rightarrow> int \<Rightarrow> last_word \<Rightarrow> u256 option \<times> last_word" where
  "reader_bitmap_word keccak s r word lw =
     (let fresh =
            (case read_tick_cache_checked s (tr_addr r) (mapping_slot_signed keccak word (tr_bitmap_base r)) of
               None \<Rightarrow> (None, lw)
             | Some bits \<Rightarrow> (Some bits, Some (word, bits)))
      in case lw of
           Some (w, bits) \<Rightarrow> if w = word then (Some bits, lw) else fresh
         | None \<Rightarrow> fresh)"

definition reader_liquidity_net :: "(u8 list \<Rightarrow> b256) \<Rightarrow> chain_state \<Rightarrow> cl_tick_reader \<Rightarrow> int \<Rightarrow> int" where
  "reader_liquidity_net keccak s r tick =
     (let slot0 = mapping_slot_signed keccak tick (tr_ticks_base r)
      in case tr_codec r of
           PackedCodec \<Rightarrow> high_i128 (cs_read s (tr_addr r) slot0)
         | TwoWordCodec \<Rightarrow> sint (decode_low128 (cs_read s (tr_addr r) (slot0 + 1))))"

text \<open>The reader as the tick source of the walk; \<open>reader_probes_uncached\<close> justifies leaving the cache out.\<close>

definition cl_source :: "(u8 list \<Rightarrow> b256) \<Rightarrow> chain_state \<Rightarrow> cl_tick_reader \<Rightarrow> tick_source" where
  "cl_source keccak s r =
     \<lparr>bitmap_word = (\<lambda>w. read_tick_cache_checked s (tr_addr r) (mapping_slot_signed keccak w (tr_bitmap_base r))),
      liquidity_net = reader_liquidity_net keccak s r\<rparr>"

fun reader_probes ::
    "(u8 list \<Rightarrow> b256) \<Rightarrow> chain_state \<Rightarrow> cl_tick_reader \<Rightarrow> last_word \<Rightarrow> int list \<Rightarrow> u256 option list" where
  "reader_probes keccak s r lw [] = []"
| "reader_probes keccak s r lw (w # ws) =
     (let (res, lw2) = reader_bitmap_word keccak s r w lw in res # reader_probes keccak s r lw2 ws)"

section \<open>The resync loop\<close>

text \<open>
  \<open>run_tick_resync_loop\<close> as a machine over what its receive yields: a pool index, the elapsed
  batch window, or the closed channel.  With nothing pending it waits without a timeout, so a
  window event then does nothing.  The pending set is kept as a list without repetitions.  A
  flush re-hydrates each pending pool that has a plan; \<open>rpcs\<close> gives each pool's two batches.
\<close>

datatype resync_event = Arrived pool_idx | WindowElapsed | ChannelClosed

record resync =
  rs_pending :: "pool_idx list"
  rs_state :: chain_state
  rs_running :: bool

definition resync_pool ::
    "(u8 list \<Rightarrow> b256) \<Rightarrow> (pool_idx \<Rightarrow> 'e storage_rpc \<times> 'e storage_rpc) \<Rightarrow> engine \<Rightarrow> pool_idx
      \<Rightarrow> chain_state \<Rightarrow> chain_state res" where
  "resync_pool keccak rpcs e i s =
     (case cs_plan s i of
        None \<Rightarrow> Inr s
      | Some plan \<Rightarrow>
          rbind (eng_meta e i) (\<lambda>m.
            hydrate_cl_ticks_for_pool keccak (fst (rpcs i)) (snd (rpcs i)) plan (pm_tick_spacing m) s))"

fun resync_flush ::
    "(u8 list \<Rightarrow> b256) \<Rightarrow> (pool_idx \<Rightarrow> 'e storage_rpc \<times> 'e storage_rpc) \<Rightarrow> engine \<Rightarrow> pool_idx list
      \<Rightarrow> chain_state \<Rightarrow> chain_state res" where
  "resync_flush keccak rpcs e [] s = Inr s"
| "resync_flush keccak rpcs e (i # is) s =
     rbind (resync_pool keccak rpcs e i s) (resync_flush keccak rpcs e is)"

definition resync_step ::
    "(u8 list \<Rightarrow> b256) \<Rightarrow> (pool_idx \<Rightarrow> 'e storage_rpc \<times> 'e storage_rpc) \<Rightarrow> engine \<Rightarrow> resync \<Rightarrow> resync_event \<Rightarrow> resync res" where
  "resync_step keccak rpcs e m ev =
     (if \<not> rs_running m then Inr m
      else case ev of
        Arrived i \<Rightarrow> Inr (m\<lparr>rs_pending := List.insert i (rs_pending m)\<rparr>)
      | WindowElapsed \<Rightarrow>
          if rs_pending m = [] then Inr m
          else rbind (resync_flush keccak rpcs e (rs_pending m) (rs_state m)) (\<lambda>s. Inr (m\<lparr>rs_pending := [], rs_state := s\<rparr>))
      | ChannelClosed \<Rightarrow>
          if rs_pending m = [] then Inr (m\<lparr>rs_running := False\<rparr>)
          else rbind (resync_flush keccak rpcs e (rs_pending m) (rs_state m)) (\<lambda>s.
            Inr (m\<lparr>rs_pending := [], rs_state := s, rs_running := False\<rparr>)))"

fun resync_run ::
    "(u8 list \<Rightarrow> b256) \<Rightarrow> (pool_idx \<Rightarrow> 'e storage_rpc \<times> 'e storage_rpc) \<Rightarrow> engine \<Rightarrow> resync_event list \<Rightarrow> resync \<Rightarrow> resync res" where
  "resync_run keccak rpcs e [] m = Inr m"
| "resync_run keccak rpcs e (ev # evs) m = rbind (resync_step keccak rpcs e m ev) (resync_run keccak rpcs e evs)"

section \<open>Building the recipes\<close>

definition algebra_fee_src :: "'e chain_view \<Rightarrow> address \<Rightarrow> u64 \<Rightarrow> u32 option \<Rightarrow> cl_fee" where
  "algebra_fee_src view addr gs fee_shift =
     (case fee_shift of
        None \<Rightarrow> FeeMeta
      | Some shift \<Rightarrow> (case algebra_fee_word_trusted view addr gs shift of Inr True \<Rightarrow> FeeWord shift | _ \<Rightarrow> FeeMeta))"

definition build_slot_plan ::
    "(u8 list \<Rightarrow> b256) \<Rightarrow> 'e chain_view \<Rightarrow> (dex_tag \<rightharpoonup> slot_layout) \<Rightarrow> pool_meta \<Rightarrow> slot_plan option" where
  "build_slot_plan keccak view layouts m =
     (case pm_v4 m of
        Some v4 \<Rightarrow>
          let state_slot = v4_state_slot keccak (v4_pool_id v4)
          in Some (PCl \<lparr>cl_addr = UNIV4_POOL_MANAGER, cl_slot0 = state_slot,
               cl_liquidity = state_slot + V4_LIQUIDITY_OFFSET, cl_liq_shift = 0,
               cl_ticks_base = state_slot + V4_TICKS_OFFSET, cl_bitmap_base = state_slot + V4_TICK_BITMAP_OFFSET,
               cl_codec = PackedCodec, cl_fee_src = FeeMeta\<rparr>)
      | None \<Rightarrow>
          (case layouts (pm_dex m) of
             Some (LV2Packed slot) \<Rightarrow> Some (PV2Packed (pm_address m) (ucast slot))
           | Some (LV2TwoSlots slot_r0) \<Rightarrow> Some (PV2TwoSlot (pm_address m) (ucast slot_r0))
           | Some (LV3 slot0 liquidity ticks tick_bitmap) \<Rightarrow>
               Some (PCl \<lparr>cl_addr = pm_address m, cl_slot0 = ucast slot0, cl_liquidity = ucast liquidity,
                 cl_liq_shift = 0, cl_ticks_base = ucast ticks, cl_bitmap_base = ucast tick_bitmap,
                 cl_codec = PackedCodec, cl_fee_src = FeeMeta\<rparr>)
           | Some (LAlgebra global_state liquidity_slot liquidity_shift ticks tick_table fee_shift) \<Rightarrow>
               Some (PCl \<lparr>cl_addr = pm_address m, cl_slot0 = ucast global_state,
                 cl_liquidity = ucast liquidity_slot, cl_liq_shift = liquidity_shift,
                 cl_ticks_base = ucast ticks, cl_bitmap_base = ucast tick_table, cl_codec = TwoWordCodec,
                 cl_fee_src = algebra_fee_src view (pm_address m) global_state fee_shift\<rparr>)
           | None \<Rightarrow> None))"

definition build_slot_plans ::
    "(u8 list \<Rightarrow> b256) \<Rightarrow> 'e chain_view \<Rightarrow> engine \<Rightarrow> (dex_tag \<rightharpoonup> slot_layout) \<Rightarrow> slot_plan option list" where
  "build_slot_plans keccak view e layouts = map (build_slot_plan keccak view layouts) (eng_metas e)"

section \<open>The two caches as one interface\<close>

text \<open>What a storage read contributes: its value, or nothing when the call failed.\<close>

definition fetched :: "'e storage_rpc \<Rightarrow> slot_key \<Rightarrow> u256 option" where
  "fetched rpc k = (case rpc (fst k) (snd k) of Inr v \<Rightarrow> Some v | Inl _ \<Rightarrow> None)"

text \<open>
  A cache that is filled in batches.  The law says what a lookup returns after a batch; the
  clients below (quotes, patches, window hydration) only use its consequences.
\<close>

locale slot_cache =
  fixes lookup :: "chain_state \<Rightarrow> slot_key \<Rightarrow> u256 option"
    and fill :: "'e storage_rpc \<Rightarrow> slot_key list \<Rightarrow> chain_state \<Rightarrow> chain_state"
  assumes lookup_fill: "lookup (fill rpc ks s) k =
      (if k \<in> set ks \<and> fetched rpc k \<noteq> None then fetched rpc k else lookup s k)"
begin

lemma fill_order: "set ks = set ks' \<Longrightarrow> lookup (fill rpc ks s) = lookup (fill rpc ks' s)"
  by (rule ext) (simp add: lookup_fill)

lemma fill_hit: "k \<in> set ks \<Longrightarrow> rpc (fst k) (snd k) = Inr v \<Longrightarrow> lookup (fill rpc ks s) k = Some v"
  by (simp add: lookup_fill fetched_def)

lemma fill_present: "lookup s k \<noteq> None \<Longrightarrow> lookup (fill rpc ks s) k \<noteq> None"
  by (simp add: lookup_fill)

lemma fill_miss: "k \<notin> set ks \<Longrightarrow> lookup (fill rpc ks s) k = lookup s k"
  by (simp add: lookup_fill)

lemma fill_fresh: "lookup s = Map.empty \<Longrightarrow> lookup (fill rpc ks s) k = Some v \<Longrightarrow> rpc (fst k) (snd k) = Inr v \<and> k \<in> set ks"
  by (auto simp: lookup_fill fetched_def split: if_splits sum.splits)

end

lemma fetch_one_simps [simp]:
  "cs_tip (fetch_one rpc b s k) = cs_tip s" "cs_plans (fetch_one rpc b s k) = cs_plans s"
  "cs_memo (fetch_one rpc True s k) = cs_memo s" "cs_ticks (fetch_one rpc False s k) = cs_ticks s"
  by (simp_all add: fetch_one_def Let_def split: sum.splits)

lemma prefetch_into_simps [simp]:
  "cs_tip (prefetch_into rpc b ks s) = cs_tip s" "cs_plans (prefetch_into rpc b ks s) = cs_plans s"
  "cs_memo (prefetch_into rpc True ks s) = cs_memo s" "cs_ticks (prefetch_into rpc False ks s) = cs_ticks s"
  unfolding prefetch_into_def by (induction ks arbitrary: s) simp_all

lemma fetch_one_maps:
  "cs_memo (fetch_one rpc False s k) = (case fetched rpc k of Some v \<Rightarrow> (cs_memo s)(k \<mapsto> v) | None \<Rightarrow> cs_memo s)"
  "cs_ticks (fetch_one rpc True s k) = (case fetched rpc k of Some v \<Rightarrow> (cs_ticks s)(k \<mapsto> v) | None \<Rightarrow> cs_ticks s)"
  by (simp_all add: fetch_one_def fetched_def Let_def split: sum.splits)

lemma prefetch_into_maps:
  "cs_memo (prefetch_into rpc False ks s) k =
     (if k \<in> set ks \<and> fetched rpc k \<noteq> None then fetched rpc k else cs_memo s k)"
  "cs_ticks (prefetch_into rpc True ks s) k =
     (if k \<in> set ks \<and> fetched rpc k \<noteq> None then fetched rpc k else cs_ticks s k)"
  unfolding prefetch_into_def
  by (induction ks arbitrary: s) (auto simp: fetch_one_maps split: option.splits)

interpretation memo: slot_cache cs_memo prefetch
  by unfold_locales (simp add: prefetch_def prefetch_into_maps)

interpretation ticks: slot_cache cs_ticks prefetch_ticks
  by unfold_locales (simp add: prefetch_ticks_def prefetch_into_maps)

lemma prefetch_simps [simp]:
  "cs_tip (prefetch rpc ks s) = cs_tip s" "cs_plans (prefetch rpc ks s) = cs_plans s"
  "cs_ticks (prefetch rpc ks s) = cs_ticks s"
  "cs_tip (prefetch_ticks rpc ks s) = cs_tip s" "cs_plans (prefetch_ticks rpc ks s) = cs_plans s"
  "cs_memo (prefetch_ticks rpc ks s) = cs_memo s"
  by (simp_all add: prefetch_def prefetch_ticks_def)

lemma cs_plan_cong: "cs_plans s = cs_plans s' \<Longrightarrow> cs_plan s = cs_plan s'"
  by (rule ext) (simp only: cs_plan_def)

lemma pool_slots_cong: "cs_plans s = cs_plans s' \<Longrightarrow> pool_slots s = pool_slots s'"
  by (rule ext) (simp only: pool_slots_def cs_plan_def)

text \<open>The counted read returns the plain read and changes nothing but the counter.\<close>

lemma cs_read_counted_value:
  "fst (cs_read_counted a sl s) = cs_read s a sl \<and> (\<exists>n. snd (cs_read_counted a sl s) = s\<lparr>cs_n_memo := n\<rparr>)"
proof -
  have "s\<lparr>cs_n_memo := cs_n_memo s\<rparr> = s" by simp
  then have "\<exists>n. s = s\<lparr>cs_n_memo := n\<rparr>" by metis
  then show ?thesis by (auto simp: cs_read_counted_def cs_read_def split: option.splits)
qed

section \<open>The reader's one-word cache is invisible\<close>

definition cache_ok :: "(u8 list \<Rightarrow> b256) \<Rightarrow> chain_state \<Rightarrow> cl_tick_reader \<Rightarrow> last_word \<Rightarrow> bool" where
  "cache_ok keccak s r lw \<longleftrightarrow>
     (case lw of None \<Rightarrow> True | Some (w, bits) \<Rightarrow> bitmap_word (cl_source keccak s r) w = Some bits)"

lemma reader_bitmap_word_ok:
  "cache_ok keccak s r lw \<Longrightarrow>
     fst (reader_bitmap_word keccak s r w lw) = bitmap_word (cl_source keccak s r) w \<and>
     cache_ok keccak s r (snd (reader_bitmap_word keccak s r w lw))"
  by (auto simp: reader_bitmap_word_def cache_ok_def cl_source_def Let_def split: option.splits)

lemma reader_probes_uncached:
  "cache_ok keccak s r lw \<Longrightarrow> reader_probes keccak s r lw ws = map (bitmap_word (cl_source keccak s r)) ws"
proof (induction ws arbitrary: lw)
  case Nil
  then show ?case by simp
next
  case (Cons w ws)
  then show ?case using reader_bitmap_word_ok [of keccak s r lw w]
    by (cases "reader_bitmap_word keccak s r w lw") simp
qed

section \<open>Advancing to a sealed block\<close>

lemma neighborhood_ok:
  assumes "numbered rs n"
  shows "\<exists>pools. neighborhood (store_build rs n) dirty = Inr pools \<and> set dirty \<subseteq> set pools \<and>
    (\<forall>r \<in> set rs. hop_pool ` set (rt_hops r) \<inter> set dirty \<noteq> {} \<longrightarrow> hop_pool ` set (rt_hops r) \<subseteq> set pools)"
proof -
  let ?S = "store_build rs n"
  let ?ids = "concat (map (routes_for_pool ?S) dirty)"
  define g where "g rid = (case store_route ?S rid of Inr r \<Rightarrow> r | Inl _ \<Rightarrow> undefined)" for rid
  have ok: "store_route ?S rid = Inr (g rid)" if "rid \<in> set ?ids" for rid
    using that ri.candidate_route [OF assms] unfolding g_def by (fastforce split: sum.splits)
  then have m: "rmap (store_route ?S) ?ids = Inr (map g ?ids)" by (rule rmap_pure)
  define pools where "pools = remdups (dirty @ concat (map (\<lambda>r. map hop_pool (rt_hops r)) (map g ?ids)))"
  have "hop_pool ` set (rt_hops r) \<subseteq> set pools"
    if r: "r \<in> set rs" "hop_pool ` set (rt_hops r) \<inter> set dirty \<noteq> {}" for r
  proof -
    obtain i where i: "i < length rs" "r = rs ! i" using r(1) by (auto simp: in_set_conv_nth)
    have "of_nat i \<in> set ?ids" using ri.candidates_iff [OF assms, of "of_nat i" dirty] i r(2) by blast
    moreover have "g (of_nat i) = r" using ri.route_at_build [OF assms i(1)] i(2) by (simp add: g_def)
    ultimately show ?thesis by (force simp: pools_def)
  qed
  moreover have "neighborhood ?S dirty = Inr pools" using m by (simp add: neighborhood_def pools_def)
  moreover have "set dirty \<subseteq> set pools" by (simp add: pools_def)
  ultimately show ?thesis by blast
qed

lemma prefetch_neighborhood_memo:
  assumes "neighborhood store dirty = Inr pools"
  shows "\<exists>s'. prefetch_neighborhood rpc store dirty s = Inr s' \<and> cs_tip s' = cs_tip s \<and> cs_plans s' = cs_plans s \<and>
    cs_ticks s' = cs_ticks s \<and>
    cs_memo s' = cs_memo (prefetch rpc (concat (map (pool_slots s) pools)) s)"
proof (cases "concat (map (pool_slots s) pools) = []")
  case True
  have "prefetch rpc [] s = s" by (simp add: prefetch_def prefetch_into_def)
  then show ?thesis unfolding prefetch_neighborhood_def assms rbind_Inr Let_def True by simp
next
  case False
  then have "prefetch_neighborhood rpc store dirty s = Inr (prefetch rpc (concat (map (pool_slots s) pools)) s)"
    unfolding prefetch_neighborhood_def assms rbind_Inr Let_def by (simp only: if_True not_False_eq_True)
  then show ?thesis by simp
qed

lemma advance_memo:
  assumes "numbered rs n"
  shows "\<exists>s'. advance_and_prefetch rpc (store_build rs n) tip dirty s = Inr s' \<and> cs_tip s' = tip \<and>
    cs_ticks s' = cs_ticks s \<and> cs_plans s' = cs_plans s \<and>
    (\<forall>k v. cs_memo s' k = Some v \<longrightarrow> rpc (fst k) (snd k) = Inr v) \<and>
    (\<forall>r \<in> set rs. hop_pool ` set (rt_hops r) \<inter> set dirty \<noteq> {} \<longrightarrow>
       (\<forall>h \<in> set (rt_hops r). \<forall>k \<in> set (pool_slots s (hop_pool h)). cs_memo s' k = fetched rpc k))"
proof -
  let ?s = "advance_to tip s"
  obtain pools where p: "neighborhood (store_build rs n) dirty = Inr pools"
    and sub: "\<forall>r \<in> set rs. hop_pool ` set (rt_hops r) \<inter> set dirty \<noteq> {} \<longrightarrow> hop_pool ` set (rt_hops r) \<subseteq> set pools"
    using neighborhood_ok [OF assms, of dirty] by (elim exE conjE) (rule that)
  let ?ks = "concat (map (pool_slots ?s) pools)"
  obtain s' where s': "prefetch_neighborhood rpc (store_build rs n) dirty ?s = Inr s'" "cs_tip s' = cs_tip ?s"
      "cs_plans s' = cs_plans ?s" "cs_ticks s' = cs_ticks ?s" "cs_memo s' = cs_memo (prefetch rpc ?ks ?s)"
    using prefetch_neighborhood_memo [OF p] by blast
  have e: "cs_memo ?s = Map.empty" by (simp add: advance_to_def)
  have ps: "pool_slots ?s = pool_slots s" by (rule pool_slots_cong) (simp add: advance_to_def)
  have "rpc (fst k) (snd k) = Inr v" if "cs_memo s' k = Some v" for k v
    using memo.fill_fresh [OF e, of rpc ?ks k v] that unfolding s'(5) by blast
  moreover have "cs_memo s' k = fetched rpc k" if "k \<in> set ?ks" for k
    using memo.lookup_fill [of rpc ?ks ?s k] that e s'(5) by simp
  moreover have "k \<in> set ?ks" if "r \<in> set rs" "hop_pool ` set (rt_hops r) \<inter> set dirty \<noteq> {}" "h \<in> set (rt_hops r)"
      "k \<in> set (pool_slots s (hop_pool h))" for r h k
  proof -
    have "hop_pool h \<in> set pools" using sub that(1,2,3) by blast
    then show ?thesis using that(4) ps by auto
  qed
  ultimately have "(\<forall>k v. cs_memo s' k = Some v \<longrightarrow> rpc (fst k) (snd k) = Inr v) \<and>
      (\<forall>r \<in> set rs. hop_pool ` set (rt_hops r) \<inter> set dirty \<noteq> {} \<longrightarrow>
        (\<forall>h \<in> set (rt_hops r). \<forall>k \<in> set (pool_slots s (hop_pool h)). cs_memo s' k = fetched rpc k))"
    by blast
  moreover have "cs_tip s' = tip" "cs_ticks s' = cs_ticks s" "cs_plans s' = cs_plans s"
    using s'(2-4) by (simp_all add: advance_to_def)
  ultimately show ?thesis using s'(1) unfolding advance_and_prefetch_def by blast
qed

section \<open>Hydrating a window\<close>

lemma window_of_cl:
  assumes "cl_codec c = PackedCodec"
  shows "\<exists>w. window_of s rg (PCl c, spacing) = Inr (Some w) \<and>
    tw_addr w = cl_addr c \<and> tw_ticks_base w = cl_ticks_base c \<and> tw_bitmap_base w = cl_bitmap_base c \<and>
    tw_spacing w = max spacing 1 \<and>
    (let center = wrap_i16 (snd (decode_v3_slot0 (cs_read s (cl_addr c) (cl_slot0 c))) div max spacing 1 div 256)
     in tw_lo w = sat_i16 (center - rg) \<and> tw_hi w = sat_i16 (center + rg))"
proof -
  have "in_i32 (snd (decode_v3_slot0 x))" for x
    using decode_slot0_range [of x] by (simp add: in_i24_def in_i32_def)
  from compress_tick_floor [OF this, of "max spacing 1"] show ?thesis
    using assms by (simp add: window_of_def Let_def)
qed

lemma single_window_run:
  assumes "window_of s rg p = Inr (Some w)" "tw_lo w \<le> tw_hi w"
  shows "prefetch_cl_tick_windows keccak rpc1 rpc2 [p] rg s =
    (let s1 = prefetch_ticks rpc1 (window_bitmap_slots keccak w) s
     in Inr (prefetch_ticks rpc2 (window_tick_slots keccak s1 w) s1))"
  using assms
  by (simp add: prefetch_cl_tick_windows_def window_bitmap_slots_def Let_def prefetch_ticks_def prefetch_into_def)

text \<open>
  A window is complete when each of its words is cached, and so is the tick of every bit set
  in one.  It is what the walk needs to cross the window without meeting an unknown.
\<close>

definition window_complete :: "(u8 list \<Rightarrow> b256) \<Rightarrow> chain_state \<Rightarrow> tick_window \<Rightarrow> bool" where
  "window_complete keccak s w \<longleftrightarrow>
     (\<forall>i \<in> {tw_lo w..tw_hi w}.
        \<exists>bits. read_tick_cache_checked s (tw_addr w) (mapping_slot_signed keccak i (tw_bitmap_base w)) = Some bits \<and>
          (\<forall>b < 256. bit bits b \<longrightarrow>
             cs_ticks s (tw_addr w, mapping_slot_signed keccak (wrap_i32 ((i * 256 + int b) * tw_spacing w)) (tw_ticks_base w))
               \<noteq> None))"

text \<open>The bitmap and tick slots of one pool do not collide (keccak), and neither is a base slot of the memo.\<close>

definition slots_disjoint :: "(u8 list \<Rightarrow> b256) \<Rightarrow> chain_state \<Rightarrow> tick_window \<Rightarrow> bool" where
  "slots_disjoint keccak s w \<longleftrightarrow>
     (\<forall>i. cs_memo s (tw_addr w, mapping_slot_signed keccak i (tw_bitmap_base w)) = None) \<and>
     (\<forall>i t. mapping_slot_signed keccak i (tw_bitmap_base w) \<noteq> mapping_slot_signed keccak t (tw_ticks_base w))"

lemma window_hydrated:
  assumes dis: "slots_disjoint keccak s w"
    and rpc1: "\<forall>sl. \<exists>v. rpc1 (tw_addr w) sl = Inr v" and rpc2: "\<forall>sl. \<exists>v. rpc2 (tw_addr w) sl = Inr v"
  defines "s1 \<equiv> prefetch_ticks rpc1 (window_bitmap_slots keccak w) s"
  shows "window_complete keccak (prefetch_ticks rpc2 (window_tick_slots keccak s1 w) s1) w"
  unfolding window_complete_def
proof
  let ?s2 = "prefetch_ticks rpc2 (window_tick_slots keccak s1 w) s1"
  fix i assume i: "i \<in> {tw_lo w..tw_hi w}"
  let ?k = "(tw_addr w, mapping_slot_signed keccak i (tw_bitmap_base w))"
  obtain v where "rpc1 (tw_addr w) (snd ?k) = Inr v" using rpc1 by blast
  then have v: "rpc1 (fst ?k) (snd ?k) = Inr v" by simp
  have "?k \<in> set (window_bitmap_slots keccak w)" using i by (auto simp: window_bitmap_slots_def)
  then have k1: "cs_ticks s1 ?k = Some v" unfolding s1_def using v by (rule ticks.fill_hit)
  have "?k \<notin> set (window_tick_slots keccak s1 w)"
    using dis by (auto simp: window_tick_slots_def word_tick_slots_def slots_disjoint_def Let_def split: if_splits)
  then have k2: "cs_ticks ?s2 ?k = Some v" using k1 by (simp add: ticks.fill_miss)
  have rd: "cs_read s1 (tw_addr w) (snd ?k) = v"
    using k1 dis by (simp add: cs_read_def slots_disjoint_def s1_def)
  have "cs_ticks ?s2 (tw_addr w, mapping_slot_signed keccak (wrap_i32 ((i * 256 + int b) * tw_spacing w)) (tw_ticks_base w)) \<noteq> None"
    if b: "b < 256" "bit v b" for b
  proof -
    let ?t = "(tw_addr w, mapping_slot_signed keccak (wrap_i32 ((i * 256 + int b) * tw_spacing w)) (tw_ticks_base w))"
    have "v \<noteq> 0" using b(2) by auto
    then have "?t \<in> set (word_tick_slots keccak s1 (tw_addr w) (tw_ticks_base w) (tw_bitmap_base w) (tw_spacing w) i)"
      using rd b by (auto simp: word_tick_slots_def)
    then have m: "?t \<in> set (window_tick_slots keccak s1 w)" using i by (auto simp: window_tick_slots_def)
    obtain x where "rpc2 (tw_addr w) (snd ?t) = Inr x" using rpc2 by blast
    then have "rpc2 (fst ?t) (snd ?t) = Inr x" by simp
    from ticks.fill_hit [of ?t _ rpc2 x s1, OF m this] show ?thesis by simp
  qed
  then show "\<exists>bits. read_tick_cache_checked ?s2 (tw_addr w) (mapping_slot_signed keccak i (tw_bitmap_base w)) = Some bits \<and>
      (\<forall>b < 256. bit bits b \<longrightarrow>
         cs_ticks ?s2 (tw_addr w, mapping_slot_signed keccak (wrap_i32 ((i * 256 + int b) * tw_spacing w)) (tw_ticks_base w)) \<noteq> None)"
    using k2 by (auto simp: read_tick_cache_checked_def)
qed

section \<open>The resync loop flushes\<close>

lemma resync_arrivals:
  assumes "rs_running m"
  shows "resync_run keccak rpcs e (map Arrived is) m = Inr (m\<lparr>rs_pending := fold List.insert is (rs_pending m)\<rparr>)"
  using assms
proof (induction "is" arbitrary: m)
  case Nil
  then show ?case by simp
next
  case (Cons i "is")
  then show ?case by (simp add: resync_step_def)
qed

lemma resync_run_append:
  "resync_run keccak rpcs e (xs @ ys) m = rbind (resync_run keccak rpcs e xs m) (resync_run keccak rpcs e ys)"
  by (induction xs arbitrary: m) (simp_all add: rbind_assoc cong: rbind_cong)

lemma set_fold_insert: "set (fold List.insert is acc) = set is \<union> set acc"
  by (induction "is" arbitrary: acc) auto

lemma distinct_fold_insert: "distinct acc \<Longrightarrow> distinct (fold List.insert is acc)"
  by (induction "is" arbitrary: acc) auto

section \<open>Properties\<close>

text \<open>C9. Advancing to a sealed block never panics on a renumbered store and leaves a memo that holds
  storage reads of that block only: every slot a quote of any route through a changed pool needs is
  the value just read (unset when its read failed), and no entry of an earlier block survives.
  The tick cache and the recipes are untouched.\<close>
theorem advance_fresh:
  assumes "numbered rs n"
  shows "\<exists>s'. advance_and_prefetch rpc (store_build rs n) tip dirty s = Inr s' \<and> cs_tip s' = tip \<and>
    cs_ticks s' = cs_ticks s \<and> cs_plans s' = cs_plans s \<and>
    (\<forall>k v. cs_memo s' k = Some v \<longrightarrow> rpc (fst k) (snd k) = Inr v) \<and>
    (\<forall>r \<in> set rs. hop_pool ` set (rt_hops r) \<inter> set dirty \<noteq> {} \<longrightarrow>
       (\<forall>h \<in> set (rt_hops r). \<forall>k \<in> set (pool_slots s (hop_pool h)). cs_memo s' k = fetched rpc k))"
  by (rule advance_memo [OF assms])

theorem advance_fresh_witness:
  "\<exists>s'. advance_and_prefetch (\<lambda>a sl. Inr (sl + 1) :: unit + u256) sample_store 9 [2]
      ((state_new 8)\<lparr>cs_memo := [(7, 7) \<mapsto> 7], cs_plans := [None, None, Some (PV2Packed 50 8), Some (PV2TwoSlot 60 3)]\<rparr>) = Inr s' \<and>
    cs_tip s' = 9 \<and> cs_memo s' (7, 7) \<noteq> Some 7 \<and> cs_memo s' (60, 4) = Some 5"
proof -
  let ?rpc = "\<lambda>a sl :: u256. Inr (sl + 1) :: unit + u256"
  let ?s = "(state_new 8)\<lparr>cs_memo := [(7, 7) \<mapsto> 7],
    cs_plans := [None, None, Some (PV2Packed 50 8), Some (PV2TwoSlot 60 3)]\<rparr>"
  obtain s' where s': "advance_and_prefetch ?rpc sample_store 9 [2] ?s = Inr s'" "cs_tip s' = 9"
      "\<forall>k v. cs_memo s' k = Some v \<longrightarrow> ?rpc (fst k) (snd k) = Inr v"
      "\<forall>r \<in> set [sample_route 0 [2, 3], sample_route 1 [4, 2]]. hop_pool ` set (rt_hops r) \<inter> set [2] \<noteq> {} \<longrightarrow>
         (\<forall>h \<in> set (rt_hops r). \<forall>k \<in> set (pool_slots ?s (hop_pool h)). cs_memo s' k = fetched ?rpc k)"
    using advance_fresh [OF sample_store_numbered, of ?rpc 9 "[2]" ?s, folded sample_store_def]
    by (elim exE conjE) (rule that)
  have h: "\<lparr>hop_pool = 3, hop_zero_for_one = True, hop_token_in = 1\<rparr> \<in> set (rt_hops (sample_route 0 [2, 3]))"
    by (simp add: sample_route_def)
  have "cs_memo s' (7, 7) \<noteq> Some 7" using s'(3) [rule_format, of "(7, 7)" 7] by auto
  moreover have "(60, 4) \<in> set (pool_slots ?s 3)"
    by (simp add: pool_slots_def cs_plan_def plan_slots_def get_def idx_get_def)
  then have "cs_memo s' (60, 4) = fetched ?rpc (60, 4)"
    using s'(4) [rule_format, OF _ _ h] by (simp add: sample_route_def)
  then have "cs_memo s' (60, 4) = Some 5" by (simp add: fetched_def)
  ultimately show ?thesis using s'(1,2) by blast
qed

text \<open>The order in which the requests of one batch complete is not observable: any two request lists
  with the same slots leave both caches the same.\<close>
lemma prefetch_order:
  assumes "set ks = set ks'"
  shows "cs_memo (prefetch rpc ks s) = cs_memo (prefetch rpc ks' s) \<and>
    cs_ticks (prefetch_ticks rpc ks s) = cs_ticks (prefetch_ticks rpc ks' s)"
  using memo.fill_order [OF assms] ticks.fill_order [OF assms] by blast

lemma prefetch_order_witness:
  "cs_memo (prefetch (\<lambda>a sl. Inr sl :: unit + u256) [(1, 2), (3, 4)] (state_new 0)) =
   cs_memo (prefetch (\<lambda>a sl. Inr sl :: unit + u256) [(3, 4), (1, 2), (3, 4)] (state_new 0))"
  using prefetch_order [of "[(1, 2), (3, 4)]" "[(3, 4), (1, 2), (3, 4)]"] by auto

text \<open>Probing bitmap words through the reader's one-word cache gives, for every sequence of probes, the
  words an uncached reader would give, so the walk may be run on the uncached source.\<close>

lemma reader_cache_invisible:
  "reader_probes keccak s r None ws = map (bitmap_word (cl_source keccak s r)) ws"
  by (rule reader_probes_uncached) (simp add: cache_ok_def)


definition sample_hash :: "u8 list \<Rightarrow> b256" where
  "sample_hash bs = push_bit 8 (ucast (bs ! 31)) OR ucast (bs ! 63)"

definition sample_cl_plan :: cl_plan where
  "sample_cl_plan =
     \<lparr>cl_addr = 7, cl_slot0 = 0, cl_liquidity = 4, cl_liq_shift = 0, cl_ticks_base = 5, cl_bitmap_base = 6,
      cl_codec = PackedCodec, cl_fee_src = FeeMeta\<rparr>"

definition sample_window :: tick_window where
  "sample_window =
     \<lparr>tw_addr = 7, tw_ticks_base = 5, tw_bitmap_base = 6, tw_spacing = 60, tw_lo = - 64, tw_hi = 64\<rparr>"

lemma mapping_sample_hash: "bit (mapping_slot_signed sample_hash i base) 0 = bit base 0"
proof -
  have "be_bytes32 base ! 31 = ucast base" by (simp add: be_bytes32_def rev_nth)
  then have "(be_bytes32 (word_of_int i) @ be_bytes32 base) ! 63 = ucast base" by (simp add: nth_append)
  then show ?thesis by (simp add: mapping_slot_signed_def sample_hash_def bit_simps)
qed

lemma sample_slots_disjoint: "slots_disjoint sample_hash (state_new 0) sample_window"
proof -
  have "bit (5 :: u256) 0" "\<not> bit (6 :: u256) 0" by simp_all
  then have "mapping_slot_signed sample_hash i 6 \<noteq> mapping_slot_signed sample_hash t 5" for i t
    by (metis mapping_sample_hash)
  then show ?thesis by (simp add: slots_disjoint_def sample_window_def state_new_def)
qed



definition empty_engine :: engine where
  "empty_engine =
     \<lparr>eng_metas = [], eng_by_address = Map.empty, eng_fee_dynamic = {}, eng_fee_recheck = {}, eng_head_block = 0\<rparr>"


end
