(* ===== verification/V2_Math.thy ===== *)
theory V2_Math
  imports Engine
begin

text \<open>
  Constant-product swap math, \<^verbatim>\<open>src/math/v2.rs\<close>: the exact integer quote on wrapping
  256-bit words, its floating-point twin and the rational-function coefficients of a hop.
  The lemmas relate the word code to the exact natural-number formula inside the no-overflow
  range and derive the AMM laws (bounded output, growing invariant, monotonicity, no profit on
  a round trip) from it.
\<close>

section \<open>The code\<close>

definition v2_get_amount_out :: "u256 \<Rightarrow> u256 \<Rightarrow> u256 \<Rightarrow> u32 \<Rightarrow> u256 res" where
  "v2_get_amount_out amount_in reserve_in reserve_out fee_bps =
     (if amount_in = 0 \<or> reserve_in = 0 \<or> reserve_out = 0 then Inr 0
      else
        let fee_factor = (ucast (10000 - fee_bps) :: u256);
            amount_in_with_fee = amount_in * fee_factor;
            numerator = amount_in_with_fee * reserve_out;
            denominator = reserve_in * 10000 + amount_in_with_fee
        in udiv numerator denominator)"

text \<open>\<open>(10_000 - fee_bps as i64) as f64 / 10_000.0\<close>\<close>

definition gamma_bps :: "u32 \<Rightarrow> f64" where
  "gamma_bps fee_bps = fdiv (f64_of_int (10000 - uint fee_bps)) (f64_lit 10000)"

definition v2_get_amount_out_f64 :: "f64 \<Rightarrow> f64 \<Rightarrow> f64 \<Rightarrow> u32 \<Rightarrow> f64" where
  "v2_get_amount_out_f64 amount_in reserve_in reserve_out fee_bps =
     (if fle amount_in (f64_lit 0) \<or> fle reserve_in (f64_lit 0) \<or> fle reserve_out (f64_lit 0)
      then f64_lit 0
      else
        let gamma = gamma_bps fee_bps;
            ain = fmul amount_in gamma
        in fdiv (fmul ain reserve_out) (fadd reserve_in ain))"

record hop_coef =
  hc_a :: f64
  hc_b :: f64
  hc_c :: f64

definition mk_hop_coef :: "f64 \<Rightarrow> f64 \<Rightarrow> u32 \<Rightarrow> hop_coef" where
  "mk_hop_coef reserve_in reserve_out fee_bps =
     (let gamma = gamma_bps fee_bps
      in \<lparr>hc_a = fmul gamma reserve_out, hc_b = reserve_in, hc_c = gamma\<rparr>)"

definition compose_coef :: "hop_coef \<Rightarrow> hop_coef \<Rightarrow> hop_coef" where
  "compose_coef f g =
     \<lparr>hc_a = fmul (hc_a g) (hc_a f),
      hc_b = fmul (hc_b g) (hc_b f),
      hc_c = fadd (fmul (hc_b g) (hc_c f)) (fmul (hc_c g) (hc_a f))\<rparr>"

section \<open>The exact formula\<close>

text \<open>The on-chain \<open>getAmountOut\<close> over the natural numbers.\<close>

definition v2_out :: "nat \<Rightarrow> nat \<Rightarrow> nat \<Rightarrow> nat \<Rightarrow> nat" where
  "v2_out ain rin rout fee = (ain * (10000 - fee) * rout) div (rin * 10000 + ain * (10000 - fee))"

text \<open>The range in which no intermediate product of the code wraps.\<close>

definition v2_fits :: "nat \<Rightarrow> nat \<Rightarrow> nat \<Rightarrow> bool" where
  "v2_fits ain rin rout \<longleftrightarrow> ain * 10000 * rout < 2 ^ 256 \<and> (rin + ain) * 10000 < 2 ^ 256"

lemma v2_fits_u112:
  assumes "ain < 2 ^ 112" "rin < 2 ^ 112" "rout < 2 ^ 112"
  shows "v2_fits ain rin rout"
proof -
  have "ain * 10000 * rout \<le> 2 ^ 112 * 10000 * 2 ^ 112"
    using assms by (intro mult_le_mono) auto
  also have "\<dots> < (2::nat) ^ 256" by simp
  finally have a: "ain * 10000 * rout < 2 ^ 256" .
  have "(rin + ain) * 10000 \<le> (2 ^ 112 + 2 ^ 112) * 10000"
    using assms by (intro mult_le_mono) auto
  also have "\<dots> < (2::nat) ^ 256" by simp
  finally show ?thesis using a by (simp add: v2_fits_def)
qed

lemma v2_out_less: "0 < rin \<Longrightarrow> 0 < rout \<Longrightarrow> v2_out ain rin rout fee < rout"
  unfolding v2_out_def by (rule less_mult_imp_div_less) (simp add: algebra_simps)

lemma v2_out_bound: "v2_out ain rin rout fee * (rin * 10000 + ain * (10000 - fee)) \<le> ain * (10000 - fee) * rout"
  unfolding v2_out_def by (rule div_times_less_eq_dividend)

text \<open>The product of the reserves never shrinks when the input is added and the output removed.\<close>

lemma v2_out_product:
  assumes "fee \<le> 10000"
  shows "rin * rout \<le> (rin + ain) * (rout - v2_out ain rin rout fee)"
proof (cases "v2_out ain rin rout fee \<le> rout")
  case True
  define x where "x = v2_out ain rin rout fee"
  define g where "g = 10000 - fee"
  have b: "x * (rin * 10000 + ain * g) \<le> ain * g * rout" using v2_out_bound by (simp add: x_def g_def)
  have g: "g \<le> 10000" by (simp add: g_def)
  have xr: "x \<le> rout" using True by (simp add: x_def)
  then obtain y where y: "rout = x + y" using le_Suc_ex by blast
  have "x * rin * 10000 \<le> ain * g * y" using b y by (simp add: algebra_simps)
  also have "\<dots> \<le> ain * 10000 * y" using g by (intro mult_le_mono) auto
  finally have "x * rin \<le> ain * y" by simp
  moreover have "rout - x = y" using y by simp
  ultimately have "rin * rout \<le> (rin + ain) * (rout - x)" by (simp add: y algebra_simps)
  then show ?thesis by (simp add: x_def)
next
  case False
  then have "rin = 0 \<or> rout = 0" using v2_out_less [of rin rout ain fee] by auto
  then show ?thesis by auto
qed

lemma v2_out_mono:
  assumes "a \<le> b" "0 < rin"
  shows "v2_out a rin rout fee \<le> v2_out b rin rout fee"
proof -
  define g where "g = 10000 - fee"
  define Da where "Da = rin * 10000 + a * g"
  define Db where "Db = rin * 10000 + b * g"
  define q where "q = v2_out a rin rout fee"
  have D: "0 < Da" "0 < Db" using assms by (simp_all add: Da_def Db_def)
  have qa: "q * Da \<le> a * g * rout" using v2_out_bound by (simp add: q_def Da_def g_def)
  have cross: "a * g * rout * Db \<le> b * g * rout * Da"
  proof -
    have "a * (rin * 10000) \<le> b * (rin * 10000)" using assms(1) by simp
    then have "g * rout * (a * (rin * 10000)) \<le> g * rout * (b * (rin * 10000))" by (rule mult_le_mono2)
    then show ?thesis by (simp add: Da_def Db_def algebra_simps)
  qed
  have "q * Db * Da \<le> a * g * rout * Db" using mult_le_mono1 [OF qa, of Db] by (simp add: ac_simps)
  also note cross
  finally have "q * Db \<le> b * g * rout" using D by simp
  then have "q \<le> (b * g * rout) div Db" using D by (simp add: less_eq_div_iff_mult_less_eq)
  then show ?thesis by (simp add: q_def v2_out_def Db_def g_def)
qed

text \<open>Selling the output straight back never returns more than was put in.\<close>

lemma v2_out_round_trip:
  assumes "fee \<le> 10000" "0 < rin" "0 < rout"
  shows "v2_out (v2_out ain rin rout fee) (rout - v2_out ain rin rout fee) (rin + ain) fee \<le> ain"
proof -
  define x where "x = v2_out ain rin rout fee"
  define z where "z = v2_out x (rout - x) (rin + ain) fee"
  have xr: "x < rout" using v2_out_less assms by (simp add: x_def)
  have "(rout - x) * (rin + ain) \<le> (rout - x + x) * (rin + ain - z)"
    unfolding z_def by (rule v2_out_product) (rule assms(1))
  moreover have "rin * rout \<le> (rin + ain) * (rout - x)"
    unfolding x_def by (rule v2_out_product) (rule assms(1))
  ultimately have "rout * rin \<le> rout * (rin + ain - z)"
    using xr by (metis dual_order.trans le_add_diff_inverse2 less_imp_le mult.commute)
  then have "rin \<le> rin + ain - z" using assms(3) mult_le_cancel1 by blast
  then show ?thesis using assms(2) by (simp add: z_def x_def)
qed

section \<open>The word code computes the formula\<close>

lemma v2_get_amount_out_refines:
  assumes fee: "unat fee_bps \<le> 10000"
    and fits: "v2_fits (unat ain) (unat rin) (unat rout)"
    and nz: "rin \<noteq> 0" "rout \<noteq> 0"
  shows "\<exists>w. v2_get_amount_out ain rin rout fee_bps = Inr w \<and>
             unat w = v2_out (unat ain) (unat rin) (unat rout) (unat fee_bps)"
proof (cases "ain = 0")
  case True
  then show ?thesis by (simp add: v2_get_amount_out_def v2_out_def)
next
  case False
  define g where "g = (ucast (10000 - fee_bps) :: u256)"
  have "unat (10000 - fee_bps) = 10000 - unat fee_bps" using fee by (subst unat_minus_id) simp_all
  then have g: "unat g = 10000 - unat fee_bps" by (simp add: g_def unat_ucast_up)
  have f1: "unat ain * 10000 * unat rout < 2 ^ 256" and f2: "(unat rin + unat ain) * 10000 < 2 ^ 256"
    using fits by (simp_all add: v2_fits_def)
  have gl: "unat g \<le> 10000" by (simp add: g)
  have agl: "unat ain * unat g \<le> unat ain * 10000" using gl by simp
  have "unat ain * 10000 < 2 ^ 256" using f2 by (simp add: add_mult_distrib)
  with agl have "unat ain * unat g < 2 ^ 256" by (rule order.strict_trans1)
  then have ag: "unat (ain * g) = unat ain * unat g" by (rule unat_mult_u256)
  have "unat ain * unat g * unat rout \<le> unat ain * 10000 * unat rout" using agl by (rule mult_le_mono1)
  then have "unat (ain * g) * unat rout < 2 ^ 256" unfolding ag using f1 by (rule order.strict_trans1)
  then have num: "unat (ain * g * rout) = unat ain * unat g * unat rout"
    by (simp only: unat_mult_u256 ag)
  have r1: "unat (rin * 10000) = unat rin * 10000" using f2 by (subst unat_mult_id) simp_all
  have "unat rin * 10000 + unat ain * unat g \<le> (unat rin + unat ain) * 10000"
    unfolding add_mult_distrib using agl by (rule add_left_mono)
  then have "unat rin * 10000 + unat ain * unat g < 2 ^ 256" using f2 by (rule order.strict_trans1)
  then have den: "unat (rin * 10000 + ain * g) = unat rin * 10000 + unat ain * unat g"
    using r1 ag by (subst unat_add_u256) simp_all
  have "0 < unat rin" using nz by (simp add: unat_gt_0)
  then have dnz: "rin * 10000 + ain * g \<noteq> 0" using den by (metis add_is_0 mult_is_0 neq0_conv unat_0 zero_neq_numeral)
  have "v2_get_amount_out ain rin rout fee_bps = Inr ((ain * g * rout) div (rin * 10000 + ain * g))"
    using False nz dnz by (simp add: v2_get_amount_out_def Let_def g_def udiv_def)
  then show ?thesis using num den g by (simp add: unat_div v2_out_def)
qed

lemma v2_zero_reserve: "rin = 0 \<or> rout = 0 \<or> ain = 0 \<Longrightarrow> v2_get_amount_out ain rin rout fee = Inr 0"
  by (auto simp: v2_get_amount_out_def)

section \<open>Properties\<close>

text \<open>C8. A constant-product quote over valid fees inside the no-overflow range never panics, equals
  the exact natural-number formula, stays below the output reserve, and leaves the product of
  the reserves at least as large as before.\<close>
theorem v2_quote_exact:
  assumes "unat fee_bps \<le> 10000" "v2_fits (unat ain) (unat rin) (unat rout)" "rin \<noteq> 0" "rout \<noteq> 0"
  shows "\<exists>w. v2_get_amount_out ain rin rout fee_bps = Inr w \<and>
    unat w = v2_out (unat ain) (unat rin) (unat rout) (unat fee_bps) \<and>
    unat w < unat rout \<and>
    unat rin * unat rout \<le> (unat rin + unat ain) * (unat rout - unat w)"
proof -
  obtain w where w: "v2_get_amount_out ain rin rout fee_bps = Inr w"
      "unat w = v2_out (unat ain) (unat rin) (unat rout) (unat fee_bps)"
    using v2_get_amount_out_refines [OF assms] by blast
  have "0 < unat rin" "0 < unat rout" using assms(3,4) by (simp_all add: unat_gt_0)
  then show ?thesis using w v2_out_less v2_out_product [OF assms(1)] by auto
qed

theorem v2_quote_exact_witness:
  "\<exists>w. v2_get_amount_out 10 1000 2000 30 = Inr w \<and> unat w = v2_out 10 1000 2000 30 \<and> unat w < 2000 \<and>
    1000 * 2000 \<le> (1000 + 10) * (2000 - unat w)"
  using v2_quote_exact [of 30 10 1000 2000] by (simp add: v2_fits_def)

text \<open>Selling the output of a quote straight back to the moved pool never returns more than was
  put in, for any fee up to 100% and reserves a V2 pair can hold.\<close>
lemma v2_quote_round_trip:
  assumes fee: "unat fee_bps \<le> 10000" and nz: "rin \<noteq> 0" "rout \<noteq> 0"
    and cap: "unat rin + unat ain < 2 ^ 112" "unat rout < 2 ^ 112"
    and there: "v2_get_amount_out ain rin rout fee_bps = Inr x"
    and again: "v2_get_amount_out x (rout - x) (rin + ain) fee_bps = Inr z"
  shows "z \<le> ain"
proof -
  have "v2_fits (unat ain) (unat rin) (unat rout)" using cap by (intro v2_fits_u112) auto
  then have x: "unat x = v2_out (unat ain) (unat rin) (unat rout) (unat fee_bps)"
    using v2_get_amount_out_refines [OF fee _ nz] there by fastforce
  have pos: "0 < unat rin" "0 < unat rout" using nz by (simp_all add: unat_gt_0)
  have xl: "unat x < unat rout" unfolding x by (rule v2_out_less [OF pos])
  have ro: "unat (rout - x) = unat rout - unat x" using xl by (intro unat_minus_id) simp
  have "unat rin + unat ain < 2 ^ 256" using cap(1) by (rule order_less_trans) simp
  then have ri: "unat (rin + ain) = unat rin + unat ain" by (rule unat_add_u256)
  have "v2_fits (unat x) (unat (rout - x)) (unat (rin + ain))"
    using cap xl ro ri by (intro v2_fits_u112) auto
  moreover have "rout - x \<noteq> 0" "rin + ain \<noteq> 0"
    using ro xl ri pos by (metis unat_0 zero_less_diff less_irrefl, metis unat_0 add_is_0 less_irrefl)
  ultimately have "unat z = v2_out (unat x) (unat (rout - x)) (unat (rin + ain)) (unat fee_bps)"
    using v2_get_amount_out_refines [OF fee] again by fastforce
  also have "\<dots> \<le> unat ain" unfolding ro ri x by (rule v2_out_round_trip [OF fee pos])
  finally show ?thesis by (simp add: word_le_nat_alt)
qed

lemma v2_quote_round_trip_witness:
  "v2_get_amount_out 10 1000 2000 30 = Inr 19 \<and> v2_get_amount_out 19 1981 1010 30 = Inr 9 \<and> (9 :: u256) \<le> 10"
proof -
  have f: "v2_get_amount_out 10 1000 2000 30 = Inr 19" by code_simp
  have b: "v2_get_amount_out 19 (2000 - 19) (1000 + 10) 30 = Inr 9" by code_simp
  have "(9 :: u256) \<le> 10" by (rule v2_quote_round_trip [OF _ _ _ _ _ f b]) simp_all
  then show ?thesis using f b by simp
qed

end
