(* ===== verification/Stable_Math.thy ===== *)
theory Stable_Math
  imports Engine
begin

text \<open>
  Solidly stable-pool math, \<^verbatim>\<open>src/math/aero_stable.rs\<close>, on wrapping 256-bit words.  The
  Newton loop of \<open>get_y\<close> is bounded by 255 iterations in the code and recurses over the
  remaining count here, so it always returns or panics.  A division by a zero derivative
  panics, and the final subtraction \<open>y0 - y_new\<close> wraps.
\<close>

definition e18 :: u256 where
  "e18 = 1000000000000000000"

definition stable_k :: "u256 \<Rightarrow> u256 \<Rightarrow> u256" where
  "stable_k x y =
     (let unit = e18;
          a = x * y div unit;
          b = (x * x div unit) + (y * y div unit)
      in a * b div unit)"

definition stable_f :: "u256 \<Rightarrow> u256 \<Rightarrow> u256" where
  "stable_f x0 y =
     (let unit = e18;
          y2 = y * y div unit;
          y3 = y2 * y div unit;
          a = x0 * y3 div unit;
          x2 = x0 * x0 div unit;
          x3 = x2 * x0 div unit;
          b = x3 * y div unit
      in a + b)"

definition stable_d :: "u256 \<Rightarrow> u256 \<Rightarrow> u256" where
  "stable_d x0 y =
     (let unit = e18;
          three = 3;
          y2 = y * y div unit;
          a = three * x0 * y2 div unit;
          x2 = x0 * x0 div unit;
          x3 = x2 * x0 div unit
      in a + x3)"

fun get_y_loop :: "nat \<Rightarrow> u256 \<Rightarrow> u256 \<Rightarrow> u256 \<Rightarrow> u256 res" where
  "get_y_loop 0 x0 xy y = Inr y"
| "get_y_loop (Suc n) x0 xy y =
     (let y_prev = y; k_val = stable_f x0 y in
      rbind
        (if k_val < xy then rbind (udiv ((xy - k_val) * e18) (stable_d x0 y)) (\<lambda>dy. Inr (y + dy))
         else rbind (udiv ((k_val - xy) * e18) (stable_d x0 y)) (\<lambda>dy. Inr (y - dy)))
        (\<lambda>y'. if y_prev < y' then
                 (if y' - y_prev \<le> 1 then Inr y' else get_y_loop n x0 xy y')
               else if y_prev - y' \<le> 1 then Inr y' else get_y_loop n x0 xy y'))"

definition get_y :: "u256 \<Rightarrow> u256 \<Rightarrow> u256 \<Rightarrow> u256 res" where
  "get_y x0 xy y = get_y_loop 255 x0 xy y"

definition stable_get_amount_out ::
    "u256 \<Rightarrow> u256 \<Rightarrow> u256 \<Rightarrow> u256 \<Rightarrow> u256 \<Rightarrow> u32 \<Rightarrow> u256 res" where
  "stable_get_amount_out amount_in reserve_in reserve_out dec_in dec_out fee_bps =
     (if amount_in = 0 \<or> reserve_in = 0 \<or> reserve_out = 0 then Inr 0
      else
        let unit = e18;
            fee = amount_in * ucast fee_bps div 10000;
            amount_in_after = amount_in - fee
        in rbind (udiv (reserve_in * unit) dec_in) (\<lambda>x0.
           rbind (udiv (reserve_out * unit) dec_out) (\<lambda>y0.
           rbind (udiv (amount_in_after * unit) dec_in) (\<lambda>amt.
             let xy = stable_k x0 y0; x_new = x0 + amt in
             rbind (get_y x_new xy y0) (\<lambda>y_new.
               let out_scaled = y0 - y_new in Inr (out_scaled * dec_out div unit))))))"

section \<open>The floating-point twin\<close>

fun newton_f64 :: "nat \<Rightarrow> f64 \<Rightarrow> f64 \<Rightarrow> f64 \<Rightarrow> f64" where
  "newton_f64 0 x_new kk y = y"
| "newton_f64 (Suc n) x_new kk y =
     (let x3 = fmul (fmul x_new x_new) x_new;
          fy = fadd (fmul x3 y) (fmul (fmul (fmul x_new y) y) y);
          dy = fadd (fmul (fmul (fmul (f64_lit 3) x_new) y) y) x3;
          step = fdiv (fsub fy kk) dy;
          ny = fsub y step
      in if flt (fabs (fsub ny y)) (f64_lit (1 / 1000000000000000000)) then ny
         else newton_f64 n x_new kk ny)"

definition stable_get_amount_out_f64 ::
    "f64 \<Rightarrow> f64 \<Rightarrow> f64 \<Rightarrow> f64 \<Rightarrow> f64 \<Rightarrow> u32 \<Rightarrow> f64" where
  "stable_get_amount_out_f64 amount_in reserve_in reserve_out dec_in dec_out fee_bps =
     (if fle amount_in (f64_lit 0) \<or> fle reserve_in (f64_lit 0) \<or> fle reserve_out (f64_lit 0)
      then f64_lit 0
      else
        let gamma = fdiv (f64_of_int (10000 - uint fee_bps)) (f64_lit 10000);
            x0 = fdiv reserve_in dec_in;
            y0 = fdiv reserve_out dec_out;
            amt = fdiv (fmul amount_in gamma) dec_in;
            kk = fadd (fmul (fmul (fmul x0 x0) x0) y0) (fmul (fmul (fmul x0 y0) y0) y0);
            x_new = fadd x0 amt;
            y = newton_f64 64 x_new kk y0;
            out = fmul (fsub y0 y) dec_out
        in fmax out (f64_lit 0))"

section \<open>Behaviour\<close>

text \<open>Whatever the reserves, the quote terminates: the only failure is a zero divisor.\<close>

lemma get_y_loop_outcome:
  "(\<exists>y'. get_y_loop n x0 xy y = Inr y') \<or> get_y_loop n x0 xy y = Inl DivByZero"
proof (induction n arbitrary: y)
  case 0
  then show ?case by simp
next
  case (Suc n)
  then show ?case
    by (cases "stable_d x0 y = 0") (auto simp: Let_def udiv_def)
qed

lemma stable_get_amount_out_outcome:
  "(\<exists>w. stable_get_amount_out a ri ro di do f = Inr w) \<or>
   stable_get_amount_out a ri ro di do f = Inl DivByZero"
proof (cases "a = 0 \<or> ri = 0 \<or> ro = 0 \<or> di = 0 \<or> do = 0")
  case True
  then show ?thesis by (auto simp: stable_get_amount_out_def Let_def udiv_def)
next
  case False
  then show ?thesis
    using get_y_loop_outcome [of 255 "ri * e18 div di + (a - a * ucast f div 10000) * e18 div di"
        "stable_k (ri * e18 div di) (ro * e18 div do)" "ro * e18 div do"]
    by (auto simp: stable_get_amount_out_def Let_def udiv_def get_y_def)
qed

text \<open>
  The fee is taken off the input first: with a valid fee and an input below \<open>2^224\<close> the amount
  after the fee is exactly the input less its rounded-down share.
\<close>

lemma stable_fee_exact:
  assumes "unat (fee_bps :: u32) \<le> 10000" "unat (a :: u256) < 2 ^ 224"
  shows "unat (a - a * ucast fee_bps div 10000) = unat a - unat a * unat fee_bps div 10000"
proof -
  have uf: "unat (ucast fee_bps :: u256) = unat fee_bps" by (rule unat_ucast_up) simp
  have "unat a * unat fee_bps \<le> 2 ^ 224 * 10000" using assms by (intro mult_le_mono) auto
  also have "\<dots> < (2::nat) ^ 256" by simp
  finally have m: "unat (a * ucast fee_bps) = unat a * unat fee_bps" using uf by (subst unat_mult_id) simp_all
  then have d: "unat (a * ucast fee_bps div 10000) = unat a * unat fee_bps div 10000" by (simp add: unat_div)
  have "unat a * unat fee_bps div 10000 \<le> unat a"
    using assms(1) by (metis div_le_mono mult_le_mono2 nonzero_mult_div_cancel_right zero_neq_numeral)
  then show ?thesis using d by (subst unat_minus_id) simp_all
qed

section \<open>Properties\<close>


text \<open>On unbalanced dust reserves the Newton solution exceeds the old balance by rounding, the final
  subtraction wraps, and the quote is larger than the whole output reserve.\<close>
lemma stable_quote_wraps:
  "stable_get_amount_out 1000 20000000000000 70000000000000 e18 e18 5 =
     Inr 115792089237316195423570985008687907853269984662329305761312 \<and>
   (70000000000000 :: u256) < 115792089237316195423570985008687907853269984662329305761312"
  by code_simp

end
