(* ===== verification/Quote.thy ===== *)
theory Quote
  imports Chain_State V2_Math Stable_Math
begin

unbundle bit_operations_syntax

text \<open>
  Quotes straight off the chain state, \<^verbatim>\<open>src/math/mod.rs\<close>: the exact quote and the
  floating-point quote with their dispatch over the read recipes, the marginal rate of the
  first gate, and the lossy conversion of a 256-bit integer to binary64.  A pool whose recipe
  is missing quotes zero.
\<close>

section \<open>U256 to f64\<close>

definition u256_to_f64 :: "u256 \<Rightarrow> f64" where
  "u256_to_f64 v =
     (let bits = blen (uint v)
      in if bits \<le> 52 then f64_of_int (uint v)
         else
           let shift = bits - 52;
               top = drop_bit (nat shift) v
           in fmul (f64_of_int (uint top)) (f64_powi (f64_lit 2) shift))"

section \<open>Exact quotes\<close>

text \<open>The Algebra fee field of the state word: 16 bits at the discovered offset.\<close>

definition cl_fee_pips :: "cl_fee \<Rightarrow> pool_meta \<Rightarrow> u256 \<Rightarrow> u32" where
  "cl_fee_pips fee meta word0 =
     (case fee of
        FeeMeta \<Rightarrow> pm_fee_pips meta
      | FeeWord shift \<Rightarrow> ucast (drop_bit (unat shift) word0 AND 0xffff))"

definition walk_spacing :: "tick_codec \<Rightarrow> pool_meta \<Rightarrow> int" where
  "walk_spacing codec meta = (case codec of PackedCodec \<Rightarrow> pm_tick_spacing meta | TwoWordCodec \<Rightarrow> 1)"

text \<open>The CL arm over any tick source; \<open>quote\<close> passes it the reader over the state.\<close>

definition quote_cl ::
    "'e v3lib \<Rightarrow> tick_source \<Rightarrow> chain_state \<Rightarrow> pool_meta \<Rightarrow> cl_plan \<Rightarrow> u256 \<Rightarrow> bool \<Rightarrow> u256 res" where
  "quote_cl lib src s meta c amount_in zero_for_one =
     (let word0 = cs_read s (cl_addr c) (cl_slot0 c);
          (sqrt, tick) = decode_v3_slot0 word0
      in if sqrt = 0 then Inr 0
         else
           let liq = decode_shifted128 (cs_read s (cl_addr c) (cl_liquidity c)) (cl_liq_shift c);
               fee_pips = cl_fee_pips (cl_fee_src c) meta word0
           in v3_get_amount_out_src lib amount_in zero_for_one sqrt tick liq fee_pips
                (walk_spacing (cl_codec c) meta) src)"

definition quote ::
    "(u8 list \<Rightarrow> b256) \<Rightarrow> 'e v3lib \<Rightarrow> chain_state \<Rightarrow> pool_meta \<Rightarrow> u256 \<Rightarrow> bool \<Rightarrow> u256 res" where
  "quote keccak lib s meta amount_in zero_for_one =
     (case cs_plan s (pm_idx meta) of
        None \<Rightarrow> Inr 0
      | Some (PV2Packed addr slot) \<Rightarrow>
          let (r0, r1) = decode_v2_packed (cs_read s addr slot)
          in if r0 = 0 \<or> r1 = 0 then Inr 0
             else
               let (rin, rout) = (if zero_for_one then (ucast r0, ucast r1) else (ucast r1, ucast r0))
               in v2_get_amount_out amount_in rin rout (pm_fee_bps meta)
      | Some (PV2TwoSlot addr r0) \<Rightarrow>
          let w0 = cs_read s addr r0;
              w1 = cs_read s addr (r0 + 1)
          in if w0 = 0 \<or> w1 = 0 then Inr 0
             else if pm_dex meta = AeroStable then
               let d0 = 10 ^ unat (pm_dec0 meta);
                   d1 = 10 ^ unat (pm_dec1 meta);
                   (rin, rout, din, dout) = (if zero_for_one then (w0, w1, d0, d1) else (w1, w0, d1, d0))
               in stable_get_amount_out amount_in rin rout din dout (pm_fee_bps meta)
             else
               let (rin, rout) = (if zero_for_one then (w0, w1) else (w1, w0))
               in v2_get_amount_out amount_in rin rout (pm_fee_bps meta)
      | Some (PCl c) \<Rightarrow>
          quote_cl lib (cl_source keccak s (reader_of c)) s meta c amount_in zero_for_one)"

section \<open>Floating-point quotes and the marginal rate\<close>

definition quote_f64 ::
    "(u8 list \<Rightarrow> b256) \<Rightarrow> 'e v3lib \<Rightarrow> chain_state \<Rightarrow> pool_meta \<Rightarrow> f64 \<Rightarrow> bool \<Rightarrow> f64 res" where
  "quote_f64 keccak lib s meta amount_in zero_for_one =
     (case cs_plan s (pm_idx meta) of
        None \<Rightarrow> Inr (f64_lit 0)
      | Some (PV2Packed addr slot) \<Rightarrow>
          let (r0, r1) = decode_v2_packed (cs_read s addr slot);
              (rin, rout) = (if zero_for_one then (f64_of_u128 r0, f64_of_u128 r1) else (f64_of_u128 r1, f64_of_u128 r0))
          in Inr (v2_get_amount_out_f64 amount_in rin rout (pm_fee_bps meta))
      | Some (PV2TwoSlot addr r0) \<Rightarrow>
          let w0 = cs_read s addr r0;
              w1 = cs_read s addr (r0 + 1)
          in if pm_dex meta = AeroStable then
               let d0 = f64_powi (f64_lit 10) (uint (pm_dec0 meta));
                   d1 = f64_powi (f64_lit 10) (uint (pm_dec1 meta));
                   (rin, rout, din, dout) =
                     (if zero_for_one then (u256_to_f64 w0, u256_to_f64 w1, d0, d1)
                      else (u256_to_f64 w1, u256_to_f64 w0, d1, d0))
               in Inr (stable_get_amount_out_f64 amount_in rin rout din dout (pm_fee_bps meta))
             else
               let (rin, rout) =
                     (if zero_for_one then (u256_to_f64 w0, u256_to_f64 w1) else (u256_to_f64 w1, u256_to_f64 w0))
               in Inr (v2_get_amount_out_f64 amount_in rin rout (pm_fee_bps meta))
      | Some (PCl c) \<Rightarrow>
          let ain = (ucast (f64_to_u128 (fmax amount_in (f64_lit 0))) :: u256)
          in rbind (quote keccak lib s meta ain zero_for_one) (\<lambda>out. Inr (u256_to_f64 out)))"

definition spot_rate :: "chain_state \<Rightarrow> pool_meta \<Rightarrow> bool \<Rightarrow> f64" where
  "spot_rate s meta zero_for_one =
     (case cs_plan s (pm_idx meta) of
        None \<Rightarrow> f64_lit 0
      | Some (PV2Packed addr slot) \<Rightarrow>
          let (r0, r1) = decode_v2_packed (cs_read s addr slot);
              (rin, rout) = (if zero_for_one then (f64_of_u128 r0, f64_of_u128 r1) else (f64_of_u128 r1, f64_of_u128 r0))
          in if fle rin (f64_lit 0) \<or> fle rout (f64_lit 0) then f64_lit 0
             else fdiv (fmul (gamma_bps (pm_fee_bps meta)) rout) rin
      | Some (PV2TwoSlot addr r0) \<Rightarrow>
          let w0 = cs_read s addr r0;
              w1 = cs_read s addr (r0 + 1);
              gamma = gamma_bps (pm_fee_bps meta)
          in if pm_dex meta = AeroStable then
               let x = fdiv (u256_to_f64 w0) (f64_powi (f64_lit 10) (uint (pm_dec0 meta)));
                   y = fdiv (u256_to_f64 w1) (f64_powi (f64_lit 10) (uint (pm_dec1 meta)))
               in if fle x (f64_lit 0) \<or> fle y (f64_lit 0) then f64_lit 0
                  else
                    let (a, b) = (if zero_for_one then (x, y) else (y, x));
                        num = fadd (fmul (fmul (fmul (f64_lit 3) a) a) b) (fmul (fmul b b) b);
                        den = fadd (fmul (fmul a a) a) (fmul (fmul (fmul (f64_lit 3) a) b) b)
                    in if fle den (f64_lit 0) then f64_lit 0 else fdiv (fmul gamma num) den
             else
               let (rin, rout) =
                     (if zero_for_one then (u256_to_f64 w0, u256_to_f64 w1) else (u256_to_f64 w1, u256_to_f64 w0))
               in if fle rin (f64_lit 0) \<or> fle rout (f64_lit 0) then f64_lit 0
                  else fdiv (fmul gamma rout) rin
      | Some (PCl c) \<Rightarrow>
          let word0 = cs_read s (cl_addr c) (cl_slot0 c);
              sp = u256_to_f64 (fst (decode_v3_slot0 word0));
              q96 = f64_powi (f64_lit 2) 96;
              ratio = fdiv sp q96;
              price1_per_0 = fmul ratio ratio
          in if fle price1_per_0 (f64_lit 0) then f64_lit 0
             else
               let fee_pips = cl_fee_pips (cl_fee_src c) meta word0;
                   gamma = fdiv (f64_of_int (1000000 - uint fee_pips)) (f64_lit 1000000)
               in if zero_for_one then fmul gamma price1_per_0 else fdiv gamma price1_per_0)"

section \<open>The conversion truncates\<close>

lemma fmul_pow2:
  assumes "0 \<le> i" "0 \<le> j" "i + j \<le> 1023"
  shows "fmul (FNum (pow2 i)) (FNum (pow2 j)) = FNum (pow2 (i + j))"
proof -
  have "pow2 i * pow2 j = pow2 (i + j)" by (simp add: pow2_add)
  moreover have "fround b (pow2 (i + j)) = FNum (pow2 (i + j))" for b
    by (rule fround_exact [where m = 1 and u = "i + j"]) (use assms in simp_all)
  ultimately show ?thesis by simp
qed

lemma powi_loop_pow2:
  assumes "1 \<le> i" "0 \<le> j" "0 \<le> b" "i * b + j \<le> 1023"
  shows "powi_loop (FNum (pow2 i)) b (FNum (pow2 j)) = FNum (pow2 (i * b + j))"
  using assms
proof (induction "nat b" arbitrary: i j b rule: less_induct)
  case less
  have b: "b = 2 * (b div 2) + b mod 2" "b mod 2 = 0 \<or> b mod 2 = 1" by auto
  have ib: "i \<le> i * b" if "1 \<le> b" using less.prems(1) that mult_left_mono [of 1 b i] by simp
  define j' where "j' = (if odd b then i + j else j)"
  have r: "(if odd b then fmul (FNum (pow2 j)) (FNum (pow2 i)) else FNum (pow2 j)) = FNum (pow2 j')"
  proof (cases "odd b")
    case True
    then have "1 \<le> b" using less.prems(3) by (cases "b = 0") auto
    then have "i \<le> i * b" by (rule ib)
    then have "j + i \<le> 1023" using less.prems(4) by linarith
    then have "fmul (FNum (pow2 j)) (FNum (pow2 i)) = FNum (pow2 (j + i))"
      using less.prems(1,2) by (intro fmul_pow2) auto
    then show ?thesis using True by (simp add: j'_def add.commute)
  qed (simp add: j'_def)
  have eq: "i * b + j = 2 * i * (b div 2) + j'"
  proof (cases "odd b")
    case True
    then have "b = 2 * (b div 2) + 1" by presburger
    then have "i * b = i * (2 * (b div 2) + 1)" by simp
    then show ?thesis using True by (simp add: j'_def algebra_simps)
  next
    case False
    then have "b = 2 * (b div 2)" by presburger
    then have "i * b = i * (2 * (b div 2))" by simp
    then show ?thesis using False by (simp add: j'_def algebra_simps)
  qed
  show ?case
  proof (cases "b div 2 \<le> 0")
    case True
    then have "b div 2 = 0" using less.prems(3) by (simp add: pos_imp_zdiv_nonneg_iff order_antisym)
    then have "i * b + j = j'" using eq by simp
    then show ?thesis using True r by (subst powi_loop.simps) (simp add: Let_def)
  next
    case False
    have "2 * i \<le> 2 * i * (b div 2)" using False less.prems(1) mult_left_mono [of 1 "b div 2" "2 * i"] by simp
    moreover have "0 \<le> j'" using less.prems(1,2) by (simp add: j'_def)
    ultimately have "2 * i \<le> 1023" using less.prems(4) eq by linarith
    then have sq: "fmul (FNum (pow2 i)) (FNum (pow2 i)) = FNum (pow2 (2 * i))"
      using less.prems(1) fmul_pow2 [of i i] by (simp only: mult_2)
    have "powi_loop (FNum (pow2 (2 * i))) (b div 2) (FNum (pow2 j')) = FNum (pow2 (2 * i * (b div 2) + j'))"
      using False less.prems eq \<open>0 \<le> j'\<close> by (intro less.hyps) auto
    then show ?thesis using False r sq eq by (subst powi_loop.simps) (simp add: Let_def)
  qed
qed

lemma powi_two: "0 \<le> b \<Longrightarrow> b \<le> 1023 \<Longrightarrow> f64_powi (f64_lit 2) b = FNum (pow2 b)"
proof -
  assume b: "0 \<le> b" "b \<le> 1023"
  have "f64_lit 2 = FNum (pow2 1)" unfolding f64_lit_def
    by (rule trans [OF fround_exact [where m = 1 and u = 1]]) (simp_all add: pow2_alt)
  moreover have "FNum 1 = FNum (pow2 0)" by (simp add: pow2_alt)
  ultimately show ?thesis using powi_loop_pow2 [of 1 0 b] b by (simp add: f64_powi_def)
qed

text \<open>The value with every bit below the leading 52 cleared.\<close>

definition top52 :: "int \<Rightarrow> int" where
  "top52 n = (let shift = max 0 (blen n - 52) in n div 2 ^ nat shift * 2 ^ nat shift)"

lemma blen_u256: "blen (uint (v :: u256)) \<le> 256"
proof (rule ccontr)
  assume "\<not> blen (uint v) \<le> 256"
  then have p: "0 < uint v" by (cases "uint v = 0") (auto simp: blen.simps order_less_le)
  have "(2 :: int) ^ 256 \<le> 2 ^ nat (blen (uint v) - 1)"
    using \<open>\<not> blen (uint v) \<le> 256\<close> by (intro power_increasing) auto
  also have "\<dots> \<le> uint v" using blen_bounds [OF p] by simp
  finally show False using uint_lt2p [of v] by simp
qed

lemma u256_to_f64_trunc:
  "u256_to_f64 v = (if v = 0 then FZero False else FNum (of_int (top52 (uint v))))"
proof (cases "v = 0")
  case True
  then show ?thesis by (simp add: u256_to_f64_def blen.simps f64_of_int_def fround_def)
next
  case False
  define n where "n = uint v"
  have n: "0 < n" using False by (simp add: n_def word_neq_0_conv [symmetric] uint_0_iff order_less_le)
  note bb = blen_bounds [OF n]
  show ?thesis
  proof (cases "blen n \<le> 52")
    case True
    have "n < 2 ^ nat (blen n)" using bb by simp
    also have "(2 :: int) ^ nat (blen n) \<le> 2 ^ 52" using True by (intro power_increasing) auto
    finally have "n < 2 ^ 53" by simp
    then have "f64_of_int n = FNum (of_int n)" unfolding f64_of_int_def by (intro fround_int n)
    then show ?thesis using True False by (simp add: u256_to_f64_def n_def [symmetric] top52_def Let_def)
  next
    case big: False
    define sh where "sh = blen n - 52"
    define m where "m = n div 2 ^ nat sh"
    have sh: "0 < sh" "sh \<le> 204" using big blen_u256 [of v] by (simp_all add: sh_def n_def)
    have s1: "nat (blen n - 1) = nat sh + 51" "nat (blen n) = nat sh + 52" using sh by (simp_all add: sh_def)
    have lo: "2 ^ 51 * 2 ^ nat sh \<le> n" and hi: "n < 2 ^ 52 * 2 ^ nat sh"
      using bb unfolding s1 by (simp_all add: power_add mult.commute)
    have m1: "2 ^ 51 \<le> m" using zdiv_mono1 [OF lo, of "2 ^ nat sh"] by (simp add: m_def)
    have m2: "m < 2 ^ 52"
    proof (rule ccontr)
      assume "\<not> m < 2 ^ 52"
      then have "2 ^ 52 * 2 ^ nat sh \<le> m * 2 ^ nat sh" by (intro mult_right_mono) auto
      also have "\<dots> \<le> n" using n by (simp add: m_def minus_mod_eq_div_mult [symmetric])
      finally show False using hi by simp
    qed
    note m = m1 m2
    have "take_bit 256 (uint v) = uint v" using uint_lt2p [of v] by (intro take_bit_int_eq_self) simp_all
    then have top: "uint (drop_bit (nat sh) v) = m"
      unfolding m_def n_def unsigned_drop_bit_eq by (simp add: drop_bit_eq_div)
    have mf: "f64_of_int m = FNum (of_int m)" unfolding f64_of_int_def using m by (intro fround_int) auto
    have pw: "f64_powi (f64_lit 2) sh = FNum (pow2 sh)" using sh by (intro powi_two) auto
    have "fround False (of_int m * pow2 sh) = FNum (of_int m * pow2 sh)"
    proof (rule fround_exact [where m = m and u = sh])
      show "\<bar>of_int m * pow2 sh\<bar> = of_int m * pow2 sh" using m by simp
      have "(of_int m :: rat) < of_int (2 ^ 52)" using m by (simp only: of_int_less_iff)
      also have "(of_int (2 ^ 52) :: rat) = pow2 52" by (simp add: pow2_alt)
      finally have "of_int m * pow2 sh < pow2 52 * pow2 sh" by (rule mult_strict_right_mono) simp
      also have "\<dots> = pow2 (52 + sh)" by (simp add: pow2_add)
      also have "\<dots> < pow2 1024" using sh by simp
      finally show "\<bar>of_int m * pow2 sh\<bar> < pow2 1024" using m by simp
    qed (use m sh in simp_all)
    moreover have "of_int m * pow2 sh = of_int (m * 2 ^ nat sh)" using sh by (simp add: pow2_int)
    ultimately have f: "fmul (FNum (of_int m)) (FNum (pow2 sh)) = FNum (of_int (m * 2 ^ nat sh))"
      using m by simp
    have "u256_to_f64 v = fmul (f64_of_int m) (f64_powi (f64_lit 2) sh)"
      using big by (simp add: u256_to_f64_def n_def [symmetric] Let_def sh_def [symmetric] top)
    moreover have "top52 n = m * 2 ^ nat sh" using sh by (simp add: top52_def m_def Let_def sh_def [symmetric])
    ultimately show ?thesis using False by (simp only: mf pw f n_def if_False)
  qed
qed

lemma top52_bounds: "0 < n \<Longrightarrow> top52 n \<le> n \<and> (n - top52 n) * 2 ^ 51 < n"
proof -
  assume n: "0 < n"
  define k where "k = nat (max 0 (blen n - 52))"
  have t: "top52 n = n - n mod 2 ^ k"
    by (simp add: top52_def k_def Let_def minus_mod_eq_div_mult)
  have m: "0 \<le> n mod 2 ^ k" "n mod 2 ^ k < 2 ^ k" by simp_all
  show ?thesis
  proof (cases "k = 0")
    case True
    then show ?thesis using t n by simp
  next
    case False
    then have "nat (blen n - 1) = k + 51" by (simp add: k_def)
    then have "2 ^ k * 2 ^ 51 \<le> n" using blen_bounds [OF n] by (simp add: power_add)
    moreover have "n mod 2 ^ k * 2 ^ 51 < 2 ^ k * 2 ^ 51" using m(2) by simp
    ultimately have "n mod 2 ^ k * 2 ^ 51 < n" by linarith
    then show ?thesis using t m(1) by simp
  qed
qed

section \<open>Unfetched state\<close>

definition unfetched :: "chain_state \<Rightarrow> slot_plan \<Rightarrow> bool" where
  "unfetched s plan \<longleftrightarrow> (\<forall>k \<in> set (plan_slots plan). cs_memo s k = None \<and> cs_ticks s k = None)"

lemma unfetched_read: "unfetched s plan \<Longrightarrow> (a, sl) \<in> set (plan_slots plan) \<Longrightarrow> cs_read s a sl = 0"
  by (simp add: unfetched_def cs_read_def)

lemma zero_conv [simp]: "u256_to_f64 0 = FZero False" "f64_lit 0 = FZero False" "f64_of_u128 0 = FZero False"
  by (simp_all add: u256_to_f64_trunc f64_lit_def f64_of_u128_def f64_of_int_def fround_def)

lemma decode_zero [simp]:
  "decode_v2_packed 0 = (0, 0)" "fst (decode_v3_slot0 0) = 0" "decode_shifted128 0 n = 0"
  by (simp_all add: decode_v2_packed_def decode_v3_slot0_def decode_shifted128_def Let_def)

lemma fle_zero [simp]: "fle (FZero b) (FZero c)"
  by (simp add: fle_def)

lemma unfetched_quote:
  assumes "cs_plan s (pm_idx meta) = Some plan" "unfetched s plan"
  shows "quote keccak lib s meta a zfo = Inr 0"
  using assms unfetched_read [OF assms(2)]
  by (cases plan) (auto simp: quote_def quote_cl_def plan_slots_def Let_def decode_v3_slot0_def)

lemma fdiv_zero: "fdiv (FZero b) y \<in> {FZero True, FZero False, FNaN}"
  by (cases y) (auto simp: fround_def)

lemma unfetched_spot_v2:
  assumes "cs_plan s (pm_idx meta) = Some (PV2Packed a sl)" "unfetched s (PV2Packed a sl)"
  shows "spot_rate s meta zfo = FZero False"
  using assms unfetched_read [OF assms(2)] by (simp add: spot_rate_def plan_slots_def)

section \<open>Coherent caches\<close>

text \<open>
  \<open>chain\<close> is the storage the caches were read from.  A coherent state caches only its values,
  has the two base slots of the pool, and has the net liquidity of every initialised tick of
  the words it knows, which lie in the protocol's range.
\<close>

type_synonym storage = "slot_key \<Rightarrow> u256"

definition net_slot :: "(u8 list \<Rightarrow> b256) \<Rightarrow> cl_tick_reader \<Rightarrow> int \<Rightarrow> slot_key" where
  "net_slot keccak r t =
     (tr_addr r, mapping_slot_signed keccak t (tr_ticks_base r) + (case tr_codec r of PackedCodec \<Rightarrow> 0 | TwoWordCodec \<Rightarrow> 1))"

definition coherent :: "(u8 list \<Rightarrow> b256) \<Rightarrow> storage \<Rightarrow> cl_plan \<Rightarrow> int \<Rightarrow> chain_state \<Rightarrow> bool" where
  "coherent keccak chain c spacing s \<longleftrightarrow>
     (\<forall>k v. cs_memo s k = Some v \<or> cs_ticks s k = Some v \<longrightarrow> v = chain k) \<and>
     cs_memo s (cl_addr c, cl_slot0 c) \<noteq> None \<and> cs_memo s (cl_addr c, cl_liquidity c) \<noteq> None \<and>
     (\<forall>k. tick_bit (cl_source keccak s (reader_of c)) k \<longrightarrow>
        cs_ticks s (net_slot keccak (reader_of c) (clamp_tick (k * spacing))) \<noteq> None)"

text \<open>The same state with nothing missing: every slot of the chain cached.\<close>

definition complete_state :: "storage \<Rightarrow> chain_state \<Rightarrow> chain_state" where
  "complete_state chain s = s\<lparr>cs_memo := (\<lambda>k. Some (chain k)), cs_ticks := (\<lambda>k. Some (chain k))\<rparr>"

lemma complete_read [simp]: "cs_read (complete_state chain s) a sl = chain (a, sl)"
  by (simp add: complete_state_def cs_read_def)

lemma coherent_read:
  assumes "coherent keccak chain c spacing s" "cs_memo s (a, sl) \<noteq> None \<or> cs_ticks s (a, sl) \<noteq> None"
  shows "cs_read s a sl = chain (a, sl)"
  using assms by (auto simp: coherent_def cs_read_def split: option.splits)

lemma reader_net_read:
  "reader_liquidity_net keccak s r t =
     (case tr_codec r of
        PackedCodec \<Rightarrow> high_i128 (cs_read s (fst (net_slot keccak r t)) (snd (net_slot keccak r t)))
      | TwoWordCodec \<Rightarrow> sint (decode_low128 (cs_read s (fst (net_slot keccak r t)) (snd (net_slot keccak r t)))))"
  by (simp add: reader_liquidity_net_def net_slot_def Let_def split: tick_codec.splits)

lemma coherent_src_le:
  assumes "coherent keccak chain c spacing s"
  shows "src_le spacing (cl_source keccak s (reader_of c)) (cl_source keccak (complete_state chain s) (reader_of c))"
proof -
  let ?r = "reader_of c"
  have words: "bitmap_word (cl_source keccak s ?r) w = None \<or>
      bitmap_word (cl_source keccak s ?r) w = bitmap_word (cl_source keccak (complete_state chain s) ?r) w" for w
    using assms
    by (cases "bitmap_word (cl_source keccak s ?r) w")
       (auto simp: cl_source_def read_tick_cache_checked_def coherent_def complete_state_def)
  have nets: "liquidity_net (cl_source keccak s ?r) t = liquidity_net (cl_source keccak (complete_state chain s) ?r) t"
    if "cs_ticks s (net_slot keccak ?r t) \<noteq> None" for t
  proof -
    have "cs_read s (fst (net_slot keccak ?r t)) (snd (net_slot keccak ?r t)) = chain (net_slot keccak ?r t)"
      using coherent_read [OF assms, of "fst (net_slot keccak ?r t)" "snd (net_slot keccak ?r t)"] that by simp
    then show ?thesis by (cases "tr_codec ?r") (simp_all add: cl_source_def reader_net_read)
  qed
  show ?thesis unfolding src_le_def using words nets assms by (auto simp: coherent_def)
qed

definition cl_walk ::
    "(u8 list \<Rightarrow> b256) \<Rightarrow> 'e v3lib \<Rightarrow> chain_state \<Rightarrow> pool_meta \<Rightarrow> cl_plan \<Rightarrow> u256 \<Rightarrow> bool \<Rightarrow> ('e, u256) eres" where
  "cl_walk keccak lib s meta c amt zfo =
     (let word0 = cs_read s (cl_addr c) (cl_slot0 c)
      in try_swap_src lib amt zfo (fst (decode_v3_slot0 word0)) (snd (decode_v3_slot0 word0))
           (decode_shifted128 (cs_read s (cl_addr c) (cl_liquidity c)) (cl_liq_shift c))
           (cl_fee_pips (cl_fee_src c) meta word0) (walk_spacing (cl_codec c) meta)
           (cl_source keccak s (reader_of c)))"

lemma quote_cl_walk:
  assumes "cs_plan s (pm_idx meta) = Some (PCl c)"
  shows "quote keccak lib s meta amt zfo =
    (if fst (decode_v3_slot0 (cs_read s (cl_addr c) (cl_slot0 c))) = 0 then Inr 0
     else rbind (cl_walk keccak lib s meta c amt zfo) (\<lambda>r. case r of Inr out \<Rightarrow> Inr out | Inl e \<Rightarrow> Inr 0))"
  using assms by (simp add: quote_def quote_cl_def cl_walk_def v3_get_amount_out_src_def Let_def split_def)

section \<open>Properties\<close>

text \<open>Quoting fails safe: a pool with no recipe, or none of whose slots was ever fetched, quotes exactly zero
  for every amount and direction.\<close>

lemma unfetched_quotes_zero:
  assumes "case cs_plan s (pm_idx meta) of None \<Rightarrow> True | Some plan \<Rightarrow> unfetched s plan"
  shows "quote keccak lib s meta amt zfo = Inr 0"
proof (cases "cs_plan s (pm_idx meta)")
  case None
  then show ?thesis by (simp add: quote_def)
next
  case (Some plan)
  then show ?thesis using assms by (intro unfetched_quote) simp_all
qed

theorem unfetched_quotes_zero_witness:
  "quote sample_hash sample_lib (set_plans [Some (PCl sample_cl_plan)] (state_new 5)) (sample_meta 0 7) 1000 True = Inr 0"
  by (rule unfetched_quotes_zero)
     (simp add: set_plans_def state_new_def cs_plan_def get_def idx_get_def sample_meta_def unfetched_def plan_slots_def)

text \<open>For a pool with packed reserves the quote read off the storage word is the exact constant-product
  output of the reserves packed in it, whatever the timestamp bits hold.\<close>
lemma packed_reserves_quote:
  assumes "cs_plan s (pm_idx meta) = Some (PV2Packed addr slot)" "cs_read s addr slot = pack_v2 r0 r1 ts"
    and "r0 \<noteq> 0" "r1 \<noteq> 0" "unat (pm_fee_bps meta) \<le> 10000" "unat amt < 2 ^ 112"
  shows "\<exists>w. quote keccak lib s meta amt zfo = Inr w \<and>
    unat w = v2_out (unat amt) (unat (if zfo then r0 else r1)) (unat (if zfo then r1 else r0)) (unat (pm_fee_bps meta))"
proof -
  define rin where "rin = (if zfo then r0 else r1)"
  define rout where "rout = (if zfo then r1 else r0)"
  have u: "unat (ucast (ucast r :: u128) :: u256) = unat r" "unat (ucast r :: u128) = unat r" for r :: "112 word"
    by (simp_all add: unat_ucast_up)
  have nz: "(ucast r :: u128) \<noteq> 0" "(ucast (ucast r :: u128) :: u256) \<noteq> 0" if "r \<noteq> 0" for r :: "112 word"
    using u [of r] that by (metis unat_eq_zero)+
  have lt: "unat r < 2 ^ 112" for r :: "112 word" using unsigned_less [of r, where 'a = nat] by simp
  have "quote keccak lib s meta amt zfo =
      v2_get_amount_out amt (ucast (ucast rin :: u128)) (ucast (ucast rout :: u128)) (pm_fee_bps meta)"
    using assms(1-4) nz by (simp add: quote_def decode_v2_pack rin_def rout_def)
  moreover have "rin \<noteq> 0" "rout \<noteq> 0" using assms(3,4) by (simp_all add: rin_def rout_def)
  ultimately show ?thesis
    using v2_get_amount_out_refines [OF assms(5), of amt "ucast (ucast rin :: u128)" "ucast (ucast rout :: u128)"]
      nz u v2_fits_u112 [OF assms(6) lt lt] unfolding rin_def [symmetric] rout_def [symmetric] by auto
qed

lemma packed_reserves_quote_witness:
  "\<exists>w. quote sample_hash sample_lib
      ((set_plans [Some (PV2Packed 50 8)] (state_new 5))\<lparr>cs_memo := [(50, 8) \<mapsto> pack_v2 1000 2000 99]\<rparr>)
      (sample_meta 0 7) 10 True = Inr w \<and> unat w = v2_out 10 1000 2000 30"
proof -
  let ?s = "(set_plans [Some (PV2Packed 50 8)] (state_new 5))\<lparr>cs_memo := [(50, 8) \<mapsto> pack_v2 1000 2000 99]\<rparr>"
  have "cs_plan ?s (pm_idx (sample_meta 0 7)) = Some (PV2Packed 50 8)"
    by (simp add: set_plans_def cs_plan_def get_def idx_get_def sample_meta_def)
  moreover have "cs_read ?s 50 8 = pack_v2 1000 2000 99" by (simp add: cs_read_def)
  ultimately show ?thesis
    using packed_reserves_quote [of ?s "sample_meta 0 7" 50 8 1000 2000 99 10 sample_hash sample_lib True]
    by (simp add: sample_meta_def)
qed


definition sample_chain :: storage where
  "sample_chain k = (if k = (7, 0) then pack_slot0 (2 ^ 96) 0 0 else if k = (7, 4) then 77 else 1)"

definition sample_cl_state :: chain_state where
  "sample_cl_state =
     (set_plans [Some (PCl sample_cl_plan)] (state_new 5))
       \<lparr>cs_memo := [(7, 0) \<mapsto> pack_slot0 (2 ^ 96) 0 0, (7, 4) \<mapsto> 77]\<rparr>"


text \<open>The conversion of a 256-bit amount to a float keeps its 52 leading bits: the float never exceeds the
  amount and is within a factor of 2^-51 of it, and zero is kept.\<close>

lemma u256_to_f64_close:
  "u256_to_f64 v = (if v = 0 then FZero False else FNum (of_int (top52 (uint v)))) \<and>
   (v = 0 \<or> top52 (uint v) \<le> uint v \<and> (uint v - top52 (uint v)) * 2 ^ 51 < uint v)"
proof -
  have "v = 0 \<or> 0 < uint v" by (metis uint_0_iff uint_ge_0 order_less_le)
  then show ?thesis using u256_to_f64_trunc [of v] top52_bounds [of "uint v"] by auto
qed

end
