(* ===== verification/Graph.thy ===== *)
theory Graph
  imports Quote
begin

text \<open>
  Offline cycle enumeration, \<^verbatim>\<open>src/routing/graph.rs\<close>: the token graph with its capped fan-out
  and the depth-first search for anchor-rooted cycles.  A hash map's iteration order is a
  parameter: \<open>pools\<close> lists the entries of the engine's address index in the order the
  iteration yields them.
\<close>

section \<open>The token graph\<close>

record edge =
  ed_pool :: pool_idx
  ed_token0 :: address
  ed_token1 :: address
  ed_liq :: f64

record graph_config =
  gc_max_hops :: nat
  gc_max_routes :: nat
  gc_pair_fanout :: nat

type_synonym adjacency = "address \<rightharpoonup> edge list"

definition pool_liq_proxy :: "chain_state \<Rightarrow> pool_idx \<Rightarrow> f64" where
  "pool_liq_proxy s idx =
     (case cs_plan s idx of
        Some (PV2Packed addr slot) \<Rightarrow>
          let (r0, r1) = decode_v2_packed (cs_read s addr slot)
          in fmul (f64_of_u128 r0) (f64_of_u128 r1)
      | Some (PV2TwoSlot addr r0) \<Rightarrow>
          let w0 = cs_read s addr r0;
              w1 = cs_read s addr (r0 + 1)
          in fmul (u256_to_f64 w0) (u256_to_f64 w1)
      | Some (PCl c) \<Rightarrow> f64_of_u128 (decode_shifted128 (cs_read s (cl_addr c) (cl_liquidity c)) (cl_liq_shift c))
      | None \<Rightarrow> f64_lit 0)"

definition push_edge :: "address \<Rightarrow> edge \<Rightarrow> adjacency \<Rightarrow> adjacency" where
  "push_edge t e adj = adj(t \<mapsto> (case adj t of Some es \<Rightarrow> es @ [e] | None \<Rightarrow> [e]))"

definition add_pool :: "chain_state \<Rightarrow> adjacency \<Rightarrow> pool_meta \<times> pool_idx \<Rightarrow> adjacency" where
  "add_pool s adj mi =
     (let (meta, idx) = mi;
          e = \<lparr>ed_pool = idx, ed_token0 = pm_token0 meta, ed_token1 = pm_token1 meta,
               ed_liq = pool_liq_proxy s idx\<rparr>
      in push_edge (pm_token1 meta) e (push_edge (pm_token0 meta) e adj))"

definition more_liquid :: "edge \<Rightarrow> edge \<Rightarrow> bool" where
  "more_liquid a b \<longleftrightarrow> flt (ed_liq b) (ed_liq a)"

definition cap_edges :: "nat \<Rightarrow> edge list \<Rightarrow> edge list" where
  "cap_edges pair_fanout es =
     (let sorted_es = sort_by more_liquid es;
          cap = pair_fanout * 8
      in if cap < length sorted_es then take cap sorted_es else sorted_es)"

definition adjacency_of :: "engine \<Rightarrow> chain_state \<Rightarrow> nat \<Rightarrow> (address \<times> pool_idx) list \<Rightarrow> adjacency res" where
  "adjacency_of e s pair_fanout pools =
     rbind (rmap (\<lambda>(_, idx). rbind (eng_meta e idx) (\<lambda>m. Inr (m, idx))) pools) (\<lambda>ms.
       let adj = foldl (add_pool s) Map.empty ms
       in Inr (\<lambda>t. map_option (cap_edges pair_fanout) (adj t)))"

section \<open>Depth-first enumeration\<close>

text \<open>
  The state the search threads: the routes found and the next id.  The loop over a node's edges
  may return early (the flag) or go on; path, used pools and visited tokens are pushed before a
  recursive call and popped after it, so they are passed by value.
\<close>

type_synonym dfs_state = "route list \<times> u32"

fun dfs_loop :: "(edge \<Rightarrow> dfs_state \<Rightarrow> dfs_state \<times> bool) \<Rightarrow> edge list \<Rightarrow> dfs_state \<Rightarrow> dfs_state" where
  "dfs_loop f [] st = st"
| "dfs_loop f (e # es) st = (case f e st of (st', stop) \<Rightarrow> if stop then st' else dfs_loop f es st')"

lemma dfs_loop_cong [fundef_cong]:
  "es = es' \<Longrightarrow> st = st' \<Longrightarrow> (\<And>e s. e \<in> set es' \<Longrightarrow> f e s = g e s) \<Longrightarrow> dfs_loop f es st = dfs_loop g es' st'"
  by (induction es arbitrary: es' st st') (auto split: prod.splits)

definition next_token :: "edge \<Rightarrow> address \<Rightarrow> address option" where
  "next_token e current =
     (if ed_token0 e = current then Some (ed_token1 e)
      else if ed_token1 e = current then Some (ed_token0 e)
      else None)"

definition edge_hop :: "edge \<Rightarrow> address \<Rightarrow> hop" where
  "edge_hop e current = \<lparr>hop_pool = ed_pool e, hop_zero_for_one = (ed_token0 e = current), hop_token_in = current\<rparr>"

function dfs ::
    "adjacency \<Rightarrow> address \<Rightarrow> nat \<Rightarrow> nat \<Rightarrow> address \<Rightarrow> hop list \<Rightarrow> pool_idx list \<Rightarrow> address list
      \<Rightarrow> dfs_state \<Rightarrow> dfs_state" where
  "dfs adj start max_hops max_routes current path used visited st =
     (if max_routes \<le> length (fst st) then st
      else if max_hops \<le> length path then st
      else case adj current of
        None \<Rightarrow> st
      | Some edges \<Rightarrow>
          dfs_loop (\<lambda>e st.
            if ed_pool e \<in> set used then (st, False)
            else case next_token e current of
                None \<Rightarrow> (st, False)
              | Some nxt \<Rightarrow>
                  if nxt = start then
                    if 2 \<le> length path + 1 then
                      let routes = fst st @ [\<lparr>rt_id = snd st, rt_anchor = start, rt_hops = path @ [edge_hop e current]\<rparr>]
                      in ((routes, snd st + 1), max_routes \<le> length routes)
                    else (st, False)
                  else if nxt \<in> set visited then (st, False)
                  else (dfs adj start max_hops max_routes nxt (path @ [edge_hop e current])
                          (used @ [ed_pool e]) (visited @ [nxt]) st, False))
            edges st)"
  by pat_completeness auto
termination
  by (relation "measure (\<lambda>(adj, start, max_hops, max_routes, current, path, used, visited, st). max_hops - length path)") auto

declare dfs.simps [simp del]

definition anchor_routes :: "adjacency \<Rightarrow> graph_config \<Rightarrow> address \<Rightarrow> route list" where
  "anchor_routes adj cfg anchor = fst (dfs adj anchor (gc_max_hops cfg) (gc_max_routes cfg) anchor [] [] [anchor] ([], 0))"

definition renumber :: "route list \<Rightarrow> route list" where
  "renumber routes = map (\<lambda>(i, r). r\<lparr>rt_id := of_nat i\<rparr>) (enumerate 0 routes)"

definition build_routes ::
    "engine \<Rightarrow> chain_state \<Rightarrow> graph_config \<Rightarrow> (address \<times> pool_idx) list \<Rightarrow> address list \<Rightarrow> route list res" where
  "build_routes e s cfg pools anchors =
     rbind (adjacency_of e s (gc_pair_fanout cfg) pools) (\<lambda>adj.
       Inr (renumber (concat (map (anchor_routes adj cfg) anchors))))"

section \<open>Loop rules\<close>

text \<open>\<open>J\<close> holds while the loop goes on, \<open>K\<close> of what it returns, early or not.\<close>

lemma dfs_loop_rule:
  assumes "J st"
    and "\<And>e st. e \<in> set es \<Longrightarrow> J st \<Longrightarrow> (case f e st of (st', stop) \<Rightarrow> if stop then K st' else J st')"
    and "\<And>st. J st \<Longrightarrow> K st"
  shows "K (dfs_loop f es st)"
  using assms(1,2)
proof (induction es arbitrary: st)
  case Nil
  then show ?case using assms(3) by simp
next
  case (Cons e es)
  obtain st' stop where f: "f e st = (st', stop)" by fastforce
  have "if stop then K st' else J st'" using Cons.prems(2) [of e st] Cons.prems(1) f by simp
  then show ?case using Cons.IH [of st'] Cons.prems(2) f by (cases stop) auto
qed

lemma dfs_loop_inv:
  assumes "J st" "\<And>e st. e \<in> set es \<Longrightarrow> J st \<Longrightarrow> J (fst (f e st))"
  shows "J (dfs_loop f es st)"
  by (rule dfs_loop_rule [where J = J, OF assms(1)]) (use assms(2) in \<open>fastforce split: prod.split\<close>)+

lemma dfs_loop_prefix:
  assumes "\<And>e st. e \<in> set es \<Longrightarrow> prefix (fst st) (fst (fst (f e st)))"
  shows "prefix (fst st) (fst (dfs_loop f es st))"
  by (rule dfs_loop_inv [where J = "\<lambda>s. prefix (fst st) (fst s)"]) (use assms prefix_order.trans in blast)+

text \<open>A loop that ends below the cap visited every edge.\<close>

lemma dfs_loop_visits:
  assumes "\<And>e st. e \<in> set es \<Longrightarrow> prefix (fst st) (fst (fst (f e st)))"
    and "\<And>e st. e \<in> set es \<Longrightarrow> snd (f e st) \<Longrightarrow> cap \<le> length (fst (fst (f e st)))"
    and "length (fst (dfs_loop f es st)) < cap" "e \<in> set es"
  shows "\<exists>st1. prefix (fst (fst (f e st1))) (fst (dfs_loop f es st))"
  using assms
proof (induction es arbitrary: st)
  case (Cons d es)
  obtain st' stop where f: "f d st = (st', stop)" by fastforce
  have go: "\<not> stop" using Cons.prems(2) [of d st] Cons.prems(3) f by auto
  have pre: "prefix (fst st') (fst (dfs_loop f es st'))"
    by (rule dfs_loop_prefix) (use Cons.prems(1) in auto)
  show ?case
  proof (cases "e = d")
    case True
    then show ?thesis using pre f go by (intro exI [of _ st]) auto
  next
    case False
    then show ?thesis using Cons.IH [of st'] Cons.prems f go by auto
  qed
qed simp

section \<open>What the search finds\<close>

definition edges_at :: "adjacency \<Rightarrow> address \<Rightarrow> edge list" where
  "edges_at adj a = (case adj a of None \<Rightarrow> [] | Some es \<Rightarrow> es)"

fun is_path :: "adjacency \<Rightarrow> address \<Rightarrow> hop list \<Rightarrow> address \<Rightarrow> bool" where
  "is_path adj a [] b \<longleftrightarrow> a = b"
| "is_path adj a (h # hs) b \<longleftrightarrow>
     (\<exists>e \<in> set (edges_at adj a). h = edge_hop e a \<and>
        (case next_token e a of None \<Rightarrow> False | Some c \<Rightarrow> is_path adj c hs b))"

definition is_cycle :: "adjacency \<Rightarrow> nat \<Rightarrow> address \<Rightarrow> hop list \<Rightarrow> bool" where
  "is_cycle adj max_hops a hops \<longleftrightarrow>
     2 \<le> length hops \<and> length hops \<le> max_hops \<and> is_path adj a hops a \<and>
     distinct (map hop_pool hops) \<and> distinct (map hop_token_in hops)"

lemma is_path_snoc:
  "is_path adj a hs c \<Longrightarrow> e \<in> set (edges_at adj c) \<Longrightarrow> next_token e c = Some b \<Longrightarrow> is_path adj a (hs @ [edge_hop e c]) b"
proof (induction hs arbitrary: a)
  case (Cons h hs)
  then obtain d where "d \<in> set (edges_at adj a)" "h = edge_hop d a"
    "case next_token d a of None \<Rightarrow> False | Some c' \<Rightarrow> is_path adj c' hs c" by auto
  then show ?case using Cons by (auto split: option.splits intro!: bexI [of _ d])
qed (auto intro!: bexI [of _ e])

lemma edge_hop_simps [simp]:
  "hop_pool (edge_hop e a) = ed_pool e" "hop_token_in (edge_hop e a) = a"
  by (simp_all add: edge_hop_def)

text \<open>The stack of one call: the path walked so far with its pools and tokens.\<close>

definition on_path :: "adjacency \<Rightarrow> address \<Rightarrow> address \<Rightarrow> hop list \<Rightarrow> pool_idx list \<Rightarrow> address list \<Rightarrow> bool" where
  "on_path adj start current path used visited \<longleftrightarrow>
     is_path adj start path current \<and> used = map hop_pool path \<and> distinct used \<and>
     visited = map hop_token_in path @ [current] \<and> distinct visited"

lemma on_path_start: "on_path adj a a [] [] [a]"
  by (simp add: on_path_def)

lemma on_path_push:
  assumes "on_path adj start current path used visited" "e \<in> set (edges_at adj current)"
    and "ed_pool e \<notin> set used" "next_token e current = Some nxt" "nxt \<notin> set visited"
  shows "on_path adj start nxt (path @ [edge_hop e current]) (used @ [ed_pool e]) (visited @ [nxt])"
  using assms by (auto simp: on_path_def is_path_snoc)

lemma on_path_close:
  assumes "on_path adj start current path used visited" "e \<in> set (edges_at adj current)"
    and "ed_pool e \<notin> set used" "next_token e current = Some start" "2 \<le> length path + 1" "length path < max_hops"
  shows "is_cycle adj max_hops start (path @ [edge_hop e current])"
  using assms by (auto simp: on_path_def is_path_snoc is_cycle_def)

text \<open>One turn of the loop, and the search as a loop over turns.\<close>

definition visit ::
    "adjacency \<Rightarrow> address \<Rightarrow> nat \<Rightarrow> nat \<Rightarrow> address \<Rightarrow> hop list \<Rightarrow> pool_idx list \<Rightarrow> address list
      \<Rightarrow> edge \<Rightarrow> dfs_state \<Rightarrow> dfs_state \<times> bool" where
  "visit adj start max_hops max_routes current path used visited e st =
     (if ed_pool e \<in> set used then (st, False)
      else case next_token e current of
          None \<Rightarrow> (st, False)
        | Some nxt \<Rightarrow>
            if nxt = start then
              if 2 \<le> length path + 1 then
                let routes = fst st @ [\<lparr>rt_id = snd st, rt_anchor = start, rt_hops = path @ [edge_hop e current]\<rparr>]
                in ((routes, snd st + 1), max_routes \<le> length routes)
              else (st, False)
            else if nxt \<in> set visited then (st, False)
            else (dfs adj start max_hops max_routes nxt (path @ [edge_hop e current])
                    (used @ [ed_pool e]) (visited @ [nxt]) st, False))"

lemma dfs_visit:
  "dfs adj start max_hops max_routes current path used visited st =
     (if max_routes \<le> length (fst st) \<or> max_hops \<le> length path then st
      else dfs_loop (visit adj start max_hops max_routes current path used visited) (edges_at adj current) st)"
  by (subst dfs.simps) (auto simp: visit_def [abs_def] edges_at_def split: option.split)

lemma visit_cases:
  obtains (skip) "visit adj start max_hops max_routes current path used visited e st = (st, False)"
  | (close) "ed_pool e \<notin> set used" "next_token e current = Some start" "2 \<le> length path + 1"
      "visit adj start max_hops max_routes current path used visited e st =
        ((fst st @ [\<lparr>rt_id = snd st, rt_anchor = start, rt_hops = path @ [edge_hop e current]\<rparr>], snd st + 1),
         max_routes \<le> Suc (length (fst st)))"
  | (descend) nxt where "ed_pool e \<notin> set used" "next_token e current = Some nxt" "nxt \<noteq> start" "nxt \<notin> set visited"
      "visit adj start max_hops max_routes current path used visited e st =
        (dfs adj start max_hops max_routes nxt (path @ [edge_hop e current]) (used @ [ed_pool e]) (visited @ [nxt]) st, False)"
proof (cases "next_token e current")
  case None
  then show ?thesis using skip by (simp add: visit_def)
next
  case (Some nxt)
  show ?thesis
  proof (cases "ed_pool e \<in> set used \<or> (nxt \<noteq> start \<and> nxt \<in> set visited) \<or> (nxt = start \<and> length path = 0)")
    case True
    then show ?thesis using skip Some by (auto simp: visit_def)
  next
    case False
    then show ?thesis using close descend [of nxt] Some by (cases "nxt = start") (simp_all add: visit_def Let_def Suc_le_eq)
  qed
qed

subsection \<open>Soundness\<close>

lemma dfs_sound:
  assumes "on_path adj start current path used visited"
    and "\<forall>r \<in> set (fst st). rt_anchor r = start \<and> is_cycle adj max_hops start (rt_hops r)"
  shows "\<forall>r \<in> set (fst (dfs adj start max_hops max_routes current path used visited st)).
    rt_anchor r = start \<and> is_cycle adj max_hops start (rt_hops r)"
  using assms
proof (induction "max_hops - length path" arbitrary: current path used visited st rule: less_induct)
  case less
  define good where "good s \<longleftrightarrow> (\<forall>r \<in> set (fst s). rt_anchor r = start \<and> is_cycle adj max_hops start (rt_hops r))"
    for s :: dfs_state
  have turn: "good (fst (visit adj start max_hops max_routes current path used visited d s))"
    if d: "d \<in> set (edges_at adj current)" and g: "good s" and h: "length path < max_hops" for d s
  proof (cases rule: visit_cases [of adj start max_hops max_routes current path used visited d s])
    case close
    then show ?thesis using g on_path_close [OF less.prems(1) d close(1,2,3) h] by (auto simp: good_def)
  next
    case (descend nxt)
    have "good (dfs adj start max_hops max_routes nxt (path @ [edge_hop d current]) (used @ [ed_pool d]) (visited @ [nxt]) s)"
      unfolding good_def
      by (rule less.hyps) (use h g on_path_push [OF less.prems(1) d descend(1,2,4)] in \<open>auto simp: good_def\<close>)
    then show ?thesis by (simp add: descend)
  qed (use g in simp)
  have "good (dfs_loop (visit adj start max_hops max_routes current path used visited) (edges_at adj current) st)"
    if "length path < max_hops"
  proof (rule dfs_loop_inv [where J = good])
    show "good st" using less.prems(2) by (simp add: good_def)
  qed (rule turn [OF _ _ that])
  then show ?case using less.prems(2) unfolding dfs_visit [of _ _ _ _ current] good_def by simp
qed

subsection \<open>The cap\<close>

lemma dfs_prefix: "prefix (fst st) (fst (dfs adj start max_hops max_routes current path used visited st))"
proof (induction "max_hops - length path" arbitrary: current path used visited st rule: less_induct)
  case less
  have turn: "prefix (fst s) (fst (fst (visit adj start max_hops max_routes current path used visited d s)))"
    if "length path < max_hops" for d s
    by (cases rule: visit_cases [of adj start max_hops max_routes current path used visited d s])
      (use that in \<open>simp_all add: less.hyps\<close>)
  show ?case unfolding dfs_visit [of _ _ _ _ current] by (simp add: dfs_loop_prefix turn)
qed

lemma visit_prefix: "prefix (fst st) (fst (fst (visit adj start max_hops max_routes current path used visited e st)))"
  by (cases rule: visit_cases [of adj start max_hops max_routes current path used visited e st]) (simp_all add: dfs_prefix)

lemma visit_stop:
  "snd (visit adj start max_hops max_routes current path used visited e st) \<Longrightarrow>
     max_routes \<le> length (fst (fst (visit adj start max_hops max_routes current path used visited e st)))"
  by (cases rule: visit_cases [of adj start max_hops max_routes current path used visited e st]) simp_all

text \<open>
  The early return only leaves the innermost loop: each enclosing loop may still close one more
  cycle before it notices the cap.
\<close>

lemma dfs_bound:
  assumes "path \<noteq> []"
  shows "length (fst (dfs adj start max_hops max_routes current path used visited st)) \<le>
    max (length (fst st)) (max_routes + (max_hops - 1 - length path))"
  using assms
proof (induction "max_hops - length path" arbitrary: current path used visited st rule: less_induct)
  case less
  define J where "J s \<longleftrightarrow> length (fst s) < max_routes + (max_hops - 1 - length path)" for s :: dfs_state
  define K where "K s \<longleftrightarrow> length (fst s) \<le> max_routes + (max_hops - 1 - length path)" for s :: dfs_state
  have turn: "case visit adj start max_hops max_routes current path used visited d s of (s', stop) \<Rightarrow> if stop then K s' else J s'"
    if h: "length path < max_hops" and j: "J s" for d s
  proof (cases rule: visit_cases [of adj start max_hops max_routes current path used visited d s])
    case (descend nxt)
    let ?s' = "dfs adj start max_hops max_routes nxt (path @ [edge_hop d current]) (used @ [ed_pool d]) (visited @ [nxt]) s"
    have "length (fst ?s') \<le> max (length (fst s)) (max_routes + (max_hops - 1 - length (path @ [edge_hop d current])))"
      by (rule less.hyps) (use h in auto)
    moreover have "?s' = s" if "max_hops \<le> Suc (length path)" using that by (simp add: dfs_visit [of _ _ _ _ nxt])
    ultimately have "J ?s'" using j h by (cases "max_hops \<le> Suc (length path)") (auto simp: J_def)
    then show ?thesis by (simp add: descend)
  qed (use j h in \<open>auto simp: J_def K_def\<close>)
  have "K (dfs_loop (visit adj start max_hops max_routes current path used visited) (edges_at adj current) st)"
    if "length path < max_hops" "length (fst st) < max_routes"
    by (rule dfs_loop_rule [where J = J]) (use that turn in \<open>auto simp: J_def K_def\<close>)
  then show ?case unfolding dfs_visit [of _ _ _ _ current] by (auto simp: K_def)
qed

lemma anchor_routes_bound: "length (anchor_routes adj cfg a) \<le> gc_max_routes cfg + (gc_max_hops cfg - 2)"
proof -
  let ?H = "gc_max_hops cfg" and ?R = "gc_max_routes cfg"
  define J where "J s \<longleftrightarrow> length (fst s) \<le> ?R + (?H - 2)" for s :: dfs_state
  have "J (fst (visit adj a ?H ?R a [] [] [a] d s))" if "J s" for d s
  proof (cases rule: visit_cases [of adj a ?H ?R a "[]" "[]" "[a]" d s])
    case (descend nxt)
    show ?thesis using dfs_bound [of "[edge_hop d a]" adj a ?H ?R nxt "[ed_pool d]" "[a, nxt]" s] that
      by (auto simp: descend J_def)
  qed (use that in simp_all)
  then have "J (dfs_loop (visit adj a ?H ?R a [] [] [a]) (edges_at adj a) ([], 0))"
    by (intro dfs_loop_inv [where J = J]) (simp_all add: J_def)
  then show ?thesis unfolding anchor_routes_def dfs_visit [of _ _ _ _ a] by (auto simp: J_def)
qed

subsection \<open>Completeness below the cap\<close>

lemma is_path_head: "is_path adj a hs b \<Longrightarrow> hs \<noteq> [] \<Longrightarrow> hop_token_in (hd hs) = a"
  by (cases hs) auto

lemma dfs_complete:
  assumes "on_path adj start current path used visited" "is_path adj current rest start" "rest \<noteq> []"
    and "2 \<le> length (path @ rest)" "length (path @ rest) \<le> max_hops"
    and "distinct (map hop_pool (path @ rest))" "distinct (map hop_token_in (path @ rest))"
    and "length (fst (dfs adj start max_hops max_routes current path used visited st)) < max_routes"
  shows "path @ rest \<in> rt_hops ` set (fst (dfs adj start max_hops max_routes current path used visited st))"
  using assms
proof (induction rest arbitrary: current path used visited st)
  case (Cons h hs)
  let ?v = "visit adj start max_hops max_routes current path used visited"
  obtain e c where e: "e \<in> set (edges_at adj current)" "h = edge_hop e current" "next_token e current = Some c"
    "is_path adj c hs start"
    using Cons.prems(2) by (auto split: option.splits)
  let ?final = "dfs_loop ?v (edges_at adj current) st"
  have below: "length (fst st) < max_routes"
    using Cons.prems(8) dfs_prefix [THEN prefix_length_le] le_less_trans by blast
  have f: "dfs adj start max_hops max_routes current path used visited st = ?final"
    using below Cons.prems(5) by (simp add: dfs_visit [of _ _ _ _ current])
  obtain st1 where p: "prefix (fst (fst (?v e st1))) (fst ?final)"
    using dfs_loop_visits [of "edges_at adj current" ?v max_routes st e, OF visit_prefix visit_stop] Cons.prems(8) e(1) f
    by auto
  have sub: "set (fst (fst (?v e st1))) \<subseteq> set (fst ?final)" using p by (rule set_mono_prefix)
  have pool: "ed_pool e \<notin> set used" using Cons.prems(1,6) e(2) by (auto simp: on_path_def)
  have first: "start \<in> set (map hop_token_in (path @ [h]))"
  proof (cases path)
    case Nil
    then show ?thesis using Cons.prems(1) e(2) by (simp add: on_path_def)
  next
    case (Cons d ds)
    then show ?thesis using Cons.prems(1) is_path_head [of adj start path current] by (simp add: on_path_def)
  qed
  show ?case
  proof (cases "hs = []")
    case True
    then have "c = start" using e(4) by simp
    then have "path @ [h] \<in> rt_hops ` set (fst (fst (?v e st1)))"
      using pool e(2,3) Cons.prems(4) True by (auto simp: visit_def Let_def)
    then show ?thesis using sub f True by auto
  next
    case False
    have c: "hop_token_in (hd hs) = c" using is_path_head [OF e(4) False] .
    then have cin: "c \<in> set (map hop_token_in hs)" using False by (metis hd_in_set image_eqI list.set_map)
    have vis: "c \<notin> set visited" "c \<noteq> start"
      using cin first Cons.prems(1,7) e(2) by (auto simp: on_path_def)
    let ?child = "dfs adj start max_hops max_routes c (path @ [edge_hop e current]) (used @ [ed_pool e]) (visited @ [c]) st1"
    have v: "?v e st1 = (?child, False)" using pool e(3) vis by (simp add: visit_def)
    have "(path @ [h]) @ hs \<in> rt_hops ` set (fst ?child)"
      unfolding e(2)
    proof (rule Cons.IH)
      show "on_path adj start c (path @ [edge_hop e current]) (used @ [ed_pool e]) (visited @ [c])"
        by (rule on_path_push [OF Cons.prems(1) e(1) pool e(3) vis(1)])
      show "length (fst ?child) < max_routes"
        using p v prefix_length_le [OF p] Cons.prems(8) f by simp
    qed (use e False Cons.prems in simp_all)
    then show ?thesis using sub v f by auto
  qed
qed simp

section \<open>Cycles over the registry\<close>

text \<open>
  The specification, stated on the registry alone: a walk along pool sides, and a cycle that uses
  no pool and enters no token twice.
\<close>

fun route_walk :: "engine \<Rightarrow> address \<Rightarrow> hop list \<Rightarrow> address \<Rightarrow> bool" where
  "route_walk e a [] b \<longleftrightarrow> a = b"
| "route_walk e a (h # hs) b \<longleftrightarrow> hop_token_in h = a \<and>
     (case eng_meta e (hop_pool h) of
        Inl _ \<Rightarrow> False
      | Inr m \<Rightarrow>
          if hop_zero_for_one h then pm_token0 m = a \<and> route_walk e (pm_token1 m) hs b
          else pm_token0 m \<noteq> a \<and> pm_token1 m = a \<and> route_walk e (pm_token0 m) hs b)"

definition arb_cycle :: "engine \<Rightarrow> pool_idx set \<Rightarrow> nat \<Rightarrow> address \<Rightarrow> hop list \<Rightarrow> bool" where
  "arb_cycle e pools max_hops a hops \<longleftrightarrow>
     2 \<le> length hops \<and> length hops \<le> max_hops \<and> route_walk e a hops a \<and> hop_pool ` set hops \<subseteq> pools \<and>
     distinct (map hop_pool hops) \<and> distinct (map hop_token_in hops)"

definition degree :: "engine \<Rightarrow> (address \<times> pool_idx) list \<Rightarrow> address \<Rightarrow> nat" where
  "degree e pools t =
     sum_list (map (\<lambda>(_, idx). case eng_meta e idx of
         Inl _ \<Rightarrow> 0
       | Inr m \<Rightarrow> (if pm_token0 m = t then 1 else 0) + (if pm_token1 m = t then 1 else 0)) pools)"

definition edge_of :: "chain_state \<Rightarrow> pool_meta \<Rightarrow> pool_idx \<Rightarrow> edge" where
  "edge_of s m idx = \<lparr>ed_pool = idx, ed_token0 = pm_token0 m, ed_token1 = pm_token1 m, ed_liq = pool_liq_proxy s idx\<rparr>"

lemma edge_of_simps [simp]:
  "ed_pool (edge_of s m i) = i" "ed_token0 (edge_of s m i) = pm_token0 m" "ed_token1 (edge_of s m i) = pm_token1 m"
  by (simp_all add: edge_of_def)

lemma edges_at_push: "edges_at (push_edge t e adj) a = edges_at adj a @ (if t = a then [e] else [])"
  by (auto simp: edges_at_def push_edge_def split: option.splits)

lemma edges_at_add_pool:
  "edges_at (add_pool s adj (m, i)) a =
     edges_at adj a @ (if pm_token0 m = a then [edge_of s m i] else []) @ (if pm_token1 m = a then [edge_of s m i] else [])"
  by (simp add: add_pool_def Let_def edges_at_push edge_of_def)

lemma edges_at_foldl:
  "edges_at (foldl (add_pool s) adj ms) a =
     edges_at adj a @ concat (map (\<lambda>(m, i). (if pm_token0 m = a then [edge_of s m i] else []) @
       (if pm_token1 m = a then [edge_of s m i] else [])) ms)"
  by (induction ms arbitrary: adj) (auto simp: edges_at_add_pool)

lemma set_cap_edges: "set (cap_edges n es) \<subseteq> set es"
  unfolding cap_edges_def Let_def using set_take_subset [of "n * 8" "sort_by more_liquid es"] by auto

lemma cap_edges_all: "length es \<le> n * 8 \<Longrightarrow> set (cap_edges n es) = set es"
  by (simp add: cap_edges_def Let_def)

lemma adjacency_edges:
  assumes "adjacency_of e s n pools = Inr adj"
  shows "set (edges_at adj a) \<subseteq> {edge_of s m i | m i. i \<in> snd ` set pools \<and> eng_meta e i = Inr m \<and> a \<in> {pm_token0 m, pm_token1 m}}"
    and "degree e pools a \<le> n * 8 \<Longrightarrow>
      {edge_of s m i | m i. i \<in> snd ` set pools \<and> eng_meta e i = Inr m \<and> a \<in> {pm_token0 m, pm_token1 m}} \<subseteq> set (edges_at adj a)"
proof -
  let ?f = "\<lambda>(_ :: address, idx). rbind (eng_meta e idx) (\<lambda>m. Inr (m, idx))"
  obtain ms where ms: "rmap ?f pools = Inr ms" and adj: "adj = (\<lambda>t. map_option (cap_edges n) (foldl (add_pool s) Map.empty ms t))"
    using assms by (auto simp: adjacency_of_def Let_def)
  have mem: "(m, i) \<in> set ms \<longleftrightarrow> i \<in> snd ` set pools \<and> eng_meta e i = Inr m" for m i
  proof -
    have "(m, i) \<in> set ms \<longleftrightarrow> (\<exists>a. (a, i) \<in> set pools) \<and> eng_meta e i = Inr m"
      using ms by (induction pools arbitrary: ms) auto
    then show ?thesis by force
  qed
  have deg: "length (edges_at (foldl (add_pool s) Map.empty ms) a) = degree e pools a"
    using ms unfolding edges_at_foldl degree_def by (induction pools arbitrary: ms) (auto simp: edges_at_def)
  have raw: "set (edges_at (foldl (add_pool s) Map.empty ms) a) =
      {edge_of s m i | m i. i \<in> snd ` set pools \<and> eng_meta e i = Inr m \<and> a \<in> {pm_token0 m, pm_token1 m}}"
  proof -
    have "set (edges_at (foldl (add_pool s) Map.empty ms) a) = {edge_of s m i | m i. (m, i) \<in> set ms \<and> a \<in> {pm_token0 m, pm_token1 m}}"
      unfolding edges_at_foldl by (force simp: edges_at_def split: if_splits)
    then show ?thesis by (simp add: mem conj_assoc)
  qed
  have ea: "edges_at adj a = (case foldl (add_pool s) Map.empty ms a of None \<Rightarrow> [] | Some es \<Rightarrow> cap_edges n es)"
    by (simp add: edges_at_def adj split: option.split)
  show "set (edges_at adj a) \<subseteq> {edge_of s m i | m i. i \<in> snd ` set pools \<and> eng_meta e i = Inr m \<and> a \<in> {pm_token0 m, pm_token1 m}}"
    unfolding raw [symmetric] ea using set_cap_edges by (auto simp: edges_at_def split: option.splits)
  show "{edge_of s m i | m i. i \<in> snd ` set pools \<and> eng_meta e i = Inr m \<and> a \<in> {pm_token0 m, pm_token1 m}} \<subseteq> set (edges_at adj a)"
    if "degree e pools a \<le> n * 8"
    unfolding raw [symmetric] ea using that deg cap_edges_all [of _ n] by (auto simp: edges_at_def split: option.splits)
qed

lemma is_path_walk:
  assumes "adjacency_of e s n pools = Inr adj"
  shows "is_path adj a hops b \<Longrightarrow> route_walk e a hops b \<and> hop_pool ` set hops \<subseteq> snd ` set pools"
proof (induction hops arbitrary: a)
  case (Cons h hs)
  then obtain d where d: "d \<in> set (edges_at adj a)" "h = edge_hop d a"
    "case next_token d a of None \<Rightarrow> False | Some c \<Rightarrow> is_path adj c hs b" by auto
  obtain m i where m: "d = edge_of s m i" "i \<in> snd ` set pools" "eng_meta e i = Inr m" "a \<in> {pm_token0 m, pm_token1 m}"
    using adjacency_edges(1) [OF assms, of a] d(1) by blast
  show ?case using d m Cons.IH by (auto simp: next_token_def edge_hop_def split: if_splits)
qed simp

lemma walk_is_path:
  assumes "adjacency_of e s n pools = Inr adj" "\<And>t. degree e pools t \<le> n * 8"
  shows "route_walk e a hops b \<Longrightarrow> hop_pool ` set hops \<subseteq> snd ` set pools \<Longrightarrow> is_path adj a hops b"
proof (induction hops arbitrary: a)
  case (Cons h hs)
  obtain m where m: "eng_meta e (hop_pool h) = Inr m" "hop_token_in h = a" using Cons.prems(1) by (auto split: sum.splits)
  then have side: "a \<in> {pm_token0 m, pm_token1 m}" using Cons.prems(1) by (auto split: if_splits)
  let ?d = "edge_of s m (hop_pool h)"
  have "?d \<in> set (edges_at adj a)" using adjacency_edges(2) [OF assms(1,2), of a] m side Cons.prems(2) by auto
  moreover have "h = edge_hop ?d a" using m Cons.prems(1) by (cases h) (auto simp: edge_hop_def split: if_splits)
  moreover have "case next_token ?d a of None \<Rightarrow> False | Some c \<Rightarrow> is_path adj c hs b"
    using m Cons by (auto simp: next_token_def split: if_splits)
  ultimately show ?case by auto
qed simp

lemma length_renumber [simp]: "length (renumber rs) = length rs"
  by (simp add: renumber_def)

lemma renumber_nth: "i < length rs \<Longrightarrow> renumber rs ! i = (rs ! i)\<lparr>rt_id := of_nat i\<rparr>"
  by (simp add: renumber_def nth_enumerate_eq)

lemma map_renumber: "(\<And>r i. f (r\<lparr>rt_id := i\<rparr>) = f r) \<Longrightarrow> map f (renumber rs) = map f rs"
  by (rule nth_equalityI) (simp_all add: renumber_nth)

section \<open>Properties\<close>

lemma anchor_routes_sound:
  "r \<in> set (anchor_routes adj cfg a) \<Longrightarrow> rt_anchor r = a \<and> is_cycle adj (gc_max_hops cfg) a (rt_hops r)"
  using dfs_sound [OF on_path_start, where st = "([], 0)"] unfolding anchor_routes_def by simp

lemma anchor_routes_complete:
  assumes "is_cycle adj (gc_max_hops cfg) a hops" "length (anchor_routes adj cfg a) < gc_max_routes cfg"
  shows "hops \<in> rt_hops ` set (anchor_routes adj cfg a)"
proof -
  have "[] @ hops \<in> rt_hops ` set (anchor_routes adj cfg a)"
    unfolding anchor_routes_def
    by (rule dfs_complete) (use assms in \<open>auto simp: is_cycle_def anchor_routes_def on_path_start\<close>)
  then show ?thesis by simp
qed

lemma is_cycle_arb:
  assumes "adjacency_of e s n pools = Inr adj"
  shows "is_cycle adj h a hops \<Longrightarrow> arb_cycle e (snd ` set pools) h a hops"
    and "(\<And>t. degree e pools t \<le> n * 8) \<Longrightarrow> arb_cycle e (snd ` set pools) h a hops \<Longrightarrow> is_cycle adj h a hops"
  using is_path_walk [OF assms, of a hops a] walk_is_path [OF assms, of a hops a]
  by (auto simp: is_cycle_def arb_cycle_def)

definition route_key :: "route \<Rightarrow> address \<times> hop list" where
  "route_key r = (rt_anchor r, rt_hops r)"

lemma build_routes_Inr:
  assumes "build_routes e s cfg pools anchors = Inr routes"
  obtains adj where "adjacency_of e s (gc_pair_fanout cfg) pools = Inr adj"
    "map route_key routes = map route_key (concat (map (anchor_routes adj cfg) anchors))"
    "routes = renumber (concat (map (anchor_routes adj cfg) anchors))"
  using assms by (auto simp: build_routes_def map_renumber route_key_def)

text \<open>A triangle of tokens 1, 2, 3 with a doubled side: the enumeration run on a concrete registry.\<close>

definition sample_engine :: engine where
  "sample_engine = empty_engine\<lparr>eng_metas :=
     [sample_meta 0 10, sample_meta 1 11, (sample_meta 2 12)\<lparr>pm_token0 := 2, pm_token1 := 3\<rparr>,
      (sample_meta 3 13)\<lparr>pm_token0 := 3, pm_token1 := 1\<rparr>]\<rparr>"

definition sample_pools :: "(address \<times> pool_idx) list" where
  "sample_pools = [(12, 2), (10, 0), (13, 3), (11, 1)]"

definition sample_cfg :: "nat \<Rightarrow> graph_config" where
  "sample_cfg cap = \<lparr>gc_max_hops = 3, gc_max_routes = cap, gc_pair_fanout = 8\<rparr>"

definition sample_routes :: "nat \<Rightarrow> route list" where
  "sample_routes cap = (case build_routes sample_engine (state_new 0) (sample_cfg cap) sample_pools [1] of Inr rs \<Rightarrow> rs | Inl _ \<Rightarrow> [])"

lemma sample_build:
  "build_routes sample_engine (state_new 0) (sample_cfg 9) sample_pools [1] = Inr (sample_routes 9)"
  "length (sample_routes 9) = 6"
  "map hop_pool (rt_hops (sample_routes 9 ! 0)) = [0, 2, 3]"
  by code_simp+

lemma degree_le: "degree e pools t \<le> 2 * length pools"
  by (induction pools) (auto simp: degree_def split: sum.splits)

definition diamond :: adjacency where
  "diamond = [1 \<mapsto> [edge_of (state_new 0) (sample_meta 0 10) 0],
     2 \<mapsto> [edge_of (state_new 0) ((sample_meta 2 12)\<lparr>pm_token0 := 2, pm_token1 := 3\<rparr>) 2, edge_of (state_new 0) (sample_meta 1 11) 1],
     3 \<mapsto> [edge_of (state_new 0) ((sample_meta 3 13)\<lparr>pm_token0 := 3, pm_token1 := 1\<rparr>) 3]]"

lemma diamond_overshoots: "length (anchor_routes diamond (sample_cfg 1) 1) = 2"
  by code_simp

lemma build_routes_sound:
  assumes "build_routes e s cfg pools anchors = Inr routes"
  shows "(\<forall>r \<in> set routes. rt_anchor r \<in> set anchors \<and>
      arb_cycle e (snd ` set pools) (gc_max_hops cfg) (rt_anchor r) (rt_hops r)) \<and>
    (length routes < 2 ^ 32 \<longrightarrow> numbered routes (eng_len e))"
proof -
  obtain adj where adj: "adjacency_of e s (gc_pair_fanout cfg) pools = Inr adj"
    and k: "map route_key routes = map route_key (concat (map (anchor_routes adj cfg) anchors))"
    and rn: "routes = renumber (concat (map (anchor_routes adj cfg) anchors))"
    using build_routes_Inr [OF assms] .
  have sound: "rt_anchor r \<in> set anchors \<and> arb_cycle e (snd ` set pools) (gc_max_hops cfg) (rt_anchor r) (rt_hops r)"
    if r: "r \<in> set routes" for r
  proof -
    have "route_key r \<in> set (map route_key (concat (map (anchor_routes adj cfg) anchors)))"
      using r unfolding k [symmetric] by simp
    then obtain a q where "a \<in> set anchors" "q \<in> set (anchor_routes adj cfg a)" "route_key r = route_key q"
      by auto
    then show ?thesis using anchor_routes_sound is_cycle_arb(1) [OF adj] by (auto simp: route_key_def)
  qed
  have hop: "idx_get (hop_pool h) < eng_len e" if "route_walk e a hs b" "h \<in> set hs" for a b h hs
    using that
  proof (induction hs arbitrary: a)
    case (Cons k hs)
    have "idx_get (hop_pool k) < eng_len e" using Cons.prems(1) by (auto simp: eng_meta_def eng_len_def split: sum.splits)
    then show ?case using Cons by (auto split: sum.splits if_splits)
  qed simp
  have "numbered routes (eng_len e)" if "length routes < 2 ^ 32"
    using that sound hop rn unfolding numbered_def arb_cycle_def by (metis length_renumber renumber_nth route.select_convs(1) route.surjective route.update_convs(1))
  then show ?thesis using sound by blast
qed

text \<open>Route building never invents a cycle: every route starts and ends at one of the anchors,
  follows registered pools from side to side, has between two and max_hops hops and uses no pool
  and enters no token twice.  Its ids are its positions, so the store over it is well indexed.\<close>
lemma routes_sound:
  assumes "build_routes e s cfg pools anchors = Inr routes"
  shows "(\<forall>r \<in> set routes. rt_anchor r \<in> set anchors \<and>
      arb_cycle e (snd ` set pools) (gc_max_hops cfg) (rt_anchor r) (rt_hops r)) \<and>
    (length routes < 2 ^ 32 \<longrightarrow> numbered routes (eng_len e))"
  by (rule build_routes_sound [OF assms])

theorem routes_sound_witness:
  "arb_cycle sample_engine (snd ` set sample_pools) 3 1 (rt_hops (sample_routes 9 ! 0)) \<and> numbered (sample_routes 9) 4"
proof
  have r: "sample_routes 9 ! 0 \<in> set (sample_routes 9)" by (rule nth_mem) (simp add: sample_build)
  show "arb_cycle sample_engine (snd ` set sample_pools) 3 1 (rt_hops (sample_routes 9 ! 0))"
    using routes_sound [OF sample_build(1)] r by (auto simp: sample_cfg_def)
  show "numbered (sample_routes 9) 4"
  proof -
    have "eng_len sample_engine = 4" by code_simp
    then show ?thesis using routes_sound [OF sample_build(1), THEN conjunct2] sample_build(2) by simp
  qed
qed

text \<open>C6. Below both caps (no node with more edges than the fan-out keeps, fewer routes than
  max_routes) route building is exact: it returns precisely the arbitrage cycles of the registry
  through the configured anchors.\<close>
theorem routes_complete:
  assumes "build_routes e s cfg pools anchors = Inr routes"
    and "\<forall>t. degree e pools t \<le> gc_pair_fanout cfg * 8" "length routes < gc_max_routes cfg"
  shows "(\<lambda>r. (rt_anchor r, rt_hops r)) ` set routes =
    {(a, hops). a \<in> set anchors \<and> arb_cycle e (snd ` set pools) (gc_max_hops cfg) a hops}"
proof -
  obtain adj where adj: "adjacency_of e s (gc_pair_fanout cfg) pools = Inr adj"
    and k: "map route_key routes = map route_key (concat (map (anchor_routes adj cfg) anchors))"
    and rn: "routes = renumber (concat (map (anchor_routes adj cfg) anchors))"
    using build_routes_Inr [OF assms(1)] .
  have keys: "route_key ` set routes = (\<Union>a \<in> set anchors. route_key ` set (anchor_routes adj cfg a))"
    using arg_cong [OF k, of set] by auto
  have below: "length (anchor_routes adj cfg a) < gc_max_routes cfg" if "a \<in> set anchors" for a
  proof -
    have "length (anchor_routes adj cfg a) \<le> sum_list (map (\<lambda>a. length (anchor_routes adj cfg a)) anchors)"
      using that by (intro member_le_sum_list) auto
    also have "\<dots> = length routes" by (simp add: rn length_concat comp_def)
    finally show ?thesis using assms(3) by simp
  qed
  have "route_key ` set (anchor_routes adj cfg a) = {a} \<times> {hops. arb_cycle e (snd ` set pools) (gc_max_hops cfg) a hops}"
    if a: "a \<in> set anchors" for a
  proof -
    have "rt_hops ` set (anchor_routes adj cfg a) = {hops. arb_cycle e (snd ` set pools) (gc_max_hops cfg) a hops}"
      using anchor_routes_sound is_cycle_arb [OF adj] assms(2) anchor_routes_complete [OF _ below [OF a]] by blast
    moreover have "route_key ` set (anchor_routes adj cfg a) = {a} \<times> rt_hops ` set (anchor_routes adj cfg a)"
      using anchor_routes_sound by (fastforce simp: route_key_def)
    ultimately show ?thesis by simp
  qed
  then have "route_key ` set routes = {(a, hops). a \<in> set anchors \<and> arb_cycle e (snd ` set pools) (gc_max_hops cfg) a hops}"
    unfolding keys by auto
  then show ?thesis by (simp add: route_key_def [abs_def])
qed

theorem routes_complete_witness:
  "(1, rt_hops (sample_routes 9 ! 0)) \<in> {(a, hops). a \<in> set [1] \<and> arb_cycle sample_engine (snd ` set sample_pools) 3 a hops}"
proof -
  have r: "sample_routes 9 ! 0 \<in> set (sample_routes 9)" by (rule nth_mem) (simp add: sample_build)
  have a: "rt_anchor (sample_routes 9 ! 0) = 1" by code_simp
  have "\<forall>t. degree sample_engine sample_pools t \<le> gc_pair_fanout (sample_cfg 9) * 8"
    by (intro allI order_trans [OF degree_le]) (simp add: sample_cfg_def sample_pools_def)
  from routes_complete [OF sample_build(1) this]
  show ?thesis using r a by (force simp: sample_cfg_def sample_build(2))
qed

text \<open>C40. One anchor's enumeration overshoots max_routes by at most max_hops - 2 routes:
  the early return leaves the innermost loop only, so each enclosing loop may close one cycle more.  The bound is
  reached: with a cap of one route, a concrete graph yields two.\<close>
theorem routes_cap:
  "length (anchor_routes adj cfg a) \<le> gc_max_routes cfg + (gc_max_hops cfg - 2) \<and>
   length (anchor_routes diamond (sample_cfg 1) 1) = 1 + (3 - 2)"
  using anchor_routes_bound diamond_overshoots by auto

end
