(* ===== verification/Optimizer.thy ===== *)
theory Optimizer
  imports Graph
begin

text \<open>
  Input sizing, \<^verbatim>\<open>src/routing/optimizer.rs\<close>: chained quotes of a route, the spot-rate product
  of the first gate, the closed form for constant-product chains, the ternary search for the rest
  and the exact check that turns a size into an opportunity.
\<close>

record opportunity =
  op_route_id :: u32
  op_amount_in :: u256
  op_gross_out :: u256
  op_gross_profit :: u256

section \<open>Chained quotes\<close>

fun quote_hops ::
    "(u8 list \<Rightarrow> b256) \<Rightarrow> 'e v3lib \<Rightarrow> engine \<Rightarrow> chain_state \<Rightarrow> hop list \<Rightarrow> u256 \<Rightarrow> u256 option res" where
  "quote_hops keccak lib e s [] amt = Inr (Some amt)"
| "quote_hops keccak lib e s (h # hs) amt =
     rbind (eng_meta e (hop_pool h)) (\<lambda>meta.
     rbind (quote keccak lib s meta amt (hop_zero_for_one h)) (\<lambda>out.
       if out = 0 then Inr None else quote_hops keccak lib e s hs out))"

definition quote_route ::
    "(u8 list \<Rightarrow> b256) \<Rightarrow> 'e v3lib \<Rightarrow> engine \<Rightarrow> chain_state \<Rightarrow> route \<Rightarrow> u256 \<Rightarrow> u256 option res" where
  "quote_route keccak lib e s r amount_in = quote_hops keccak lib e s (rt_hops r) amount_in"

fun quote_hops_f64 ::
    "(u8 list \<Rightarrow> b256) \<Rightarrow> 'e v3lib \<Rightarrow> engine \<Rightarrow> chain_state \<Rightarrow> hop list \<Rightarrow> f64 \<Rightarrow> f64 res" where
  "quote_hops_f64 keccak lib e s [] amt = Inr amt"
| "quote_hops_f64 keccak lib e s (h # hs) amt =
     rbind (eng_meta e (hop_pool h)) (\<lambda>meta.
     rbind (quote_f64 keccak lib s meta amt (hop_zero_for_one h)) (\<lambda>out.
       if fle out (f64_lit 0) then Inr (f64_lit 0) else quote_hops_f64 keccak lib e s hs out))"

definition quote_route_f64 ::
    "(u8 list \<Rightarrow> b256) \<Rightarrow> 'e v3lib \<Rightarrow> engine \<Rightarrow> chain_state \<Rightarrow> route \<Rightarrow> f64 \<Rightarrow> f64 res" where
  "quote_route_f64 keccak lib e s r amount_in = quote_hops_f64 keccak lib e s (rt_hops r) amount_in"

fun spot_hops :: "engine \<Rightarrow> chain_state \<Rightarrow> hop list \<Rightarrow> f64 \<Rightarrow> f64 res" where
  "spot_hops e s [] acc = Inr acc"
| "spot_hops e s (h # hs) acc =
     rbind (eng_meta e (hop_pool h)) (\<lambda>meta.
       let acc' = fmul acc (spot_rate s meta (hop_zero_for_one h))
       in if feq acc' (f64_lit 0) then Inr (f64_lit 0) else spot_hops e s hs acc')"

definition spot_product :: "engine \<Rightarrow> chain_state \<Rightarrow> route \<Rightarrow> f64 res" where
  "spot_product e s r = spot_hops e s (rt_hops r) (f64_lit 1)"

section \<open>Sizing\<close>

text \<open>Reserves and fee of each hop, or nothing when a hop is no constant-product pool.\<close>

fun pure_v2_hops :: "engine \<Rightarrow> chain_state \<Rightarrow> hop list \<Rightarrow> (f64 \<times> f64 \<times> u32) list option res" where
  "pure_v2_hops e s [] = Inr (Some [])"
| "pure_v2_hops e s (h # hs) =
     rbind (eng_meta e (hop_pool h)) (\<lambda>meta.
       let reserves =
             (case cs_plan s (hop_pool h) of
                None \<Rightarrow> None
              | Some (PV2Packed addr slot) \<Rightarrow>
                  let (r0, r1) = decode_v2_packed (cs_read s addr slot) in Some (f64_of_u128 r0, f64_of_u128 r1)
              | Some (PV2TwoSlot addr r0) \<Rightarrow>
                  if pm_dex meta = AeroVolatile
                  then Some (u256_to_f64 (cs_read s addr r0), u256_to_f64 (cs_read s addr (r0 + 1)))
                  else None
              | Some (PCl c) \<Rightarrow> None)
       in case reserves of
            None \<Rightarrow> Inr None
          | Some (r0, r1) \<Rightarrow>
              let (rin, rout) = (if hop_zero_for_one h then (r0, r1) else (r1, r0))
              in rbind (pure_v2_hops e s hs) (\<lambda>rest.
                   Inr (map_option ((#) (rin, rout, pm_fee_bps meta)) rest)))"

definition is_pure_v2 :: "engine \<Rightarrow> chain_state \<Rightarrow> route \<Rightarrow> (f64 \<times> f64 \<times> u32) list option res" where
  "is_pure_v2 e s r = pure_v2_hops e s (rt_hops r)"

definition closed_form_optimal :: "(f64 \<times> f64 \<times> u32) list \<Rightarrow> f64 option res" where
  "closed_form_optimal hops =
     rbind (index hops 0) (\<lambda>(rin, rout, fee).
       let coef = foldl (\<lambda>coef (rin, rout, fee). compose_coef coef (mk_hop_coef rin rout fee))
                    (mk_hop_coef rin rout fee) (tl hops);
           a = hc_a coef; b = hc_b coef; c = hc_c coef
       in Inr (if fle a b \<or> fle c (f64_lit 0) then None
               else
                 let x = fdiv (fsub (fsqrt (fmul a b)) b) c
                 in if flt (f64_lit 0) x then Some x else None))"

primrec ternary_loop :: "(f64 \<Rightarrow> f64 res) \<Rightarrow> nat \<Rightarrow> f64 \<Rightarrow> f64 \<Rightarrow> (f64 \<times> f64) res" where
  "ternary_loop profit 0 lo hi = Inr (lo, hi)"
| "ternary_loop profit (Suc n) lo hi =
     (let m1 = fadd lo (fdiv (fsub hi lo) (f64_lit 3));
          m2 = fsub hi (fdiv (fsub hi lo) (f64_lit 3))
      in rbind (profit m1) (\<lambda>p1. rbind (profit m2) (\<lambda>p2.
           if flt p1 p2 then ternary_loop profit n m1 hi else ternary_loop profit n lo m2)))"

definition ternary_search ::
    "(u8 list \<Rightarrow> b256) \<Rightarrow> 'e v3lib \<Rightarrow> engine \<Rightarrow> chain_state \<Rightarrow> route \<Rightarrow> f64 \<Rightarrow> f64 \<Rightarrow> nat \<Rightarrow> f64 res" where
  "ternary_search keccak lib e s r lo hi iters =
     (let profit = (\<lambda>x. rbind (quote_route_f64 keccak lib e s r x) (\<lambda>out. Inr (fsub out x)))
      in rbind (ternary_loop profit iters lo hi) (\<lambda>(lo, hi). Inr (fdiv (fadd lo hi) (f64_lit 2))))"

text \<open>The candidate size: the closed form when it applies, the search otherwise.\<close>

definition candidate_size ::
    "(u8 list \<Rightarrow> b256) \<Rightarrow> 'e v3lib \<Rightarrow> engine \<Rightarrow> chain_state \<Rightarrow> route \<Rightarrow> f64 \<Rightarrow> f64 \<Rightarrow> f64 option res" where
  "candidate_size keccak lib e s r min_in max_in =
     rbind (is_pure_v2 e s r) (\<lambda>pure.
       case pure of
         Some hops \<Rightarrow>
           rbind (closed_form_optimal hops) (\<lambda>x.
             case x of None \<Rightarrow> Inr None | Some x \<Rightarrow> rbind (fclamp x min_in max_in) (\<lambda>y. Inr (Some y)))
       | None \<Rightarrow>
           rbind (quote_route_f64 keccak lib e s r min_in) (\<lambda>out.
             if fle (fsub out min_in) (f64_lit 0) then Inr None
             else rbind (ternary_search keccak lib e s r min_in max_in 60) (\<lambda>x.
                  rbind (fclamp x min_in max_in) (\<lambda>y. Inr (Some y)))))"

definition optimize ::
    "(u8 list \<Rightarrow> b256) \<Rightarrow> 'e v3lib \<Rightarrow> engine \<Rightarrow> chain_state \<Rightarrow> route \<Rightarrow> f64 \<Rightarrow> f64 \<Rightarrow> opportunity option res" where
  "optimize keccak lib e s r min_in max_in =
     rbind (candidate_size keccak lib e s r min_in max_in) (\<lambda>size.
       case size of
         None \<Rightarrow> Inr None
       | Some x_star \<Rightarrow>
           let amount_in = ucast (f64_to_u128 (fmax x_star (f64_lit 0)))
           in if amount_in = 0 then Inr None
              else rbind (quote_route keccak lib e s r amount_in) (\<lambda>out.
                case out of
                  None \<Rightarrow> Inr None
                | Some gross_out \<Rightarrow>
                    if gross_out \<le> amount_in then Inr None
                    else Inr (Some \<lparr>op_route_id = rt_id r, op_amount_in = amount_in, op_gross_out = gross_out,
                                    op_gross_profit = gross_out - amount_in\<rparr>)))"

section \<open>Chains of quotes\<close>

text \<open>What a successful route quote is: one nonzero exact quote per hop, each fed to the next.\<close>

definition quote_chain ::
    "(u8 list \<Rightarrow> b256) \<Rightarrow> 'e v3lib \<Rightarrow> engine \<Rightarrow> chain_state \<Rightarrow> hop list \<Rightarrow> u256 list \<Rightarrow> bool" where
  "quote_chain keccak lib e s hops amts \<longleftrightarrow>
     length amts = Suc (length hops) \<and>
     (\<forall>i < length hops. \<exists>m. eng_meta e (hop_pool (hops ! i)) = Inr m \<and>
        quote keccak lib s m (amts ! i) (hop_zero_for_one (hops ! i)) = Inr (amts ! Suc i) \<and> amts ! Suc i \<noteq> 0)"

lemma quote_chain_Cons:
  "quote_chain keccak lib e s (h # hs) (a # amts) \<longleftrightarrow>
     (\<exists>m out rest. amts = out # rest \<and> eng_meta e (hop_pool h) = Inr m \<and>
        quote keccak lib s m a (hop_zero_for_one h) = Inr out \<and> out \<noteq> 0 \<and> quote_chain keccak lib e s hs amts)"
  unfolding quote_chain_def by (cases amts) (auto simp: All_less_Suc2)

lemma quote_hops_chain:
  "quote_hops keccak lib e s hops a = Inr (Some out) \<longleftrightarrow>
     (\<exists>amts. quote_chain keccak lib e s hops (a # amts) \<and> last (a # amts) = out)"
proof (induction hops arbitrary: a)
  case Nil
  then show ?case by (auto simp: quote_chain_def)
next
  case (Cons h hs)
  show ?case
  proof
    assume "quote_hops keccak lib e s (h # hs) a = Inr (Some out)"
    then obtain m x where x: "eng_meta e (hop_pool h) = Inr m" "quote keccak lib s m a (hop_zero_for_one h) = Inr x"
      "x \<noteq> 0" "quote_hops keccak lib e s hs x = Inr (Some out)"
      by (auto split: if_splits)
    then obtain amts where "quote_chain keccak lib e s hs (x # amts)" "last (x # amts) = out" using Cons.IH by blast
    then show "\<exists>amts. quote_chain keccak lib e s (h # hs) (a # amts) \<and> last (a # amts) = out"
      using x by (intro exI [of _ "x # amts"]) (auto simp: quote_chain_Cons)
  next
    assume "\<exists>amts. quote_chain keccak lib e s (h # hs) (a # amts) \<and> last (a # amts) = out"
    then show "quote_hops keccak lib e s (h # hs) a = Inr (Some out)"
      using Cons.IH by (fastforce simp: quote_chain_Cons)
  qed
qed

section \<open>The size stays in its bounds\<close>

lemma candidate_size_range:
  assumes "candidate_size keccak lib e s r min_in max_in = Inr (Some y)" "y \<noteq> FNaN"
  shows "fle min_in y \<and> fle y max_in"
proof -
  obtain x where x: "fclamp x min_in max_in = Inr y"
    using assms(1) by (auto simp: candidate_size_def split: option.splits if_splits)
  have nan: "\<not> flt FNaN z" "\<not> flt z FNaN" for z by (cases z; simp)+
  have "x \<noteq> FNaN" using x assms(2) by (auto simp: fclamp_def nan split: if_splits)
  then show ?thesis by (rule fclamp_Inr [OF x])
qed

lemma fmax_zero_trunc: "trunc_f64 u128_max (fmax y (f64_lit 0)) = trunc_f64 u128_max y"
proof -
  have z: "f64_lit 0 = FZero False" by (simp add: f64_lit_def fround_def)
  show ?thesis by (cases y) (auto simp: z fmax_def u128_max_def)
qed

lemma optimize_Some:
  assumes "optimize keccak lib e s r min_in max_in = Inr (Some op)"
  obtains y where "candidate_size keccak lib e s r min_in max_in = Inr (Some y)"
    "op_amount_in op = ucast (f64_to_u128 (fmax y (f64_lit 0)))" "op_amount_in op \<noteq> 0"
    "quote_route keccak lib e s r (op_amount_in op) = Inr (Some (op_gross_out op))"
    "op_amount_in op < op_gross_out op" "op_gross_profit op = op_gross_out op - op_amount_in op" "op_route_id op = rt_id r"
proof -
  obtain size where size: "candidate_size keccak lib e s r min_in max_in = Inr size"
    "(case size of None \<Rightarrow> Inr None | Some x_star \<Rightarrow>
        let amount_in = ucast (f64_to_u128 (fmax x_star (f64_lit 0)))
        in if amount_in = 0 then Inr None
           else rbind (quote_route keccak lib e s r amount_in) (\<lambda>out. case out of None \<Rightarrow> Inr None
             | Some gross_out \<Rightarrow> if gross_out \<le> amount_in then Inr None
                 else Inr (Some \<lparr>op_route_id = rt_id r, op_amount_in = amount_in, op_gross_out = gross_out,
                                 op_gross_profit = gross_out - amount_in\<rparr>))) = Inr (Some op)"
    using assms unfolding optimize_def rbind_eq_Inr by (elim exE conjE) (rule that)
  then obtain y where y: "size = Some y" by (cases size) auto
  define a :: u256 where "a = ucast (f64_to_u128 (fmax y (f64_lit 0)))"
  have nz: "a \<noteq> 0" and q: "rbind (quote_route keccak lib e s r a) (\<lambda>out. case out of None \<Rightarrow> Inr None
      | Some gross_out \<Rightarrow> if gross_out \<le> a then Inr None
          else Inr (Some \<lparr>op_route_id = rt_id r, op_amount_in = a, op_gross_out = gross_out,
                          op_gross_profit = gross_out - a\<rparr>)) = Inr (Some op)"
    using size(2) unfolding y option.case Let_def a_def [symmetric] by (auto split: if_splits)
  obtain out where "quote_route keccak lib e s r a = Inr (Some out)" "\<not> out \<le> a"
    "op = \<lparr>op_route_id = rt_id r, op_amount_in = a, op_gross_out = out, op_gross_profit = out - a\<rparr>"
  proof (cases "quote_route keccak lib e s r a")
    case (Inr x)
    then show ?thesis using q that by (cases x) (auto split: if_splits)
  qed (use q in simp)
  then show ?thesis using that [OF size(1) [unfolded y]] nz unfolding a_def by simp
qed

lemma uint_size: "uint (ucast (f64_to_u128 (fmax y (f64_lit 0))) :: u256) = trunc_f64 u128_max y"
proof -
  have "unat (ucast (f64_to_u128 (fmax y (f64_lit 0))) :: u256) = unat (f64_to_u128 (fmax y (f64_lit 0)))"
    by (rule unat_ucast_up) simp
  then show ?thesis by (metis fmax_zero_trunc uint_f64_to_u128 uint_nat)
qed

section \<open>Absence of panics\<close>

definition hop_safe ::
    "(u8 list \<Rightarrow> b256) \<Rightarrow> 'e v3lib \<Rightarrow> engine \<Rightarrow> chain_state \<Rightarrow> hop \<Rightarrow> bool" where
  "hop_safe keccak lib e s h \<longleftrightarrow>
     (\<exists>m. eng_meta e (hop_pool h) = Inr m \<and>
        (\<forall>a. \<not> isl (quote keccak lib s m a (hop_zero_for_one h))))"

lemma quote_f64_safe:
  assumes "\<And>a. \<not> isl (quote keccak lib s m a z)"
  shows "\<not> isl (quote_f64 keccak lib s m x z)"
  using assms by (auto simp: quote_f64_def Let_def split: option.splits slot_plan.splits prod.splits)

lemma quote_hops_safe: "\<forall>h \<in> set hops. hop_safe keccak lib e s h \<Longrightarrow> \<not> isl (quote_hops keccak lib e s hops a)"
  by (induction hops arbitrary: a) (auto simp: hop_safe_def)

lemma quote_hops_f64_safe: "\<forall>h \<in> set hops. hop_safe keccak lib e s h \<Longrightarrow> \<not> isl (quote_hops_f64 keccak lib e s hops a)"
proof (induction hops arbitrary: a)
  case (Cons h hops)
  then obtain m where m: "eng_meta e (hop_pool h) = Inr m" "\<And>a. \<not> isl (quote keccak lib s m a (hop_zero_for_one h))"
    by (auto simp: hop_safe_def)
  show ?case using m(1) quote_f64_safe [OF m(2), of a] Cons by auto
qed simp

lemma pure_v2_hops_safe:
  "\<forall>h \<in> set hops. hop_safe keccak lib e s h \<Longrightarrow> \<not> isl (pure_v2_hops e s hops)"
  by (induction hops) (auto simp: hop_safe_def Let_def split: option.splits)

lemma pure_v2_hops_length: "pure_v2_hops e s hops = Inr (Some hs) \<Longrightarrow> length hs = length hops"
proof (induction hops arbitrary: hs)
  case (Cons h hops)
  then show ?case by (cases "hop_zero_for_one h") (auto simp: Let_def split: option.splits)
qed simp

lemma ternary_loop_safe: "(\<And>x. \<not> isl (profit x)) \<Longrightarrow> \<not> isl (ternary_loop profit n lo hi)"
  by (induction n arbitrary: lo hi) (auto simp: Let_def)

lemma optimize_safe:
  assumes "rt_hops r \<noteq> []" "\<forall>h \<in> set (rt_hops r). hop_safe keccak lib e s h" "fle min_in max_in"
  shows "\<not> isl (optimize keccak lib e s r min_in max_in)"
proof -
  have q: "\<not> isl (quote_route keccak lib e s r a)" "\<not> isl (quote_route_f64 keccak lib e s r x)" for a x
    by (simp_all add: quote_route_def quote_route_f64_def quote_hops_safe quote_hops_f64_safe assms(2))
  have c: "\<not> isl (fclamp x min_in max_in)" for x using assms(3) by (simp add: fclamp_def)
  have t: "\<not> isl (ternary_search keccak lib e s r min_in max_in n)" for n
    using ternary_loop_safe [of "\<lambda>x. rbind (quote_route_f64 keccak lib e s r x) (\<lambda>out. Inr (fsub out x))"] q(2)
    by (auto simp: ternary_search_def)
  have cf: "\<not> isl (closed_form_optimal hs)" if "is_pure_v2 e s r = Inr (Some hs)" for hs
  proof -
    have "hs \<noteq> []" using pure_v2_hops_length that assms(1) unfolding is_pure_v2_def by fastforce
    then show ?thesis by (cases "hs ! 0") (auto simp: closed_form_optimal_def index_def Let_def)
  qed
  have "\<not> isl (candidate_size keccak lib e s r min_in max_in)"
    using q(2) c t cf pure_v2_hops_safe [OF assms(2)]
    by (auto simp: candidate_size_def is_pure_v2_def split: option.splits)
  then show ?thesis using q(1) by (auto simp: optimize_def Let_def split: option.splits)
qed

text \<open>Concentrated-liquidity hops with a positive spacing are safe whatever the caches hold.\<close>

lemma hop_safe_cl:
  assumes "eng_meta e (hop_pool h) = Inr m" "cs_plan s (pm_idx m) = Some (PCl c)" "0 < walk_spacing (cl_codec c) m"
  shows "hop_safe keccak lib e s h"
  using assms v3_src_total [OF assms(3), where lib = lib]
  by (auto simp: hop_safe_def quote_def quote_cl_def Let_def split: prod.splits)

section \<open>Properties\<close>

text \<open>C2. An opportunity the optimizer returns is real: its output is a chain of exact nonzero quotes over
  the route's hops from its input, it exceeds the input, the profit is the exact difference, and the
  input lies between the configured trade bounds (truncated to integers).\<close>
theorem optimize_profit:
  assumes "optimize keccak lib e s r min_in max_in = Inr (Some op)"
  shows "op_route_id op = rt_id r \<and>
    (\<exists>amts. quote_chain keccak lib e s (rt_hops r) (op_amount_in op # amts) \<and> last (op_amount_in op # amts) = op_gross_out op) \<and>
    unat (op_gross_profit op) = unat (op_gross_out op) - unat (op_amount_in op) \<and> 0 < unat (op_gross_profit op) \<and>
    trunc_f64 u128_max min_in \<le> uint (op_amount_in op) \<and> uint (op_amount_in op) \<le> trunc_f64 u128_max max_in"
proof -
  obtain y where y: "candidate_size keccak lib e s r min_in max_in = Inr (Some y)"
    "op_amount_in op = ucast (f64_to_u128 (fmax y (f64_lit 0)))" "op_amount_in op \<noteq> 0"
    "quote_route keccak lib e s r (op_amount_in op) = Inr (Some (op_gross_out op))"
    "op_amount_in op < op_gross_out op" "op_gross_profit op = op_gross_out op - op_amount_in op" "op_route_id op = rt_id r"
    using optimize_Some [OF assms] .
  have u: "uint (op_amount_in op) = trunc_f64 u128_max y" unfolding y(2) by (rule uint_size)
  have "y \<noteq> FNaN" using u y(3) by (auto simp: uint_0_iff)
  from candidate_size_range [OF y(1) this]
  have range: "trunc_f64 u128_max min_in \<le> trunc_f64 u128_max y" "trunc_f64 u128_max y \<le> trunc_f64 u128_max max_in"
    by (simp_all add: trunc_f64_mono u128_max_def)
  have lt: "unat (op_amount_in op) < unat (op_gross_out op)" using y(5) by (simp add: word_less_nat_alt)
  then have "unat (op_gross_profit op) = unat (op_gross_out op) - unat (op_amount_in op)"
    unfolding y(6) by (simp add: unat_minus_id)
  then show ?thesis using y(4,7) range u lt by (simp add: quote_route_def quote_hops_chain)
qed

definition arb_engine :: engine where
  "arb_engine = empty_engine\<lparr>eng_metas := [(sample_meta 0 10)\<lparr>pm_fee_bps := 0\<rparr>, (sample_meta 1 11)\<lparr>pm_fee_bps := 0\<rparr>]\<rparr>"

definition arb_state :: chain_state where
  "arb_state = (set_plans [Some (PV2Packed 10 8), Some (PV2Packed 11 8)] (state_new 5))
     \<lparr>cs_memo := [(10, 8) \<mapsto> pack_v2 1048576 4194304 99, (11, 8) \<mapsto> pack_v2 1048576 1048576 99]\<rparr>"

definition arb_route :: route where
  "arb_route = \<lparr>rt_id = 0, rt_anchor = 1, rt_hops =
     [\<lparr>hop_pool = 0, hop_zero_for_one = True, hop_token_in = 1\<rparr>, \<lparr>hop_pool = 1, hop_zero_for_one = False, hop_token_in = 2\<rparr>]\<rparr>"

lemma arb_reads:
  "decode_v2_packed (cs_read arb_state 10 8) = (1048576, 4194304)"
  "decode_v2_packed (cs_read arb_state 11 8) = (1048576, 1048576)"
  by (simp_all add: arb_state_def cs_read_def decode_v2_pack)

lemma arb_plans:
  "eng_meta arb_engine 0 = Inr ((sample_meta 0 10)\<lparr>pm_fee_bps := 0\<rparr>)"
  "eng_meta arb_engine 1 = Inr ((sample_meta 1 11)\<lparr>pm_fee_bps := 0\<rparr>)"
  "cs_plan arb_state 0 = Some (PV2Packed 10 8)" "cs_plan arb_state 1 = Some (PV2Packed 11 8)"
  by (simp_all add: arb_state_def arb_engine_def eng_meta_def index_def idx_get_def set_plans_def cs_plan_def get_def)

lemma arb_pure:
  "is_pure_v2 arb_engine arb_state arb_route =
     Inr (Some [(f64_of_u128 1048576, f64_of_u128 4194304, 0), (f64_of_u128 1048576, f64_of_u128 1048576, 0)])"
  by (simp add: is_pure_v2_def arb_route_def arb_plans arb_reads sample_meta_def)

lemma arb_closed:
  "rbind (closed_form_optimal [(f64_of_u128 1048576, f64_of_u128 4194304, 0), (f64_of_u128 1048576, f64_of_u128 1048576, 0)])
     (\<lambda>x. case x of None \<Rightarrow> Inr None | Some x \<Rightarrow> rbind (fclamp x (f64_lit 1) (f64_lit 1000)) (\<lambda>y. Inr (Some y))) =
   Inr (Some (f64_lit 1000))"
  by code_simp

lemma arb_size:
  "candidate_size sample_hash sample_lib arb_engine arb_state arb_route (f64_lit 1) (f64_lit 1000) = Inr (Some (f64_lit 1000))"
  unfolding candidate_size_def arb_pure rbind_Inr option.case by (rule arb_closed)

lemma arb_steps:
  "v2_get_amount_out 1000 1048576 4194304 0 = Inr 3996" "v2_get_amount_out 3996 1048576 1048576 0 = Inr 3980"
  "ucast (f64_to_u128 (fmax (f64_lit 1000) (f64_lit 0))) = (1000 :: u256)"
  by code_simp+

definition arb_opp :: opportunity where
  "arb_opp = \<lparr>op_route_id = 0, op_amount_in = 1000, op_gross_out = 3980, op_gross_profit = 2980\<rparr>"

lemma arb_optimize: "optimize sample_hash sample_lib arb_engine arb_state arb_route (f64_lit 1) (f64_lit 1000) = Inr (Some arb_opp)"
proof -
  have "quote_route sample_hash sample_lib arb_engine arb_state arb_route 1000 = Inr (Some 3980)"
    by (simp add: quote_route_def arb_route_def arb_plans quote_def arb_reads arb_steps sample_meta_def)
  then show ?thesis
    unfolding optimize_def arb_size rbind_Inr option.case Let_def arb_steps by (simp add: arb_opp_def arb_route_def)
qed

theorem optimize_profit_witness:
  "\<exists>amts. quote_chain sample_hash sample_lib arb_engine arb_state (rt_hops arb_route) (1000 # amts) \<and> last (1000 # amts) = 3980"
  using optimize_profit [OF arb_optimize] by (simp add: arb_opp_def)



end
