(* ===== verification/Gas.thy ===== *)
theory Gas
  imports Engine
begin

text \<open>
  Gas pricing, \<^verbatim>\<open>src/gas/gas_station.rs\<close>: the cached base fee and L1 price, their refresh from
  block headers and from the fee oracle, the priority fee, and the cost of a route's transaction.
  Atomics are plain fields; the polling loop is a step function of the answers one round gets.
\<close>

section \<open>The station\<close>

record gas_station =
  gs_base_fee :: u64
  gs_per_unit :: u64
  gs_l1_estimate :: u64
  gs_cfg :: gas_config

definition gas_new :: "gas_config \<Rightarrow> gas_station" where
  "gas_new cfg = \<lparr>gs_base_fee = 0, gs_per_unit = 0, gs_l1_estimate = 0, gs_cfg = cfg\<rparr>"

definition on_new_head :: "u128 \<Rightarrow> gas_station \<Rightarrow> gas_station" where
  "on_new_head base_fee_per_gas g =
     (if 0 < base_fee_per_gas then g\<lparr>gs_base_fee := ucast base_fee_per_gas\<rparr> else g)"

text \<open>
  One round of the background poll: the answer to the header request (failed, no block, or a
  block with or without a base fee), and those of the two oracle calls, which are only asked every
  fifteenth round.  A 256-bit answer that does not fit 64 bits panics.
\<close>

record gas_answers =
  ga_header :: "u64 option option"
  ga_estimate :: "u256 option"
  ga_per_unit :: "u256 option"

definition store_u64 :: "u256 option \<Rightarrow> (u64 \<Rightarrow> gas_station \<Rightarrow> gas_station) \<Rightarrow> gas_station \<Rightarrow> gas_station res" where
  "store_u64 v put g =
     (case v of None \<Rightarrow> Inr g | Some w \<Rightarrow> rbind (to_u64 w) (\<lambda>x. Inr (put x g)))"

definition gas_poll :: "gas_answers \<Rightarrow> u64 \<times> gas_station \<Rightarrow> (u64 \<times> gas_station) res" where
  "gas_poll a tg =
     (let (tick, g) = tg;
          g1 = (case ga_header a of Some (Some fee) \<Rightarrow> on_new_head (ucast fee) g | _ \<Rightarrow> g)
      in if tick mod 15 = 0 then
           rbind (store_u64 (ga_estimate a) (\<lambda>v g. g\<lparr>gs_l1_estimate := v\<rparr>) g1) (\<lambda>g2.
           rbind (store_u64 (ga_per_unit a) (\<lambda>v g. g\<lparr>gs_per_unit := v\<rparr>) g2) (\<lambda>g3.
             Inr (tick + 1, g3)))
         else Inr (tick + 1, g1))"

definition base_fee :: "gas_station \<Rightarrow> u128" where
  "base_fee g = ucast (gs_base_fee g)"

definition l1_base_fee_estimate :: "gas_station \<Rightarrow> u128" where
  "l1_base_fee_estimate g = ucast (gs_l1_estimate g)"

section \<open>Fees\<close>

definition u128_clamp :: "u128 \<Rightarrow> u128 \<Rightarrow> u128 \<Rightarrow> u128 res" where
  "u128_clamp x lo hi = (if \<not> lo \<le> hi then Inl ClampBounds else Inr (if x < lo then lo else if hi < x then hi else x))"

definition priority_fee :: "gas_station \<Rightarrow> u128 \<Rightarrow> u64 \<Rightarrow> u128 res" where
  "priority_fee g net_profit_wei gas_units =
     (let budget = fdiv (fmul (f64_of_u128 net_profit_wei) (prio_fraction (gs_cfg g))) (f64_of_u64 (max gas_units 1));
          lo = f64_to_u128 (fmul (min_prio_gwei (gs_cfg g)) (f64_lit (10 ^ 9)));
          hi = f64_to_u128 (fmul (max_prio_gwei (gs_cfg g)) (f64_lit (10 ^ 9)))
      in u128_clamp (f64_to_u128 budget) lo hi)"

definition estimate_l1_fee :: "gas_station \<Rightarrow> nat \<Rightarrow> u128" where
  "estimate_l1_fee g calldata_len =
     (let per_unit = ucast (gs_per_unit g) :: u128
      in if per_unit = 0 then 0
         else
           let units = of_nat calldata_len * 16;
               fee = units * per_unit
           in f64_to_u128 (fmul (f64_of_u128 fee) (l1_fee_margin (gs_cfg g))))"

definition total_gas_cost :: "gas_station \<Rightarrow> u64 \<Rightarrow> u128 \<Rightarrow> nat \<Rightarrow> u128" where
  "total_gas_cost g gas_units prio calldata_len =
     (let l2_fee_per_gas = (base_fee g * 9 div 8) + prio;
          l2 = l2_fee_per_gas * ucast gas_units;
          l1 = estimate_l1_fee g calldata_len
      in l2 + l1)"

section \<open>Gas units of a route\<close>

datatype hop_gas_kind = GasV2 | GasV3 | GasStable | GasV4

fun kind_gas :: "hop_gas_kind \<Rightarrow> u64" where
  "kind_gas GasV2 = 90000"
| "kind_gas GasV3 = 150000"
| "kind_gas GasStable = 120000"
| "kind_gas GasV4 = 250000"

definition route_gas_units :: "hop_gas_kind list \<Rightarrow> bool \<Rightarrow> u64" where
  "route_gas_units kinds flashloan =
     (let g = foldl (\<lambda>g k. g + kind_gas k) 90000 kinds
      in if flashloan then g + 90000 else g)"

section \<open>Lemmas\<close>

lemma u128_clamp_range: "u128_clamp x lo hi = Inr y \<Longrightarrow> lo \<le> y \<and> y \<le> hi"
  by (auto simp: u128_clamp_def not_less split: if_splits)

lemma u128_clamp_zero: "lo \<le> hi \<Longrightarrow> u128_clamp 0 lo hi = Inr lo"
  by (auto simp: u128_clamp_def word_gt_0)

lemma zero_fraction: "f64_to_u128 (fdiv (fmul x (FZero False)) y) = 0"
proof -
  have z: "fround b 0 = FZero b" for b by (simp add: fround_def)
  have m: "fmul x (FZero False) \<in> {FNaN, FZero True, FZero False}" by (cases x) (auto simp: z)
  have "trunc_f64 u128_max (fdiv w y) = 0" if "w \<in> {FNaN, FZero True, FZero False}" for w
    using that by (cases y) (auto simp: z)
  from this [OF m] show ?thesis by (simp add: f64_to_u128_def)
qed

text \<open>The exact sum the unit estimate computes; no realistic route is long enough to wrap it.\<close>

lemma foldl_gas:
  "unat g + 250000 * length ks < 2 ^ 64 \<Longrightarrow>
     unat (foldl (\<lambda>g k. g + kind_gas k) g ks) = unat g + sum_list (map (\<lambda>k. unat (kind_gas k)) ks)"
proof (induction ks arbitrary: g)
  case (Cons k ks)
  have k: "unat (kind_gas k) \<le> 250000" by (cases k) simp_all
  then have u: "unat (g + kind_gas k) = unat g + unat (kind_gas k)"
    using Cons.prems by (intro unat_add_id) simp
  then show ?case using Cons k by simp
qed simp

lemma unat_div_word: "unat (a div b) = unat a div unat b"
  by (rule unat_div)

lemma total_gas_cost_exact:
  assumes "unat prio < 2 ^ 63" "unat (estimate_l1_fee g len) < 2 ^ 127" "unat gas_units < 2 ^ 58"
  shows "unat (total_gas_cost g gas_units prio len) =
    (unat (gs_base_fee g) * 9 div 8 + unat prio) * unat gas_units + unat (estimate_l1_fee g len)"
proof -
  have b: "unat (base_fee g) = unat (gs_base_fee g)" "unat (gs_base_fee g) < 2 ^ 64"
    using unsigned_less [of "gs_base_fee g", where 'a = nat] by (simp_all add: base_fee_def unat_ucast_up)
  have m: "unat (base_fee g * 9) = unat (gs_base_fee g) * 9"
    using b by (subst unat_mult_u128) simp_all
  have d: "unat (base_fee g * 9 div 8) = unat (gs_base_fee g) * 9 div 8" by (simp add: unat_div m)
  have s: "unat (base_fee g * 9 div 8 + prio) = unat (gs_base_fee g) * 9 div 8 + unat prio"
    using b(2) assms(1) d by (subst unat_add_u128) simp_all
  let ?f = "unat (gs_base_fee g) * 9 div 8 + unat prio"
  have "unat (gs_base_fee g) * 9 div 8 \<le> unat (gs_base_fee g) * 9" by (rule div_le_dividend)
  then have f: "?f < 2 ^ 68" using b(2) assms(1) by simp
  have gu: "unat (ucast gas_units :: u128) = unat gas_units" by (simp add: unat_ucast_up)
  have le: "?f * unat gas_units < 2 ^ 126"
  proof -
    have "?f * unat gas_units \<le> ?f * 2 ^ 58" by (rule mult_le_mono2) (use assms(3) in simp)
    also have "\<dots> < 2 ^ 68 * 2 ^ 58" using f by simp
    finally show ?thesis by simp
  qed
  then have p: "unat ((base_fee g * 9 div 8 + prio) * ucast gas_units) = ?f * unat gas_units"
    by (subst unat_mult_u128) (simp_all add: s gu)
  show ?thesis unfolding total_gas_cost_def Let_def
    using le assms(2) p by (subst unat_add_u128) simp_all
qed

section \<open>Properties\<close>

text \<open>A computed priority fee lies between the configured floor and ceiling, and with the default fraction
  of zero it is the floor, whatever the profit and the gas.  A floor above the ceiling panics.\<close>

lemma priority_fee_bounds:
  fixes g :: gas_station
  defines "lo \<equiv> f64_to_u128 (fmul (min_prio_gwei (gs_cfg g)) (f64_lit (10 ^ 9)))"
    and "hi \<equiv> f64_to_u128 (fmul (max_prio_gwei (gs_cfg g)) (f64_lit (10 ^ 9)))"
  shows "(if lo \<le> hi then \<exists>fee. priority_fee g profit units = Inr fee \<and> lo \<le> fee \<and> fee \<le> hi
      else priority_fee g profit units = Inl ClampBounds) \<and>
    (lo \<le> hi \<and> prio_fraction (gs_cfg g) = FZero False \<longrightarrow> priority_fee g profit units = Inr lo)"
proof -
  have bounds: "if lo \<le> hi then \<exists>fee. priority_fee g profit units = Inr fee \<and> lo \<le> fee \<and> fee \<le> hi
      else priority_fee g profit units = Inl ClampBounds"
    unfolding priority_fee_def Let_def lo_def [symmetric] hi_def [symmetric]
    by (auto simp: u128_clamp_def not_less)
  moreover have "priority_fee g profit units = Inr lo" if "lo \<le> hi" "prio_fraction (gs_cfg g) = FZero False"
    unfolding priority_fee_def Let_def lo_def [symmetric] hi_def [symmetric] that(2) zero_fraction
    using that(1) by (rule u128_clamp_zero)
  ultimately show ?thesis by blast
qed

text \<open>A station with the default configuration.\<close>

definition sample_station :: gas_station where
  "sample_station = (gas_new default_gas_config)\<lparr>gs_base_fee := 10000000, gs_per_unit := 1000\<rparr>"


theorem priority_fee_bounds_witness:
  "priority_fee sample_station 1000000 500000 =
     Inr (f64_to_u128 (fmul (min_prio_gwei default_gas_config) (f64_lit (10 ^ 9))))"
proof -
  have "f64_to_u128 (fmul (min_prio_gwei default_gas_config) (f64_lit (10 ^ 9))) \<le>
      f64_to_u128 (fmul (max_prio_gwei default_gas_config) (f64_lit (10 ^ 9)))" by code_simp
  moreover have "gs_cfg sample_station = default_gas_config" by (simp add: sample_station_def gas_new_def)
  moreover have "prio_fraction default_gas_config = FZero False" by (simp add: default_gas_config_def f64_lit_def fround_def)
  ultimately show ?thesis using priority_fee_bounds [of sample_station 1000000 500000] by simp
qed

text \<open>The cost estimate of a route never wraps for realistic values: it is the exact sum of the buffered
  base fee and tip over the route's gas units, and of the L1 fee.\<close>
lemma gas_cost_exact:
  assumes "length kinds < 2 ^ 30" "unat prio < 2 ^ 63" "unat (estimate_l1_fee g len) < 2 ^ 127"
  shows "unat (route_gas_units kinds True) = 180000 + sum_list (map (unat \<circ> kind_gas) kinds) \<and>
    unat (total_gas_cost g (route_gas_units kinds True) prio len) =
      (unat (gs_base_fee g) * 9 div 8 + unat prio) * (180000 + sum_list (map (unat \<circ> kind_gas) kinds)) +
      unat (estimate_l1_fee g len)"
proof -
  have "unat (kind_gas k) \<le> 250000" for k by (cases k) simp_all
  then have S: "sum_list (map (unat \<circ> kind_gas) kinds) \<le> 250000 * length kinds"
    by (induction kinds) (auto intro: add_mono)
  let ?f = "foldl (\<lambda>g k. g + kind_gas k) 90000 kinds"
  have f: "unat ?f = 90000 + sum_list (map (unat \<circ> kind_gas) kinds)"
    using foldl_gas [of 90000 kinds] assms(1) by (simp add: comp_def)
  then have u: "unat (route_gas_units kinds True) = 180000 + sum_list (map (unat \<circ> kind_gas) kinds)"
    using S assms(1) unfolding route_gas_units_def Let_def by (subst if_P, simp, subst unat_add_id) simp_all
  then have "unat (route_gas_units kinds True) < 2 ^ 58" using S assms(1) by simp
  from total_gas_cost_exact [OF assms(2,3) this] u show ?thesis by simp
qed

end
