(* ===== verification/Evaluator.thy ===== *)
theory Evaluator
  imports Optimizer Gas
begin

text \<open>
  The trigger flow, \<^verbatim>\<open>src/routing/evaluator.rs\<close>: queued batches are merged, stale ones dropped,
  the routes through changed pools ranked by marginal rate, the best sized exactly, gated on net
  profit, and the survivors emitted best first over disjoint pools.  The counters the
  evaluator bumps are those of \<^verbatim>\<open>src/stats.rs\<close>.  Readings of the clock are arguments.
\<close>

section \<open>State\<close>

record stats =
  n_batches_evaluated :: u64
  n_batches_stale :: u64
  n_routes_tier1 :: u64
  n_routes_tier1_passed :: u64
  n_routes_tier2 :: u64
  n_opps_presign :: u64
  n_opportunities :: u64
  n_txs_sent :: u64
  n_txs_landed :: u64
  n_txs_reverted :: u64

definition stats_new :: stats where
  "stats_new = \<lparr>n_batches_evaluated = 0, n_batches_stale = 0, n_routes_tier1 = 0, n_routes_tier1_passed = 0,
     n_routes_tier2 = 0, n_opps_presign = 0, n_opportunities = 0, n_txs_sent = 0, n_txs_landed = 0, n_txs_reverted = 0\<rparr>"

record evaluated =
  ev_opp :: opportunity
  ev_net :: u128
  ev_gas_units :: u64
  ev_gas_cost :: u128
  ev_prio :: u128
  ev_block :: u64
  ev_detected_at :: nat

text \<open>The evaluator with the chain state it reads while it handles one batch.\<close>

record 'e evaluator =
  e_keccak :: "u8 list \<Rightarrow> b256"
  e_lib :: "'e v3lib"
  e_parse :: "string \<Rightarrow> u256 option"
  e_engine :: engine
  e_state :: chain_state
  e_store :: route_store
  e_gas :: gas_station
  e_cfg :: routing_config
  e_anchors :: "anchor_config list"
  e_prices :: "address \<rightharpoonup> f64"

definition anchor_by_token :: "anchor_config list \<Rightarrow> (address \<rightharpoonup> anchor_config)" where
  "anchor_by_token anchors = foldl (\<lambda>m a. m(an_token a \<mapsto> a)) Map.empty anchors"

section \<open>Anchor conversions\<close>

definition anchor_rate :: "'e evaluator \<Rightarrow> anchor_config \<Rightarrow> f64 res" where
  "anchor_rate ev a = from_option ExpectFailed (e_prices ev (an_token a))"

definition anchor_to_weth_wei :: "'e evaluator \<Rightarrow> anchor_config \<Rightarrow> u128 \<Rightarrow> u128 res" where
  "anchor_to_weth_wei ev a amount =
     rbind (anchor_rate ev a) (\<lambda>rate.
       Inr (f64_to_u128 (fmul (fmul (fdiv (f64_of_u128 amount) (f64_powi (f64_lit 10) (uint (an_decimals a)))) rate)
              (f64_lit (10 ^ 18)))))"

definition weth_wei_to_anchor :: "'e evaluator \<Rightarrow> anchor_config \<Rightarrow> u128 \<Rightarrow> u128 res" where
  "weth_wei_to_anchor ev a wei =
     rbind (anchor_rate ev a) (\<lambda>rate.
       Inr (f64_to_u128 (fmul (fdiv (fdiv (f64_of_u128 wei) (f64_lit (10 ^ 18))) rate)
              (f64_powi (f64_lit 10) (uint (an_decimals a))))))"

definition u128_from :: "u256 \<Rightarrow> u128 res" where
  "u128_from v = (if 2 ^ 128 - 1 < v then Inr (- 1) else to_u128 v)"

section \<open>The gas gate\<close>

definition hop_kind :: "dex_tag \<Rightarrow> hop_gas_kind" where
  "hop_kind dex =
     (if is_v4 dex then GasV4
      else if is_v3_family dex \<or> is_algebra dex then GasV3
      else if dex = AeroStable then GasStable
      else GasV2)"

definition apply_gas_gate ::
    "'e evaluator \<Rightarrow> opportunity \<Rightarrow> u64 \<Rightarrow> anchor_config \<Rightarrow> nat \<Rightarrow> evaluated option res" where
  "apply_gas_gate ev opp block a detected_at =
     rbind (store_route (e_store ev) (op_route_id opp)) (\<lambda>route.
     rbind (rmap (\<lambda>h. rbind (eng_meta (e_engine ev) (hop_pool h)) (\<lambda>m. Inr (hop_kind (pm_dex m)))) (rt_hops route)) (\<lambda>kinds.
       let gas_units = route_gas_units kinds True;
           n_v4 = length (filter (\<lambda>k. k = GasV4) kinds);
           calldata_len = 200 + length (rt_hops route) * 160 + 64 + n_v4 * 128
       in rbind (u128_from (op_gross_profit opp)) (\<lambda>gross.
          rbind (anchor_to_weth_wei ev a gross) (\<lambda>gross_weth_wei.
          rbind (priority_fee (e_gas ev) gross_weth_wei gas_units) (\<lambda>prio.
            let gas_cost_wei = total_gas_cost (e_gas ev) gas_units prio calldata_len
            in rbind (weth_wei_to_anchor ev a gas_cost_wei) (\<lambda>gas_cost.
                 if gross \<le> gas_cost then Inr None
                 else
                   let net = gross - gas_cost
                   in rbind (min_profit (e_parse ev) a) (\<lambda>floor_profit.
                        if ucast net < floor_profit then Inr None
                        else Inr (Some \<lparr>ev_opp = opp, ev_net = net, ev_gas_units = gas_units, ev_gas_cost = gas_cost_wei,
                                        ev_prio = prio, ev_block = block, ev_detected_at = detected_at\<rparr>))))))))"

section \<open>One batch\<close>

definition merge_batch :: "changed_batch \<Rightarrow> changed_batch \<Rightarrow> changed_batch" where
  "merge_batch batch nxt =
     \<lparr>cb_block = max (cb_block nxt) (cb_block batch), cb_pools = cb_pools batch @ cb_pools nxt,
      cb_ts = min (cb_ts batch) (cb_ts nxt)\<rparr>"

definition merge_queue :: "changed_batch \<Rightarrow> changed_batch list \<Rightarrow> changed_batch" where
  "merge_queue batch queue = foldl merge_batch batch queue"

definition too_old :: "'e evaluator \<Rightarrow> nat \<Rightarrow> nat \<Rightarrow> bool" where
  "too_old ev ts now \<longleftrightarrow> unat (rc_drop_ms (e_cfg ev)) < now - ts"

definition candidate_ids :: "'e evaluator \<Rightarrow> changed_batch \<Rightarrow> u32 list" where
  "candidate_ids ev batch = remdups_adj (sort (concat (map (routes_for_pool (e_store ev)) (cb_pools batch))))"

definition spot_gate :: "'e evaluator \<Rightarrow> f64" where
  "spot_gate ev = fadd (f64_lit 1) (fdiv (rc_spot_gate_bps (e_cfg ev)) (f64_lit 10000))"

definition tier1 :: "'e evaluator \<Rightarrow> u32 list \<Rightarrow> (u32 \<times> f64) list res" where
  "tier1 ev ids =
     rbind (rmap (\<lambda>rid. rbind (store_route (e_store ev) rid) (\<lambda>r.
         rbind (spot_product (e_engine ev) (e_state ev) r) (\<lambda>p. Inr (rid, p)))) ids) (\<lambda>rated.
       Inr (filter (\<lambda>(_, p). flt (spot_gate ev) p) rated))"

definition rank_tier1 :: "'e evaluator \<Rightarrow> (u32 \<times> f64) list \<Rightarrow> (u32 \<times> f64) list" where
  "rank_tier1 ev passed = take (rc_tier2_top_n (e_cfg ev)) (sort_by (\<lambda>a b. flt (snd b) (snd a)) passed)"

definition tier2_one :: "'e evaluator \<Rightarrow> changed_batch \<Rightarrow> u32 \<Rightarrow> evaluated option res" where
  "tier2_one ev batch rid =
     rbind (store_route (e_store ev) rid) (\<lambda>route.
     rbind (from_option ExpectFailed (anchor_by_token (e_anchors ev) (rt_anchor route))) (\<lambda>a.
       let unit = f64_powi (f64_lit 10) (uint (an_decimals a));
           min_in = fmul (an_min_trade a) unit;
           max_in = fmul (an_max_trade a) unit
       in rbind (optimize (e_keccak ev) (e_lib ev) (e_engine ev) (e_state ev) route min_in max_in) (\<lambda>opp.
            case opp of None \<Rightarrow> Inr None | Some opp \<Rightarrow> apply_gas_gate ev opp (cb_block batch) a (cb_ts batch))))"

definition tier2 :: "'e evaluator \<Rightarrow> changed_batch \<Rightarrow> (u32 \<times> f64) list \<Rightarrow> evaluated list res" where
  "tier2 ev batch passed =
     rbind (rmap (\<lambda>(rid, _). tier2_one ev batch rid) passed) (\<lambda>found.
       Inr (concat (map (\<lambda>x. case x of None \<Rightarrow> [] | Some c \<Rightarrow> [c]) found)))"

definition rank_key :: "'e evaluator \<Rightarrow> evaluated \<Rightarrow> u128 res" where
  "rank_key ev c =
     rbind (store_route (e_store ev) (op_route_id (ev_opp c))) (\<lambda>route.
     rbind (from_option ExpectFailed (anchor_by_token (e_anchors ev) (rt_anchor route))) (\<lambda>a.
       anchor_to_weth_wei ev a (ev_net c)))"

text \<open>
  The sort compares keys computed anew each time; they are functions of the candidate, so they
  are computed once here.
\<close>

definition rank_candidates :: "'e evaluator \<Rightarrow> evaluated list \<Rightarrow> evaluated list res" where
  "rank_candidates ev cands =
     rbind (rmap (\<lambda>c. rbind (rank_key ev c) (\<lambda>k. Inr (k, c))) cands) (\<lambda>keyed.
       Inr (map snd (sort_by (\<lambda>a b. fst b < fst a) keyed)))"

text \<open>
  Emission, best first, skipping any route that shares a pool with one already emitted.  \<open>open n\<close>
  says whether the output channel still has a receiver at the n-th send; a failed send ends the
  evaluator (the flag), after the counter was bumped.
\<close>

fun emit_loop ::
    "'e evaluator \<Rightarrow> (nat \<Rightarrow> bool) \<Rightarrow> evaluated list \<Rightarrow> pool_idx set \<Rightarrow> evaluated list \<Rightarrow> stats
      \<Rightarrow> (stats \<times> evaluated list \<times> bool) res" where
  "emit_loop ev is_open [] used sent st = Inr (st, sent, True)"
| "emit_loop ev is_open (c # cs) used sent st =
     rbind (store_route (e_store ev) (op_route_id (ev_opp c))) (\<lambda>route.
       if hop_pool ` set (rt_hops route) \<inter> used \<noteq> {} then emit_loop ev is_open cs used sent st
       else
         let used' = used \<union> hop_pool ` set (rt_hops route);
             st' = st\<lparr>n_opportunities := n_opportunities st + 1\<rparr>
         in if is_open (length sent) then emit_loop ev is_open cs used' (sent @ [c]) st'
            else Inr (st', sent, False))"

text \<open>
  One turn of the loop of \<open>Evaluator::run\<close>: the received batch, the batches waiting behind it,
  the two clock readings, the channel; the result is the counters, the opportunities
  sent and whether the loop goes on.
\<close>

definition eval_batch ::
    "'e evaluator \<Rightarrow> (nat \<Rightarrow> bool) \<Rightarrow> nat \<Rightarrow> nat \<Rightarrow> changed_batch \<Rightarrow> changed_batch list \<Rightarrow> stats
      \<Rightarrow> (stats \<times> evaluated list \<times> bool) res" where
  "eval_batch ev is_open now1 now2 first queue st =
     (let batch = merge_queue first queue
      in if too_old ev (cb_ts batch) now1 then Inr (st\<lparr>n_batches_stale := n_batches_stale st + 1\<rparr>, [], True)
         else
           let ids = candidate_ids ev batch
           in if ids = [] then Inr (st, [], True)
              else
                let st1 = st\<lparr>n_batches_evaluated := n_batches_evaluated st + 1,
                             n_routes_tier1 := n_routes_tier1 st + of_nat (length ids)\<rparr>
                in rbind (tier1 ev ids) (\<lambda>passed.
                     if passed = [] then Inr (st1, [], True)
                     else
                       let st2 = st1\<lparr>n_routes_tier1_passed := n_routes_tier1_passed st1 + of_nat (length passed)\<rparr>;
                           best = rank_tier1 ev passed
                       in if too_old ev (cb_ts batch) now2
                          then Inr (st2\<lparr>n_batches_stale := n_batches_stale st2 + 1\<rparr>, [], True)
                          else rbind (tier2 ev batch best) (\<lambda>cands.
                            let st3 = st2\<lparr>n_routes_tier2 := n_routes_tier2 st2 + of_nat (length best)\<rparr>
                            in if cands = [] then Inr (st3, [], True)
                               else rbind (rank_candidates ev cands) (\<lambda>ranked.
                                 emit_loop ev is_open ranked {} [] st3))))"

section \<open>The sizing interface\<close>

text \<open>
  What the gate needs from whatever sizes a route: the output covers the input and the profit
  is the difference.  The optimizer provides it.
\<close>

locale profit_source =
  fixes size_route :: "route \<Rightarrow> f64 \<Rightarrow> f64 \<Rightarrow> opportunity option res"
  assumes sized: "size_route r lo hi = Inr (Some op) \<Longrightarrow>
      op_route_id op = rt_id r \<and> op_amount_in op < op_gross_out op \<and>
      op_gross_profit op = op_gross_out op - op_amount_in op"
begin

lemma profit_exact:
  assumes "size_route r lo hi = Inr (Some op)"
  shows "unat (op_gross_profit op) + unat (op_amount_in op) = unat (op_gross_out op)"
  using sized [OF assms] by (simp add: unat_minus_id word_less_nat_alt)

text \<open>Whatever is left after a cost below the (saturated) profit, the output pays for it.\<close>

lemma covers:
  assumes "size_route r lo hi = Inr (Some op)" "u128_from (op_gross_profit op) = Inr gross" "cost < gross"
  shows "unat (op_amount_in op) + unat cost + unat (gross - cost) \<le> unat (op_gross_out op)"
proof -
  have "unat gross \<le> unat (op_gross_profit op)"
  proof (cases "2 ^ 128 - 1 < op_gross_profit op")
    case True
    have "unat (2 ^ 128 - 1 :: u256) = 2 ^ 128 - 1" by simp
    then have "2 ^ 128 - 1 < unat (op_gross_profit op)" using True unfolding word_less_nat_alt by simp
    moreover have "unat gross < 2 ^ 128" using unsigned_less [of gross, where 'a = nat] by simp
    ultimately show ?thesis by linarith
  next
    case False
    then have "to_u128 (op_gross_profit op) = Inr gross" using assms(2) by (simp add: u128_from_def)
    then show ?thesis by (auto simp: to_u128_def unat_ucast_id split: if_splits)
  qed
  moreover have "unat (gross - cost) = unat gross - unat cost" "unat cost < unat gross"
    using assms(3) by (simp_all add: unat_minus_id word_less_nat_alt)
  ultimately show ?thesis using profit_exact [OF assms(1)] by linarith
qed

end

interpretation sizer: profit_source "optimize keccak lib e s" for keccak lib e s
  by unfold_locales (auto elim: optimize_Some)

section \<open>Merging and staleness\<close>

lemma merge_queue_fields:
  "cb_ts (merge_queue b bs) = Min (cb_ts ` set (b # bs))"
  "cb_block (merge_queue b bs) = Max (cb_block ` set (b # bs))"
  "set (cb_pools (merge_queue b bs)) = (\<Union>x \<in> set (b # bs). set (cb_pools x))"
proof -
  have "cb_ts (merge_queue b bs) = Min (cb_ts ` set (b # bs)) \<and> cb_block (merge_queue b bs) = Max (cb_block ` set (b # bs)) \<and>
    set (cb_pools (merge_queue b bs)) = (\<Union>x \<in> set (b # bs). set (cb_pools x))"
  proof (induction bs rule: rev_induct)
    case (snoc x xs)
    have "cb_ts (merge_queue b (xs @ [x])) = min (cb_ts (merge_queue b xs)) (cb_ts x)"
      "cb_block (merge_queue b (xs @ [x])) = max (cb_block x) (cb_block (merge_queue b xs))"
      "cb_pools (merge_queue b (xs @ [x])) = cb_pools (merge_queue b xs) @ cb_pools x"
      by (simp_all add: merge_queue_def merge_batch_def)
    then show ?case using snoc
      by (auto simp: insert_commute [of _ "cb_ts x"] insert_commute [of _ "cb_block x"] min.commute max.commute)
  qed (simp add: merge_queue_def)
  then show "cb_ts (merge_queue b bs) = Min (cb_ts ` set (b # bs))"
    "cb_block (merge_queue b bs) = Max (cb_block ` set (b # bs))"
    "set (cb_pools (merge_queue b bs)) = (\<Union>x \<in> set (b # bs). set (cb_pools x))" by blast+
qed

lemma distinct_remdups_adj: "sorted xs \<Longrightarrow> distinct (remdups_adj xs)"
  by (induction xs rule: remdups_adj.induct) (auto simp: order_le_less)

lemma set_candidate_ids: "set (candidate_ids ev b) = set (concat (map (routes_for_pool (e_store ev)) (cb_pools b)))"
  by (simp add: candidate_ids_def)

lemma sorted_candidate_ids: "sorted (candidate_ids ev b)" "distinct (candidate_ids ev b)"
  by (simp_all add: candidate_ids_def sorted_remdups_adj distinct_remdups_adj)

section \<open>Emission\<close>

definition route_pools :: "'e evaluator \<Rightarrow> evaluated \<Rightarrow> pool_idx set" where
  "route_pools ev c =
     (case store_route (e_store ev) (op_route_id (ev_opp c)) of Inl _ \<Rightarrow> {} | Inr r \<Rightarrow> hop_pool ` set (rt_hops r))"

lemma emit_loop_spec:
  assumes "emit_loop ev is_open cs used sent st = Inr (st', out, cont)"
  shows "\<exists>new. out = sent @ new \<and> subseq new cs \<and>
    sorted_wrt (\<lambda>a b. route_pools ev a \<inter> route_pools ev b = {}) new \<and> (\<forall>c \<in> set new. route_pools ev c \<inter> used = {}) \<and>
    (cont \<longrightarrow> (\<forall>c \<in> set cs. c \<in> set new \<or> route_pools ev c \<inter> (used \<union> \<Union> (route_pools ev ` set new)) \<noteq> {})) \<and>
    ((\<forall>n. is_open n) \<longrightarrow> cont)"
  using assms
proof (induction ev is_open cs used sent st rule: emit_loop.induct)
  case (1 ev is_open used sent st)
  then show ?case by simp
next
  case (2 ev is_open c cs used sent st)
  obtain route where r: "store_route (e_store ev) (op_route_id (ev_opp c)) = Inr route" using "2.prems" by auto
  have p: "route_pools ev c = hop_pool ` set (rt_hops route)" by (simp add: route_pools_def r)
  show ?case
  proof (cases "route_pools ev c \<inter> used = {}")
    case False
    then have "emit_loop ev is_open cs used sent st = Inr (st', out, cont)" using "2.prems" r p by simp
    from "2.IH"(1) [OF r _ this] False
    obtain new where new: "out = sent @ new" "subseq new cs"
      "sorted_wrt (\<lambda>a b. route_pools ev a \<inter> route_pools ev b = {}) new" "\<forall>c \<in> set new. route_pools ev c \<inter> used = {}"
      "cont \<longrightarrow> (\<forall>c \<in> set cs. c \<in> set new \<or> route_pools ev c \<inter> (used \<union> \<Union> (route_pools ev ` set new)) \<noteq> {})"
      "(\<forall>n. is_open n) \<longrightarrow> cont"
      unfolding p by blast
    have "subseq new (c # cs)" using new(2) by (rule list_emb_Cons)
    moreover have "route_pools ev c \<inter> (used \<union> \<Union> (route_pools ev ` set new)) \<noteq> {}" using False by blast
    ultimately show ?thesis using new by (intro exI [of _ new]) simp
  next
    case True
    show ?thesis
    proof (cases "is_open (length sent)")
      case alive: True
      have "emit_loop ev is_open cs (used \<union> hop_pool ` set (rt_hops route)) (sent @ [c])
          (st\<lparr>n_opportunities := n_opportunities st + 1\<rparr>) = Inr (st', out, cont)"
        using "2.prems" r p True alive by (simp add: Let_def)
      from "2.IH"(2) [OF r _ refl refl alive this] True
      obtain new where new: "out = (sent @ [c]) @ new" "subseq new cs"
        "sorted_wrt (\<lambda>a b. route_pools ev a \<inter> route_pools ev b = {}) new"
        "\<forall>d \<in> set new. route_pools ev d \<inter> (used \<union> route_pools ev c) = {}"
        "cont \<longrightarrow> (\<forall>d \<in> set cs. d \<in> set new \<or> route_pools ev d \<inter> ((used \<union> route_pools ev c) \<union> \<Union> (route_pools ev ` set new)) \<noteq> {})"
        "(\<forall>n. is_open n) \<longrightarrow> cont"
        unfolding p by blast
      show ?thesis
        by (rule exI [of _ "c # new"]) (use new True in \<open>auto simp: Un_assoc\<close>)
    next
      case closed: False
      then show ?thesis using "2.prems" r p True by (auto simp: Let_def)
    qed
  qed
qed

section \<open>What survives the gates\<close>

lemma gas_gate_Some:
  assumes "apply_gas_gate ev opp block a t = Inr (Some c)"
  shows "ev_opp c = opp \<and> ev_block c = block \<and> ev_detected_at c = t \<and>
    (\<exists>gross cost floor_profit. u128_from (op_gross_profit opp) = Inr gross \<and>
       weth_wei_to_anchor ev a (ev_gas_cost c) = Inr cost \<and> cost < gross \<and> ev_net c = gross - cost \<and>
       e_parse ev (an_min_profit a) = Some floor_profit \<and> floor_profit \<le> ucast (ev_net c))"
proof -
  obtain units wei prio gross cost floor_profit where
    "u128_from (op_gross_profit opp) = Inr gross" "weth_wei_to_anchor ev a wei = Inr cost"
    and g: "(if gross \<le> cost then Inr None else
       let net = gross - cost in rbind (min_profit (e_parse ev) a) (\<lambda>floor_profit.
         if ucast net < floor_profit then Inr None
         else Inr (Some \<lparr>ev_opp = opp, ev_net = net, ev_gas_units = units, ev_gas_cost = wei,
                         ev_prio = prio, ev_block = block, ev_detected_at = t\<rparr>))) = Inr (Some c)"
    using assms unfolding apply_gas_gate_def Let_def rbind_eq_Inr by (elim exE conjE) blast
  then show ?thesis by (auto simp: Let_def min_profit_def not_le not_less split: if_splits)
qed

definition trade_bounds :: "anchor_config \<Rightarrow> f64 \<times> f64" where
  "trade_bounds a =
     (let unit = f64_powi (f64_lit 10) (uint (an_decimals a)) in (fmul (an_min_trade a) unit, fmul (an_max_trade a) unit))"

text \<open>A vetted candidate: sized exactly on its own route, with its net profit above the anchor's floor.\<close>

definition vetted :: "'e evaluator \<Rightarrow> changed_batch \<Rightarrow> u32 \<Rightarrow> evaluated \<Rightarrow> bool" where
  "vetted ev batch rid c \<longleftrightarrow>
     (\<exists>route a gross cost floor_profit.
        store_route (e_store ev) rid = Inr route \<and>
        anchor_by_token (e_anchors ev) (rt_anchor route) = Some a \<and>
        optimize (e_keccak ev) (e_lib ev) (e_engine ev) (e_state ev) route (fst (trade_bounds a)) (snd (trade_bounds a)) =
          Inr (Some (ev_opp c)) \<and>
        u128_from (op_gross_profit (ev_opp c)) = Inr gross \<and>
        weth_wei_to_anchor ev a (ev_gas_cost c) = Inr cost \<and> cost < gross \<and> ev_net c = gross - cost \<and>
        e_parse ev (an_min_profit a) = Some floor_profit \<and> floor_profit \<le> ucast (ev_net c)) \<and>
     ev_block c = cb_block batch \<and> ev_detected_at c = cb_ts batch"

lemma tier2_one_Some: "tier2_one ev batch rid = Inr (Some c) \<Longrightarrow> vetted ev batch rid c"
proof -
  assume t: "tier2_one ev batch rid = Inr (Some c)"
  obtain route a opp where r: "store_route (e_store ev) rid = Inr route"
    "anchor_by_token (e_anchors ev) (rt_anchor route) = Some a"
    "optimize (e_keccak ev) (e_lib ev) (e_engine ev) (e_state ev) route (fst (trade_bounds a)) (snd (trade_bounds a)) = Inr opp"
    "(case opp of None \<Rightarrow> Inr None | Some opp \<Rightarrow> apply_gas_gate ev opp (cb_block batch) a (cb_ts batch)) = Inr (Some c)"
    using t unfolding tier2_one_def Let_def rbind_eq_Inr trade_bounds_def fst_conv snd_conv by auto
  then obtain o' where o: "opp = Some o'" "apply_gas_gate ev o' (cb_block batch) a (cb_ts batch) = Inr (Some c)"
    by (cases opp) auto
  show ?thesis using r(1-3) gas_gate_Some [OF o(2)] unfolding vetted_def o(1) by blast
qed

lemma tier2_Inr:
  assumes "tier2 ev batch passed = Inr cands" "c \<in> set cands"
  obtains rid p where "(rid, p) \<in> set passed" "vetted ev batch rid c"
proof -
  obtain found where f: "rmap (\<lambda>(rid, _). tier2_one ev batch rid) passed = Inr found"
    "cands = concat (map (\<lambda>x. case x of None \<Rightarrow> [] | Some c \<Rightarrow> [c]) found)"
    using assms(1) by (auto simp: tier2_def)
  then have "Some c \<in> set found" using assms(2) by (auto split: option.splits)
  from rmap_Inr_set [OF f(1) this] obtain rid p where "(rid, p) \<in> set passed" "tier2_one ev batch rid = Inr (Some c)"
    by auto
  then show ?thesis using that tier2_one_Some by blast
qed

lemma tier1_Inr:
  assumes "tier1 ev ids = Inr passed" "(rid, p) \<in> set passed"
  shows "rid \<in> set ids \<and> (\<exists>r. store_route (e_store ev) rid = Inr r \<and> spot_product (e_engine ev) (e_state ev) r = Inr p) \<and>
    flt (spot_gate ev) p"
proof -
  obtain rated where r: "rmap (\<lambda>rid. rbind (store_route (e_store ev) rid) (\<lambda>r.
      rbind (spot_product (e_engine ev) (e_state ev) r) (\<lambda>p. Inr (rid, p)))) ids = Inr rated"
    "(rid, p) \<in> set rated" "flt (spot_gate ev) p"
    using assms by (auto simp: tier1_def)
  from rmap_Inr_set [OF r(1,2)] show ?thesis using r(3) by auto
qed

lemma rmap_keyed: "rmap (\<lambda>c. rbind (f c) (\<lambda>k. Inr (k, c))) xs = Inr ys \<Longrightarrow> map snd ys = xs"
  by (induction xs arbitrary: ys) auto

lemma rank_candidates_Inr:
  assumes "rank_candidates ev cands = Inr ranked"
  shows "mset ranked = mset cands \<and> sorted_wrt (\<lambda>a b. \<exists>x y. rank_key ev a = Inr x \<and> rank_key ev b = Inr y \<and> y \<le> x) ranked"
proof -
  obtain keyed where k: "rmap (\<lambda>c. rbind (rank_key ev c) (\<lambda>k. Inr (k, c))) cands = Inr keyed"
    and r: "ranked = map snd (sort_by (\<lambda>a b. fst b < fst a) keyed)"
    using assms by (auto simp: rank_candidates_def)
  have c: "map snd keyed = cands" using k by (rule rmap_keyed)
  have "mset ranked = mset cands" unfolding r c [symmetric] by simp
  moreover have key: "rank_key ev c = Inr x" if "(x, c) \<in> set keyed" for x c
    using rmap_Inr_set [OF k that] by auto
  have "sorted_wrt (\<lambda>a b. \<not> fst a < fst b) (sort_by (\<lambda>a b. fst b < fst a) keyed)"
    by (rule sorted_sort_by) (rule weak_order_key)
  then have "sorted_wrt (\<lambda>a b. \<exists>x y. rank_key ev a = Inr x \<and> rank_key ev b = Inr y \<and> y \<le> x) ranked"
    unfolding r sorted_wrt_map
  proof (rule sorted_wrt_mono_rel [rotated])
    fix a b assume a: "a \<in> set (sort_by (\<lambda>a b. fst b < fst a) keyed)" "b \<in> set (sort_by (\<lambda>a b. fst b < fst a) keyed)"
      and le: "\<not> fst a < fst b"
    have "rank_key ev (snd a) = Inr (fst a)" "rank_key ev (snd b) = Inr (fst b)" using a key by simp_all
    then show "\<exists>x y. rank_key ev (snd a) = Inr x \<and> rank_key ev (snd b) = Inr y \<and> y \<le> x" using le by simp
  qed
  ultimately show ?thesis by blast
qed

lemma eval_batch_out:
  assumes "eval_batch ev is_open now1 now2 first queue st = Inr (st', out, cont)"
  obtains (none) "out = []" "cont"
  | (emitted) passed cands ranked st3 where
      "\<not> too_old ev (cb_ts (merge_queue first queue)) now1" "\<not> too_old ev (cb_ts (merge_queue first queue)) now2"
      "tier1 ev (candidate_ids ev (merge_queue first queue)) = Inr passed"
      "tier2 ev (merge_queue first queue) (rank_tier1 ev passed) = Inr cands" "rank_candidates ev cands = Inr ranked"
      "emit_loop ev is_open ranked {} [] st3 = Inr (st', out, cont)"
proof -
  define b where "b = merge_queue first queue"
  note e = assms [unfolded eval_batch_def Let_def, folded b_def]
  show ?thesis
  proof (cases "too_old ev (cb_ts b) now1 \<or> candidate_ids ev b = []")
    case True
    then show ?thesis using e none by (auto split: if_splits)
  next
    case False
    then obtain passed where p: "tier1 ev (candidate_ids ev b) = Inr passed"
      using e by (auto split: if_splits)
    show ?thesis
    proof (cases "passed = [] \<or> too_old ev (cb_ts b) now2")
      case True
      then show ?thesis using e False p none by (auto split: if_splits)
    next
      case go: False
      then obtain cands where c: "tier2 ev b (rank_tier1 ev passed) = Inr cands"
        using e False p by (auto split: if_splits)
      show ?thesis
      proof (cases "cands = []")
        case True
        then show ?thesis using e False p go c none by (auto split: if_splits)
      next
        case ne: False
        then have "\<exists>st3. rbind (rank_candidates ev cands) (\<lambda>ranked. emit_loop ev is_open ranked {} [] st3) = Inr (st', out, cont)"
          using e False p go c by (intro exI) simp
        then show ?thesis using False p go c emitted [folded b_def] unfolding rbind_eq_Inr by (elim exE conjE) blast
      qed
    qed
  qed
qed

lemma rank_tier1_subset: "set (rank_tier1 ev passed) \<subseteq> set passed"
  using set_take_subset [of "rc_tier2_top_n (e_cfg ev)" "sort_by (\<lambda>a b. flt (snd b) (snd a)) passed"]
  unfolding rank_tier1_def set_sort_by .

lemma emitted_origin:
  assumes "eval_batch ev is_open now1 now2 first queue st = Inr (st', out, cont)" "c \<in> set out"
  obtains rid where "rid \<in> set (candidate_ids ev (merge_queue first queue))" "vetted ev (merge_queue first queue) rid c"
    "\<not> too_old ev (cb_ts (merge_queue first queue)) now2"
proof (cases rule: eval_batch_out [OF assms(1)])
  case 1
  then show ?thesis using assms(2) by simp
next
  case (2 passed cands ranked st3)
  have "c \<in> set ranked" using emit_loop_spec [OF 2(6)] assms(2) by (auto dest: subseq_set)
  then have "c \<in> set cands" using rank_candidates_Inr [OF 2(5)] by (metis set_mset_mset)
  then obtain rid p where "(rid, p) \<in> set (rank_tier1 ev passed)" "vetted ev (merge_queue first queue) rid c"
    using tier2_Inr [OF 2(4)] by blast
  moreover have "(rid, p) \<in> set passed" if "(rid, p) \<in> set (rank_tier1 ev passed)" for rid p
    using that rank_tier1_subset by blast
  ultimately show ?thesis using that tier1_Inr [OF 2(3)] 2(2) by blast
qed

section \<open>A concrete run\<close>

definition arb_anchor :: anchor_config where
  "arb_anchor = \<lparr>an_symbol = ''A'', an_token = 1, an_decimals = 0, an_min_liquidity = f64_lit 0, an_min_profit = ''5'',
     an_max_trade = f64_lit 1000, an_min_trade = f64_lit 1\<rparr>"

definition free_gas :: gas_station where
  "free_gas = gas_new \<lparr>prio_fraction = f64_lit 0, min_prio_gwei = f64_lit 0, max_prio_gwei = f64_lit 0, l1_fee_margin = f64_lit 1\<rparr>"

definition arb_ev :: "unit evaluator" where
  "arb_ev = \<lparr>e_keccak = sample_hash, e_lib = sample_lib, e_parse = (\<lambda>_. Some 5), e_engine = arb_engine, e_state = arb_state,
     e_store = store_build [arb_route] 2, e_gas = free_gas,
     e_cfg = default_routing_config\<lparr>rc_drop_ms := 100, rc_spot_gate_bps := f64_lit 0, rc_tier2_top_n := 4\<rparr>,
     e_anchors = [arb_anchor], e_prices = [1 \<mapsto> f64_lit 1]\<rparr>"

definition arb_batch :: "u64 \<Rightarrow> pool_idx list \<Rightarrow> nat \<Rightarrow> changed_batch" where
  "arb_batch b ps t = \<lparr>cb_block = b, cb_pools = ps, cb_ts = t\<rparr>"

definition arb_found :: evaluated where
  "arb_found = \<lparr>ev_opp = arb_opp, ev_net = 2980, ev_gas_units = 360000, ev_gas_cost = 0, ev_prio = 0, ev_block = 8, ev_detected_at = 5\<rparr>"

lemma arb_numbered: "numbered [arb_route] 2"
  by (simp add: numbered_def arb_route_def idx_get_def)

lemma arb_candidates: "candidate_ids arb_ev (merge_queue (arb_batch 7 [1] 5) [arb_batch 8 [0] 6]) = [0]"
proof -
  have "routes_for_pool (store_build [arb_route] 2) 0 = [0]" "routes_for_pool (store_build [arb_route] 2) 1 = [0]"
    by code_simp+
  then show ?thesis
    by (simp add: candidate_ids_def merge_queue_def merge_batch_def arb_batch_def arb_ev_def)
qed

lemma arb_spot: "spot_product arb_engine arb_state arb_route = Inr (f64_lit 4)"
proof -
  have "spot_rate arb_state ((sample_meta 0 10)\<lparr>pm_fee_bps := 0\<rparr>) True = f64_lit 4"
    by (simp add: spot_rate_def arb_plans arb_reads sample_meta_def) code_simp
  moreover have "spot_rate arb_state ((sample_meta 1 11)\<lparr>pm_fee_bps := 0\<rparr>) False = f64_lit 1"
    by (simp add: spot_rate_def arb_plans arb_reads sample_meta_def) code_simp
  moreover have "fmul (f64_lit 1) (f64_lit 4) = f64_lit 4" "fmul (f64_lit 4) (f64_lit 1) = f64_lit 4"
    "feq (f64_lit 4) (f64_lit 0) = False" by code_simp+
  ultimately show ?thesis by (simp add: spot_product_def arb_route_def arb_plans)
qed

lemma arb_tier1: "tier1 arb_ev [0] = Inr [(0, f64_lit 4)]"
proof -
  have "store_route (e_store arb_ev) 0 = Inr arb_route" by (simp add: arb_ev_def store_route_def store_build_def)
  moreover have "e_engine arb_ev = arb_engine" "e_state arb_ev = arb_state" by (simp_all add: arb_ev_def)
  moreover have "flt (fadd (f64_lit 1) (fdiv (f64_lit 0) (f64_lit 10000))) (f64_lit 4)" by code_simp
  then have "flt (spot_gate arb_ev) (f64_lit 4)" by (simp add: spot_gate_def arb_ev_def)
  ultimately show ?thesis by (simp add: tier1_def arb_spot)
qed

lemma arb_conversions:
  "anchor_to_weth_wei arb_ev arb_anchor 2980 = Inr 2980000000000000000000"
  "weth_wei_to_anchor arb_ev arb_anchor 0 = Inr 0"
proof -
  have r: "anchor_rate arb_ev arb_anchor = Inr (f64_lit 1)" by (simp add: anchor_rate_def arb_ev_def arb_anchor_def)
  have "f64_to_u128 (fmul (fmul (fdiv (f64_of_u128 2980) (f64_powi (f64_lit 10) (uint (an_decimals arb_anchor)))) (f64_lit 1))
      (f64_lit (10 ^ 18))) = 2980000000000000000000"
    "f64_to_u128 (fmul (fdiv (fdiv (f64_of_u128 0) (f64_lit (10 ^ 18))) (f64_lit 1))
      (f64_powi (f64_lit 10) (uint (an_decimals arb_anchor)))) = 0"
    by code_simp+
  then show "anchor_to_weth_wei arb_ev arb_anchor 2980 = Inr 2980000000000000000000"
    "weth_wei_to_anchor arb_ev arb_anchor 0 = Inr 0"
    unfolding anchor_to_weth_wei_def weth_wei_to_anchor_def r rbind_Inr by simp_all
qed

lemma arb_costs:
  "priority_fee free_gas 2980000000000000000000 360000 = Inr 0" "total_gas_cost free_gas 360000 0 584 = 0"
  "route_gas_units [GasV2, GasV2] True = 360000" "u128_from 2980 = Inr 2980"
proof -
  have c: "prio_fraction (gs_cfg free_gas) = FZero False" "min_prio_gwei (gs_cfg free_gas) = FZero False"
    "max_prio_gwei (gs_cfg free_gas) = FZero False" "gs_base_fee free_gas = 0" "gs_per_unit free_gas = 0"
    by (simp_all add: free_gas_def gas_new_def)
  have "f64_to_u128 (fmul (FZero False) (f64_lit (10 ^ 9))) = 0" by code_simp
  then show "priority_fee free_gas 2980000000000000000000 360000 = Inr 0"
    by (simp add: priority_fee_def c zero_fraction u128_clamp_def)
  show "total_gas_cost free_gas 360000 0 584 = 0" by (simp add: total_gas_cost_def base_fee_def estimate_l1_fee_def c)
  show "route_gas_units [GasV2, GasV2] True = 360000" by (simp add: route_gas_units_def)
  show "u128_from 2980 = Inr 2980" by (simp add: u128_from_def to_u128_def)
qed

lemma arb_vetting: "tier2_one arb_ev (arb_batch 8 [1, 0] 5) 0 = Inr (Some arb_found)"
proof -
  have st: "store_route (e_store arb_ev) 0 = Inr arb_route" by (simp add: arb_ev_def store_route_def store_build_def)
  have f: "e_engine arb_ev = arb_engine" "e_state arb_ev = arb_state" "e_keccak arb_ev = sample_hash" "e_lib arb_ev = sample_lib"
    "e_gas arb_ev = free_gas" "e_parse arb_ev = (\<lambda>_. Some 5)" by (simp_all add: arb_ev_def)
  have a: "anchor_by_token (e_anchors arb_ev) (rt_anchor arb_route) = Some arb_anchor"
    by (simp add: arb_ev_def anchor_by_token_def arb_anchor_def arb_route_def)
  have b: "fmul (an_min_trade arb_anchor) (f64_powi (f64_lit 10) (uint (an_decimals arb_anchor))) = f64_lit 1"
    "fmul (an_max_trade arb_anchor) (f64_powi (f64_lit 10) (uint (an_decimals arb_anchor))) = f64_lit 1000" by code_simp+
  have k: "rmap (\<lambda>h. rbind (eng_meta arb_engine (hop_pool h)) (\<lambda>m. Inr (hop_kind (pm_dex m)))) (rt_hops arb_route) = Inr [GasV2, GasV2]"
    by (simp add: arb_route_def arb_plans sample_meta_def hop_kind_def dex_defs)
  have opp: "op_route_id arb_opp = 0" "op_gross_profit arb_opp = 2980" by (simp_all add: arb_opp_def)
  have "apply_gas_gate arb_ev arb_opp 8 arb_anchor 5 = Inr (Some arb_found)"
    unfolding apply_gas_gate_def opp st rbind_Inr f k Let_def arb_costs arb_conversions
    by (simp add: arb_costs arb_conversions arb_route_def min_profit_def arb_found_def)
  then show ?thesis
    unfolding tier2_one_def st rbind_Inr a from_option_simps f Let_def b arb_optimize option.case by (simp add: arb_batch_def)
qed

lemma arb_run:
  "eval_batch arb_ev (\<lambda>_. True) 10 20 (arb_batch 7 [1] 5) [arb_batch 8 [0] 6] stats_new =
     Inr (stats_new\<lparr>n_batches_evaluated := 1, n_routes_tier1 := 1, n_routes_tier1_passed := 1, n_routes_tier2 := 1,
                     n_opportunities := 1\<rparr>, [arb_found], True)"
proof -
  let ?b = "merge_queue (arb_batch 7 [1] 5) [arb_batch 8 [0] 6]"
  have b: "?b = arb_batch 8 [1, 0] 5" by (simp add: merge_queue_def merge_batch_def arb_batch_def)
  have old: "\<not> too_old arb_ev 5 10" "\<not> too_old arb_ev 5 20" by (simp_all add: too_old_def arb_ev_def)
  have r: "rank_tier1 arb_ev [(0, f64_lit 4)] = [(0, f64_lit 4)]"
    by (simp add: rank_tier1_def sort_by_def arb_ev_def)
  have t2: "tier2 arb_ev (arb_batch 8 [1, 0] 5) [(0, f64_lit 4)] = Inr [arb_found]"
    by (simp add: tier2_def arb_vetting)
  have st: "store_route (e_store arb_ev) 0 = Inr arb_route" by (simp add: arb_ev_def store_route_def store_build_def)
  have "rank_key arb_ev arb_found = Inr 2980000000000000000000"
  proof -
    have "anchor_by_token (e_anchors arb_ev) (rt_anchor arb_route) = Some arb_anchor"
      by (simp add: arb_ev_def anchor_by_token_def arb_anchor_def arb_route_def)
    then show ?thesis by (simp add: rank_key_def arb_found_def arb_opp_def st arb_conversions)
  qed
  then have rc: "rank_candidates arb_ev [arb_found] = Inr [arb_found]" by (simp add: rank_candidates_def sort_by_def)
  show ?thesis
    unfolding eval_batch_def Let_def b arb_candidates [unfolded b] arb_tier1 rbind_Inr r t2 rc
    using old by (simp add: arb_batch_def st arb_found_def arb_opp_def stats_new_def)
qed

section \<open>Properties\<close>



text \<open>C3. Every opportunity sent is vetted: its route crosses a pool that one of the merged batches flagged,
  its exact output repays the input and the estimated gas with the net profit left over, the net
  reaches the anchor's floor, and it carries the newest block and the oldest time of the batches.\<close>
theorem emitted_vetted:
  assumes "eval_batch ev is_open now1 now2 first queue st = Inr (st', out, cont)" "c \<in> set out"
    and "e_store ev = store_build rs n" "numbered rs n"
  shows "ev_block c = Max (cb_block ` set (first # queue)) \<and> ev_detected_at c = Min (cb_ts ` set (first # queue)) \<and>
    (\<exists>r \<in> set rs. \<exists>a cost floor_profit.
      rt_id r = op_route_id (ev_opp c) \<and>
      (\<exists>b \<in> set (first # queue). hop_pool ` set (rt_hops r) \<inter> set (cb_pools b) \<noteq> {}) \<and>
      quote_route (e_keccak ev) (e_lib ev) (e_engine ev) (e_state ev) r (op_amount_in (ev_opp c)) =
        Inr (Some (op_gross_out (ev_opp c))) \<and>
      anchor_by_token (e_anchors ev) (rt_anchor r) = Some a \<and>
      weth_wei_to_anchor ev a (ev_gas_cost c) = Inr cost \<and>
      unat (op_amount_in (ev_opp c)) + unat cost + unat (ev_net c) \<le> unat (op_gross_out (ev_opp c)) \<and>
      e_parse ev (an_min_profit a) = Some floor_profit \<and> unat floor_profit \<le> unat (ev_net c))"
proof -
  let ?b = "merge_queue first queue"
  obtain rid where rid: "rid \<in> set (candidate_ids ev ?b)" and v: "vetted ev ?b rid c"
    using emitted_origin [OF assms(1,2)] .
  have "rid \<in> set (concat (map (routes_for_pool (store_build rs n)) (cb_pools ?b)))"
    using rid by (simp add: set_candidate_ids assms(3))
  then obtain i where i: "i < length rs" "rid = of_nat i" "hop_pool ` set (rt_hops (rs ! i)) \<inter> set (cb_pools ?b) \<noteq> {}"
    using ri.candidates_iff [OF assms(4)] by blast
  let ?r = "rs ! i"
  have st: "store_route (e_store ev) rid = Inr ?r" using ri.route_at_build [OF assms(4) i(1)] i(2) assms(3) by simp
  obtain a gross cost fl where
    g: "anchor_by_token (e_anchors ev) (rt_anchor ?r) = Some a"
      "optimize (e_keccak ev) (e_lib ev) (e_engine ev) (e_state ev) ?r (fst (trade_bounds a)) (snd (trade_bounds a)) = Inr (Some (ev_opp c))"
      "u128_from (op_gross_profit (ev_opp c)) = Inr gross" "weth_wei_to_anchor ev a (ev_gas_cost c) = Inr cost"
      "cost < gross" "ev_net c = gross - cost" "e_parse ev (an_min_profit a) = Some fl" "fl \<le> ucast (ev_net c)"
    using v st unfolding vetted_def by auto
  have stamp: "ev_block c = cb_block ?b" "ev_detected_at c = cb_ts ?b" using v by (simp_all add: vetted_def)
  have "rt_id ?r = op_route_id (ev_opp c)" using sizer.sized [OF g(2)] by simp
  moreover have "\<exists>b \<in> set (first # queue). hop_pool ` set (rt_hops ?r) \<inter> set (cb_pools b) \<noteq> {}"
    using i(3) unfolding merge_queue_fields(3) by blast
  moreover have "quote_route (e_keccak ev) (e_lib ev) (e_engine ev) (e_state ev) ?r (op_amount_in (ev_opp c)) =
      Inr (Some (op_gross_out (ev_opp c)))"
    using g(2) by (rule optimize_Some)
  moreover have "unat (op_amount_in (ev_opp c)) + unat cost + unat (ev_net c) \<le> unat (op_gross_out (ev_opp c))"
    using sizer.covers [OF g(2,3,5)] g(6) by simp
  moreover have "unat fl \<le> unat (ev_net c)"
    using g(8) by (simp add: word_le_nat_alt unat_ucast_up)
  ultimately show ?thesis using g(1,4,7) i(1) stamp unfolding merge_queue_fields(1,2) by (metis nth_mem)
qed

theorem emitted_vetted_witness:
  "ev_block arb_found = 8 \<and>
   (\<exists>r cost. quote_route sample_hash sample_lib arb_engine arb_state r 1000 = Inr (Some 3980) \<and>
      1000 + unat (cost :: u128) + 2980 \<le> 3980)"
proof -
  have "e_store arb_ev = store_build [arb_route] 2" by (simp add: arb_ev_def)
  note v = emitted_vetted [OF arb_run _ this arb_numbered, of arb_found]
  have f: "e_engine arb_ev = arb_engine" "e_state arb_ev = arb_state" "e_keccak arb_ev = sample_hash" "e_lib arb_ev = sample_lib"
    by (simp_all add: arb_ev_def)
  have o: "op_amount_in (ev_opp arb_found) = 1000" "op_gross_out (ev_opp arb_found) = 3980" "unat (ev_net arb_found) = 2980"
    by (simp_all add: arb_found_def arb_opp_def)
  obtain r cost where
    "quote_route (e_keccak arb_ev) (e_lib arb_ev) (e_engine arb_ev) (e_state arb_ev) r (op_amount_in (ev_opp arb_found)) =
       Inr (Some (op_gross_out (ev_opp arb_found)))"
    "unat (op_amount_in (ev_opp arb_found)) + unat (cost :: u128) + unat (ev_net arb_found) \<le> unat (op_gross_out (ev_opp arb_found))"
    using v by auto
  then have "quote_route sample_hash sample_lib arb_engine arb_state r 1000 = Inr (Some 3980) \<and> 1000 + unat cost + 2980 \<le> 3980"
    unfolding f o by simp
  moreover have "ev_block arb_found = 8" using v by (simp add: arb_batch_def)
  ultimately show ?thesis by blast
qed

text \<open>Staleness sheds the whole backlog: if any batch of the queue is older than the drop limit when the
  queue is drained, the merged batch is dropped, nothing is sent, and only the stale counter moves.\<close>
lemma stale_dropped:
  assumes "b \<in> set (first # queue)" "too_old ev (cb_ts b) now1"
  shows "eval_batch ev is_open now1 now2 first queue st = Inr (st\<lparr>n_batches_stale := n_batches_stale st + 1\<rparr>, [], True)"
proof -
  have "cb_ts (merge_queue first queue) \<le> cb_ts b"
    unfolding merge_queue_fields using assms(1) by (intro Min_le) auto
  then have "too_old ev (cb_ts (merge_queue first queue)) now1" using assms(2) by (auto simp: too_old_def)
  then show ?thesis by (simp add: eval_batch_def Let_def)
qed

lemma stale_dropped_witness:
  "eval_batch arb_ev (\<lambda>_. True) 200 201 (arb_batch 7 [1] 150) [arb_batch 8 [0] 6] stats_new =
     Inr (stats_new\<lparr>n_batches_stale := 1\<rparr>, [], True)"
  using stale_dropped [of "arb_batch 8 [0] 6" "arb_batch 7 [1] 150" "[arb_batch 8 [0] 6]" arb_ev 200 "\<lambda>_. True" 201 stats_new]
  by (simp add: too_old_def arb_ev_def arb_batch_def stats_new_def)

text \<open>The routes re-evaluated for a queue of batches are exactly those crossing a pool some batch flagged,
  each once, in increasing id order.\<close>
lemma candidates_exact:
  assumes "e_store ev = store_build rs n" "numbered rs n"
  shows "sorted (candidate_ids ev (merge_queue first queue)) \<and> distinct (candidate_ids ev (merge_queue first queue)) \<and>
    set (candidate_ids ev (merge_queue first queue)) =
      {of_nat i | i. i < length rs \<and> (\<exists>b \<in> set (first # queue). hop_pool ` set (rt_hops (rs ! i)) \<inter> set (cb_pools b) \<noteq> {})}"
proof -
  have "set (candidate_ids ev (merge_queue first queue)) =
      {of_nat i | i. i < length rs \<and> hop_pool ` set (rt_hops (rs ! i)) \<inter> (\<Union>b \<in> set (first # queue). set (cb_pools b)) \<noteq> {}}"
    unfolding set_candidate_ids assms(1) merge_queue_fields(3) [symmetric]
    using ri.candidates_iff [OF assms(2)] by blast
  also have "\<dots> = {of_nat i | i. i < length rs \<and> (\<exists>b \<in> set (first # queue). hop_pool ` set (rt_hops (rs ! i)) \<inter> set (cb_pools b) \<noteq> {})}"
    by blast
  finally show ?thesis by (simp add: sorted_candidate_ids)
qed

lemma candidates_exact_witness:
  "distinct (candidate_ids arb_ev (merge_queue (arb_batch 7 [1] 5) [])) \<and>
   0 \<in> set (candidate_ids arb_ev (merge_queue (arb_batch 7 [1] 5) []))"
proof -
  have "e_store arb_ev = store_build [arb_route] 2" by (simp add: arb_ev_def)
  from candidates_exact [OF this arb_numbered, of "arb_batch 7 [1] 5" "[]"]
  show ?thesis by (auto simp: arb_batch_def arb_route_def)
qed

text \<open>
  The conversion to ETH-wei is not the identity for the WETH anchor (rate 1, 18 decimals), as its
  comment claims: floating-point rounding loses a wei on small amounts already.
\<close>

lemma weth_conversion_lossy:
  assumes "e_prices ev WETH = Some (f64_lit 1)"
  shows "anchor_to_weth_wei ev (arb_anchor\<lparr>an_token := WETH, an_decimals := 18\<rparr>) 447 = Inr 446"
proof -
  have "f64_to_u128 (fmul (fmul (fdiv (f64_of_u128 447) (f64_powi (f64_lit 10) (uint (18 :: u8)))) (f64_lit 1))
      (f64_lit (10 ^ 18))) = 446"
    by code_simp
  then show ?thesis using assms by (simp add: anchor_to_weth_wei_def anchor_rate_def)
qed

end
