(* ===== verification/Encoder.thy ===== *)
theory Encoder
  imports Evaluator
begin

text \<open>
  Building the executor call, \<^verbatim>\<open>src/executor/encoder.rs\<close>.  The ABI encoding of the finished
  call is generated code of the contract bindings, so it is a parameter (\<open>abi_encode\<close>); the call's
  fields are the model.
\<close>

section \<open>The call\<close>

record exec_hop =
  xh_kind :: u8
  xh_pool :: address
  xh_zero_for_one :: bool
  xh_fee_bps :: u16

record v4_key =
  vk_currency0 :: address
  vk_currency1 :: address
  vk_fee :: u32
  vk_tick_spacing :: int

record exec_call =
  xc_hops :: "exec_hop list"
  xc_v4_keys :: "v4_key list"
  xc_anchor :: address
  xc_amount_in :: u256
  xc_min_profit :: u256
  xc_use_flashloan :: bool

fun hop_kind_byte :: "dex_tag \<Rightarrow> u8" where
  "hop_kind_byte UniV2Fork = 0"
| "hop_kind_byte AeroVolatile = 0"
| "hop_kind_byte AeroStable = 1"
| "hop_kind_byte UniV3Fork = 2"
| "hop_kind_byte PancakeV3 = 2"
| "hop_kind_byte Slipstream = 2"
| "hop_kind_byte UniV4 = 3"
| "hop_kind_byte Algebra = 4"

text \<open>
  The PoolKey of a V4 hop: the conversions to 24 bits panic when fee or spacing do not fit, and a V4
  tag without its payload panics before them.
\<close>

definition v4_key_of :: "pool_meta \<Rightarrow> v4_key res" where
  "v4_key_of meta =
     rbind (from_option ExpectFailed (pm_v4 meta)) (\<lambda>v4.
       if 2 ^ 24 \<le> unat (v4_fee_pips v4) then Inl ConversionLoss
       else if v4_tick_spacing v4 < - (2 ^ 23) \<or> 2 ^ 23 \<le> v4_tick_spacing v4 then Inl ExpectFailed
       else Inr \<lparr>vk_currency0 = v4_currency0 v4, vk_currency1 = v4_currency1 v4,
                 vk_fee = v4_fee_pips v4, vk_tick_spacing = v4_tick_spacing v4\<rparr>)"

definition encode_hop ::
    "engine \<Rightarrow> exec_hop list \<times> v4_key list \<Rightarrow> hop \<Rightarrow> (exec_hop list \<times> v4_key list) res" where
  "encode_hop e acc h =
     (let (hops, keys) = acc
      in rbind (eng_meta e (hop_pool h)) (\<lambda>meta.
           let kind = hop_kind_byte (pm_dex meta)
           in if kind = 3 then
                rbind (v4_key_of meta) (\<lambda>key.
                  let keys' = keys @ [key]
                  in Inr (hops @ [\<lparr>xh_kind = kind, xh_pool = 0, xh_zero_for_one = hop_zero_for_one h,
                                   xh_fee_bps = of_nat (length keys' - 1)\<rparr>], keys'))
              else Inr (hops @ [\<lparr>xh_kind = kind, xh_pool = pm_address meta, xh_zero_for_one = hop_zero_for_one h,
                                 xh_fee_bps = ucast (pm_fee_bps meta)\<rparr>], keys)))"

fun encode_hops ::
    "engine \<Rightarrow> exec_hop list \<times> v4_key list \<Rightarrow> hop list \<Rightarrow> (exec_hop list \<times> v4_key list) res" where
  "encode_hops e acc [] = Inr acc"
| "encode_hops e acc (h # hs) = rbind (encode_hop e acc h) (\<lambda>acc'. encode_hops e acc' hs)"

definition encode_call ::
    "engine \<Rightarrow> route_store \<Rightarrow> evaluated \<Rightarrow> u256 \<Rightarrow> bool \<Rightarrow> exec_call res" where
  "encode_call e store ev own_balance force_flashloan =
     rbind (store_route store (op_route_id (ev_opp ev))) (\<lambda>route.
     rbind (encode_hops e ([], []) (rt_hops route)) (\<lambda>(hops, keys).
       Inr \<lparr>xc_hops = hops, xc_v4_keys = keys, xc_anchor = rt_anchor route,
            xc_amount_in = op_amount_in (ev_opp ev), xc_min_profit = 0,
            xc_use_flashloan = (force_flashloan \<or> own_balance < op_amount_in (ev_opp ev))\<rparr>))"

definition encode ::
    "(exec_call \<Rightarrow> u8 list) \<Rightarrow> engine \<Rightarrow> route_store \<Rightarrow> evaluated \<Rightarrow> u256 \<Rightarrow> bool \<Rightarrow> (u8 list \<times> bool) res" where
  "encode abi_encode e store ev own_balance force_flashloan =
     rbind (encode_call e store ev own_balance force_flashloan) (\<lambda>c. Inr (abi_encode c, xc_use_flashloan c))"

section \<open>What the contract decodes\<close>

text \<open>
  The executor contract reads a hop back as a pool identity: kind 3 through the key its \<open>feeBps\<close>
  field indexes, any other kind by address.
\<close>

datatype pool_ref = ByKey v4_key | ByAddress address

definition decode_hop :: "v4_key list \<Rightarrow> exec_hop \<Rightarrow> pool_ref option" where
  "decode_hop keys h =
     (if xh_kind h = 3 then map_option ByKey (get keys (unat (xh_fee_bps h)))
      else Some (ByAddress (xh_pool h)))"

definition pool_ref_of :: "pool_meta \<Rightarrow> pool_ref res" where
  "pool_ref_of m = (if pm_dex m = UniV4 then rbind (v4_key_of m) (\<lambda>k. Inr (ByKey k)) else Inr (ByAddress (pm_address m)))"

lemma hop_kind_v4: "hop_kind_byte d = 3 \<longleftrightarrow> d = UniV4"
  by (cases d) simp_all

text \<open>The encoding of one hop against the final key list.\<close>

definition encodes :: "engine \<Rightarrow> v4_key list \<Rightarrow> hop \<Rightarrow> exec_hop \<Rightarrow> bool" where
  "encodes e keys h x \<longleftrightarrow>
     (\<exists>m r. eng_meta e (hop_pool h) = Inr m \<and> pool_ref_of m = Inr r \<and> decode_hop keys x = Some r \<and>
        xh_kind x = hop_kind_byte (pm_dex m) \<and> xh_zero_for_one x = hop_zero_for_one h)"

lemma encodes_more: "encodes e keys h x \<Longrightarrow> encodes e (keys @ extra) h x"
  by (fastforce simp: encodes_def decode_hop_def get_def nth_append split: if_splits)

lemma encode_hop_encodes:
  assumes "encode_hop e (hops, keys) h = Inr (hops', keys')" "length keys < 2 ^ 16"
  shows "\<exists>x extra. hops' = hops @ [x] \<and> keys' = keys @ extra \<and> length extra \<le> 1 \<and> encodes e keys' h x"
proof -
  obtain m where m: "eng_meta e (hop_pool h) = Inr m" using assms(1) by (auto simp: encode_hop_def)
  show ?thesis
  proof (cases "pm_dex m = UniV4")
    case True
    then obtain k where k: "v4_key_of m = Inr k"
      "hops' = hops @ [\<lparr>xh_kind = 3, xh_pool = 0, xh_zero_for_one = hop_zero_for_one h, xh_fee_bps = of_nat (length keys)\<rparr>]"
      "keys' = keys @ [k]"
      using assms(1) m by (auto simp: encode_hop_def Let_def)
    have "unat (of_nat (length keys) :: u16) = length keys" using assms(2) by (intro unat_of_nat_id) simp
    then show ?thesis using k m True by (auto simp: encodes_def decode_hop_def pool_ref_of_def)
  next
    case False
    let ?x = "\<lparr>xh_kind = hop_kind_byte (pm_dex m), xh_pool = pm_address m, xh_zero_for_one = hop_zero_for_one h,
        xh_fee_bps = ucast (pm_fee_bps m)\<rparr>"
    have "hop_kind_byte (pm_dex m) \<noteq> 3" using False by (simp add: hop_kind_v4)
    then have "hops' = hops @ [?x]" "keys' = keys" "encodes e keys h ?x"
      using assms(1) m False by (auto simp: encode_hop_def Let_def encodes_def decode_hop_def pool_ref_of_def)
    then show ?thesis by auto
  qed
qed

lemma encode_hops_encodes:
  assumes "encode_hops e (hops, keys) hs = Inr (hops', keys')" "length keys + length hs \<le> 2 ^ 16"
  shows "\<exists>new extra. hops' = hops @ new \<and> keys' = keys @ extra \<and> list_all2 (encodes e keys') hs new"
  using assms
proof (induction hs arbitrary: hops keys)
  case (Cons h hs)
  obtain hops1 keys1 where s: "encode_hop e (hops, keys) h = Inr (hops1, keys1)" "encode_hops e (hops1, keys1) hs = Inr (hops', keys')"
    using Cons.prems(1) by auto
  obtain x extra where x: "hops1 = hops @ [x]" "keys1 = keys @ extra" "length extra \<le> 1" "encodes e keys1 h x"
    using encode_hop_encodes [OF s(1)] Cons.prems(2) by auto
  obtain new extra' where n: "hops' = hops1 @ new" "keys' = keys1 @ extra'" "list_all2 (encodes e keys') hs new"
    using Cons.IH [OF s(2)] Cons.prems(2) x(2,3) by auto
  have "encodes e keys' h x" using encodes_more [OF x(4)] n(2) by simp
  then show ?case using x n by (intro exI [of _ "x # new"] exI [of _ "extra @ extra'"]) simp
qed simp

section \<open>Properties\<close>

text \<open>C22. The call the contract receives names the route the evaluator sized: one hop per route hop, each of
  which reads back (V4 hops through the key table) as the identity, kind and direction of the
  registered pool, with the sized input and anchor; and a flash loan whenever the input exceeds the
  balance.\<close>
theorem encode_faithful:
  assumes "store_route store (op_route_id (ev_opp ev)) = Inr route" "length (rt_hops route) \<le> 2 ^ 16"
    and "encode_call e store ev own force = Inr c"
  shows "list_all2 (encodes e (xc_v4_keys c)) (rt_hops route) (xc_hops c) \<and>
    xc_anchor c = rt_anchor route \<and> xc_amount_in c = op_amount_in (ev_opp ev) \<and>
    (xc_use_flashloan c \<or> op_amount_in (ev_opp ev) \<le> own)"
proof -
  obtain hops keys where h: "encode_hops e ([], []) (rt_hops route) = Inr (hops, keys)"
    "c = \<lparr>xc_hops = hops, xc_v4_keys = keys, xc_anchor = rt_anchor route, xc_amount_in = op_amount_in (ev_opp ev),
          xc_min_profit = 0, xc_use_flashloan = (force \<or> own < op_amount_in (ev_opp ev))\<rparr>"
    using assms(1,3) by (auto simp: encode_call_def)
  from encode_hops_encodes [OF h(1)] assms(2) show ?thesis unfolding h(2) by auto
qed

theorem encode_faithful_witness:
  "\<exists>c. encode_call arb_engine (store_build [arb_route] 2) arb_found 10 False = Inr c \<and> xc_use_flashloan c \<and>
     list_all2 (encodes arb_engine (xc_v4_keys c)) (rt_hops arb_route) (xc_hops c)"
proof -
  have st: "store_route (store_build [arb_route] 2) (op_route_id (ev_opp arb_found)) = Inr arb_route"
    by (simp add: store_route_def store_build_def arb_found_def arb_opp_def)
  obtain c where c: "encode_call arb_engine (store_build [arb_route] 2) arb_found 10 False = Inr c"
    using st by (simp add: encode_call_def arb_route_def encode_hop_def arb_plans sample_meta_def Let_def)
  have "\<not> op_amount_in (ev_opp arb_found) \<le> 10" by (simp add: arb_found_def arb_opp_def)
  then show ?thesis using encode_faithful [OF st _ c] c by (auto simp: arb_route_def)
qed

end
