(* ===== verification/Multicall.thy ===== *)
theory Multicall
  imports Engine
begin

text \<open>
  Batched calls and bisecting log fetches, \<^verbatim>\<open>src/ingest/multicall.rs\<close>.  The provider is a
  parameter that answers requests in sequence: an oracle over a world that each request moves on, so
  a retry may be answered differently.
\<close>

section \<open>Retries\<close>

type_synonym ('w, 'q, 'e, 'a) provider = "'q \<Rightarrow> 'w \<Rightarrow> ('e + 'a) \<times> 'w"

text \<open>
  The retry loop: the request is repeated until it succeeds or \<open>n\<close> attempts have failed; the last
  error is returned.  The sleeps between attempts have no effect on the result.
\<close>

fun with_retries :: "('w, 'q, 'e, 'a) provider \<Rightarrow> nat \<Rightarrow> 'q \<Rightarrow> 'w \<Rightarrow> ('e + 'a) \<times> 'w" where
  "with_retries p 0 q w = p q w"
| "with_retries p (Suc n) q w =
     (case p q w of
        (Inr a, w') \<Rightarrow> (Inr a, w')
      | (Inl e, w') \<Rightarrow> if n = 0 then (Inl e, w') else with_retries p n q w')"

section \<open>Aggregated calls\<close>

record mc_call =
  mc_target :: address
  mc_calldata :: "u8 list"

record mc_call3 =
  c3_target :: address
  c3_allow_failure :: bool
  c3_calldata :: "u8 list"

definition call3_of :: "mc_call \<Rightarrow> mc_call3" where
  "call3_of c = \<lparr>c3_target = mc_target c, c3_allow_failure = True, c3_calldata = mc_calldata c\<rparr>"

text \<open>\<open>slice::chunks\<close>.\<close>

function chunks :: "nat \<Rightarrow> 'a list \<Rightarrow> 'a list list" where
  "chunks n xs = (if n = 0 \<or> xs = [] then [] else take n xs # chunks n (drop n xs))"
  by pat_completeness auto
termination by (relation "measure (length \<circ> snd)") auto

declare chunks.simps [simp del]

fun aggregate_chunks ::
    "('w, mc_call3 list, 'e, 'r list) provider \<Rightarrow> mc_call list list \<Rightarrow> 'r list \<Rightarrow> 'w \<Rightarrow> ('e + 'r list) \<times> 'w" where
  "aggregate_chunks p [] out w = (Inr out, w)"
| "aggregate_chunks p (c # cs) out w =
     (case with_retries p 5 (map call3_of c) w of
        (Inl e, w') \<Rightarrow> (Inl e, w')
      | (Inr rs, w') \<Rightarrow> aggregate_chunks p cs (out @ rs) w')"

definition aggregate3 ::
    "('w, mc_call3 list, 'e, 'r list) provider \<Rightarrow> mc_call list \<Rightarrow> nat \<Rightarrow> 'w \<Rightarrow> ('e + 'r list) \<times> 'w" where
  "aggregate3 p calls batch w = aggregate_chunks p (chunks (max batch 1) calls) [] w"

section \<open>Bisecting log fetches\<close>

definition retry_get_logs :: "('w, u64 \<times> u64, 'e, 'l list) provider \<Rightarrow> u64 \<Rightarrow> u64 \<Rightarrow> 'w \<Rightarrow> ('e + 'l list) \<times> 'w" where
  "retry_get_logs p from_b to_b w = with_retries p 3 (from_b, to_b) w"

definition mid_block :: "u64 \<Rightarrow> u64 \<Rightarrow> u64" where
  "mid_block a b = a + (b - a) div 2"

lemma unat_mid_block:
  assumes "a < b"
  shows "unat (mid_block a b) = unat a + (unat b - unat a) div 2" "unat (mid_block a b + 1) = unat (mid_block a b) + 1"
proof -
  have lt: "unat a < unat b" "unat b < 2 ^ 64" using assms unsigned_less [of b, where 'a = nat] by (simp_all add: word_less_nat_alt)
  have d: "unat ((b - a) div 2) = (unat b - unat a) div 2"
    using lt by (simp add: unat_div unat_minus_id)
  show m: "unat (mid_block a b) = unat a + (unat b - unat a) div 2"
    unfolding mid_block_def using d lt by (subst unat_add_id) simp_all
  show "unat (mid_block a b + 1) = unat (mid_block a b) + 1"
    using m lt by (subst unat_add_id) simp_all
qed

function get_logs_bisect :: "('w, u64 \<times> u64, 'e, 'l list) provider \<Rightarrow> u64 \<Rightarrow> u64 \<Rightarrow> 'w \<Rightarrow> ('e + 'l list) \<times> 'w" where
  "get_logs_bisect p from_b to_b w =
     (case retry_get_logs p from_b to_b w of
        (Inr logs, w1) \<Rightarrow> (Inr logs, w1)
      | (Inl e, w1) \<Rightarrow>
          if to_b \<le> from_b then (Inl e, w1)
          else
            let mid = mid_block from_b to_b
            in case get_logs_bisect p from_b mid w1 of
                 (Inl e1, w2) \<Rightarrow> (Inl e1, w2)
               | (Inr left, w2) \<Rightarrow>
                   (case get_logs_bisect p (mid + 1) to_b w2 of
                      (Inl e2, w3) \<Rightarrow> (Inl e2, w3)
                    | (Inr right, w3) \<Rightarrow> (Inr (left @ right), w3)))"
  by pat_completeness auto
termination
proof (relation "measure (\<lambda>(p, a, b, w). unat b - unat a)", goal_cases)
  case 1
  then show ?case by simp
next
  case (2 p a b w x w1 e m)
  then have "a < b" by simp
  then have "unat a < unat b" by (simp add: word_less_nat_alt)
  then show ?case using unat_mid_block [OF \<open>a < b\<close>] 2 by simp
next
  case (3 p a b w x w1 e m y w2 left)
  then have "a < b" by simp
  then have "unat a < unat b" by (simp add: word_less_nat_alt)
  then show ?case using unat_mid_block [OF \<open>a < b\<close>] 3 by simp
qed

declare get_logs_bisect.simps [simp del]

section \<open>Chunks cover the calls\<close>

lemma concat_chunks: "0 < n \<Longrightarrow> concat (chunks n xs) = xs"
proof (induction n xs rule: chunks.induct)
  case (1 n xs)
  then show ?case by (cases "xs = []") (simp_all add: chunks.simps [of n xs] chunks.simps [of n "[]"])
qed

lemma chunks_bound: "c \<in> set (chunks n xs) \<Longrightarrow> c \<noteq> [] \<and> length c \<le> n"
proof (induction n xs rule: chunks.induct)
  case (1 n xs)
  then show ?case by (cases "n = 0 \<or> xs = []") (auto simp: chunks.simps [of n xs])
qed

text \<open>Retries preserve whatever every answer of the provider guarantees.\<close>

lemma with_retries_Inr:
  assumes "\<And>w a w'. p q w = (Inr a, w') \<Longrightarrow> G a"
  shows "with_retries p n q w = (Inr a, w') \<Longrightarrow> G a"
  using assms
proof (induction n arbitrary: w)
  case (Suc n)
  then show ?case by (auto split: prod.splits sum.splits if_splits)
qed auto

lemma aggregate_chunks_Inr:
  assumes "\<And>q w rs w'. p q w = (Inr rs, w') \<Longrightarrow> list_all2 ok q rs"
    and "aggregate_chunks p cs out w = (Inr rs, w')"
  shows "\<exists>more_rs. rs = out @ more_rs \<and> list_all2 ok (map call3_of (concat cs)) more_rs"
  using assms(2)
proof (induction cs arbitrary: out w)
  case (Cons c cs)
  obtain r w1 where r: "with_retries p 5 (map call3_of c) w = (Inr r, w1)" "aggregate_chunks p cs (out @ r) w1 = (Inr rs, w')"
    using Cons.prems by (auto split: prod.splits sum.splits)
  have "list_all2 ok (map call3_of c) r" by (rule with_retries_Inr [OF _ r(1)]) (rule assms(1))
  moreover obtain m where "rs = (out @ r) @ m" "list_all2 ok (map call3_of (concat cs)) m" using Cons.IH [OF r(2)] by blast
  ultimately show ?case by (intro exI [of _ "r @ m"]) (simp add: list_all2_appendI)
qed simp

section \<open>Ranges\<close>

text \<open>The logs of a block range, given those of each block.\<close>

definition range_logs :: "(nat \<Rightarrow> 'l list) \<Rightarrow> u64 \<Rightarrow> u64 \<Rightarrow> 'l list" where
  "range_logs chain a b = concat (map chain [unat a ..< Suc (unat b)])"

lemma range_logs_split:
  assumes "a < b"
  shows "range_logs chain a b = range_logs chain a (mid_block a b) @ range_logs chain (mid_block a b + 1) b"
proof -
  have "unat a < unat b" using assms by (simp add: word_less_nat_alt)
  then have "[unat a ..< Suc (unat b)] =
      [unat a ..< Suc (unat (mid_block a b))] @ [Suc (unat (mid_block a b)) ..< Suc (unat b)]"
    using unat_mid_block [OF assms] upt_add_eq_append [of "unat a" "Suc (unat (mid_block a b))" "unat b - unat (mid_block a b)"]
    by simp
  then show ?thesis using unat_mid_block(2) [OF assms] by (simp add: range_logs_def)
qed

lemma range_logs_append:
  assumes "unat a \<le> unat b" "unat b \<le> unat c" "unat (b + 1) = unat b + 1"
  shows "range_logs chain a c = range_logs chain a b @ range_logs chain (b + 1) c"
  using assms upt_add_eq_append [of "unat a" "Suc (unat b)" "unat c - unat b"] by (simp add: range_logs_def)

text \<open>A provider that answers any range it answers at all with the logs of its blocks, in order.\<close>

definition honest :: "('w, u64 \<times> u64, 'e, 'l list) provider \<Rightarrow> (nat \<Rightarrow> 'l list) \<Rightarrow> bool" where
  "honest p chain \<longleftrightarrow> (\<forall>a b w logs. fst (p (a, b) w) = Inr logs \<longrightarrow> logs = range_logs chain a b)"

text \<open>A request the provider refuses whatever the world.\<close>

definition refuses :: "('w, u64 \<times> u64, 'e, 'l list) provider \<Rightarrow> u64 \<Rightarrow> bool" where
  "refuses p b \<longleftrightarrow> (\<exists>w. isl (fst (p (b, b) w)))"

lemma retry_honest:
  assumes "honest p chain" "retry_get_logs p a b w = (Inr logs, w')"
  shows "logs = range_logs chain a b"
  using assms(2) unfolding retry_get_logs_def
proof (rule with_retries_Inr [rotated])
  fix w l w' assume "p (a, b) w = (Inr l, w')"
  then have "fst (p (a, b) w) = Inr l" by simp
  then show "l = range_logs chain a b" using assms(1) unfolding honest_def by blast
qed

lemma retry_Inl: "with_retries p (Suc n) q w = (Inl e, w') \<Longrightarrow> \<exists>w. isl (fst (p q w))"
  by (induction n arbitrary: w) (auto split: prod.splits sum.splits if_splits, (metis fst_conv isl_def)+)

lemma bisect_honest:
  "honest p chain \<Longrightarrow> get_logs_bisect p a b w = (Inr logs, w') \<Longrightarrow> logs = range_logs chain a b"
proof (induction p a b w arbitrary: logs w' rule: get_logs_bisect.induct)
  case (1 p a b w)
  obtain r w1 where r: "retry_get_logs p a b w = (r, w1)" by fastforce
  show ?case
  proof (cases r)
    case (Inr l)
    then show ?thesis using 1(4) r retry_honest [OF 1(3)] by (auto simp: get_logs_bisect.simps [of p a b])
  next
    case (Inl e)
    then have lt: "\<not> b \<le> a" using 1(4) r by (auto simp: get_logs_bisect.simps [of p a b] split: if_splits)
    obtain left w2 where l: "get_logs_bisect p a (mid_block a b) w1 = (Inr left, w2)"
      using 1(4) r Inl lt by (auto simp: get_logs_bisect.simps [of p a b] Let_def split: prod.splits sum.splits)
    obtain right w3 where rr: "get_logs_bisect p (mid_block a b + 1) b w2 = (Inr right, w3)" "logs = left @ right"
      using 1(4) r Inl lt l by (auto simp: get_logs_bisect.simps [of p a b] Let_def split: prod.splits sum.splits)
    have "left = range_logs chain a (mid_block a b)" "right = range_logs chain (mid_block a b + 1) b"
      using 1(1) [OF r [symmetric] Inl lt refl 1(3) l] 1(2) [OF r [symmetric] Inl lt refl l [symmetric] refl 1(3) rr(1)] by auto
    then show ?thesis using range_logs_split [of a b chain] lt rr(2) by simp
  qed
qed

lemma bisect_fails:
  "a \<le> b \<Longrightarrow> get_logs_bisect p a b w = (Inl e, w') \<Longrightarrow> \<exists>c. a \<le> c \<and> c \<le> b \<and> refuses p c"
proof (induction p a b w arbitrary: e w' rule: get_logs_bisect.induct)
  case (1 p a b w)
  obtain r w1 where r: "retry_get_logs p a b w = (r, w1)" by fastforce
  obtain e1 where e1: "r = Inl e1" using 1(4) r by (cases r) (auto simp: get_logs_bisect.simps [of p a b])
  show ?case
  proof (cases "b \<le> a")
    case True
    then have "a = b" using 1(3) by simp
    moreover have "\<exists>w. isl (fst (p (a, b) w))"
      using r e1 retry_Inl [of p 2 "(a, b)" w e1 w1] by (simp add: retry_get_logs_def numeral_3_eq_3 numeral_2_eq_2)
    ultimately show ?thesis by (auto simp: refuses_def)
  next
    case False
    then have m: "unat (mid_block a b) = unat a + (unat b - unat a) div 2" "unat (mid_block a b + 1) = unat (mid_block a b) + 1"
      "unat a < unat b"
    proof -
      have "a < b" using False by simp
      then show "unat (mid_block a b) = unat a + (unat b - unat a) div 2"
        "unat (mid_block a b + 1) = unat (mid_block a b) + 1" "unat a < unat b"
        using unat_mid_block [of a b] by (simp_all add: word_less_nat_alt)
    qed
    have ord: "a \<le> mid_block a b" "mid_block a b + 1 \<le> b" "mid_block a b \<le> b" "a \<le> mid_block a b + 1"
      unfolding word_le_nat_alt using m by simp_all
    obtain l w2 where l: "get_logs_bisect p a (mid_block a b) w1 = (l, w2)" by fastforce
    show ?thesis
    proof (cases l)
      case (Inl x)
      from 1(1) [OF r [symmetric] e1 False refl ord(1) l [unfolded Inl]]
      obtain c where "a \<le> c" "c \<le> mid_block a b" "refuses p c" by blast
      then show ?thesis using ord(3) by (meson order_trans)
    next
      case (Inr left)
      then obtain x w3 where rr: "get_logs_bisect p (mid_block a b + 1) b w2 = (Inl x, w3)"
        using 1(4) r e1 False l by (auto simp: get_logs_bisect.simps [of p a b] Let_def split: prod.splits sum.splits)
      from 1(2) [OF r [symmetric] e1 False refl l [unfolded Inr, symmetric] refl ord(2) rr]
      obtain c where "mid_block a b + 1 \<le> c" "c \<le> b" "refuses p c" by blast
      then show ?thesis using ord(4) by (meson order_trans)
    qed
  qed
qed

section \<open>Properties\<close>

text \<open>C24. A bisecting fetch ends, and it is exact over an honest provider: when it succeeds it returns the logs of
  every block of the range in order, none lost and none repeated however often the range was split;
  it fails only if the provider refused some single block of the range.\<close>
theorem bisect_exact:
  assumes "honest p chain" "from_b \<le> to_b"
  shows "case get_logs_bisect p from_b to_b w of
      (Inr logs, _) \<Rightarrow> logs = range_logs chain from_b to_b
    | (Inl _, _) \<Rightarrow> \<exists>b. from_b \<le> b \<and> b \<le> to_b \<and> refuses p b"
  using bisect_honest [OF assms(1)] bisect_fails [OF assms(2)] by (auto split: prod.split sum.split)

definition two_block_limit :: "(nat, u64 \<times> u64, unit, nat list) provider" where
  "two_block_limit q w =
     (if snd q - fst q < 2 then Inr (range_logs (\<lambda>b. [b, b]) (fst q) (snd q)) else Inl (), w + 1)"

theorem bisect_exact_witness:
  "case get_logs_bisect two_block_limit 10 14 0 of
      (Inr logs, _) \<Rightarrow> logs = range_logs (\<lambda>b. [b, b]) 10 14
    | (Inl _, _) \<Rightarrow> \<exists>b. 10 \<le> b \<and> b \<le> 14 \<and> refuses two_block_limit b"
  by (rule bisect_exact) (auto simp: honest_def two_block_limit_def split: if_splits)

text \<open>A batched call answers every call at its position, whatever the batch size, if each aggregated request
  answers its calls positionally.\<close>
lemma aggregate3_positional:
  assumes "\<And>q w rs w'. p q w = (Inr rs, w') \<Longrightarrow> list_all2 ok q rs" "aggregate3 p calls batch w = (Inr rs, w')"
  shows "list_all2 ok (map call3_of calls) rs"
  using aggregate_chunks_Inr [where ok = ok, OF assms(1) assms(2) [unfolded aggregate3_def]] by (simp add: concat_chunks)

end
