(* ===== verification/Rpc_Backend.thy ===== *)
theory Rpc_Backend
  imports Multicall "HOL-Library.Product_Lexorder"
begin

text \<open>
  The ingest seam, \<^verbatim>\<open>src/ingest/backend.rs\<close> and \<^verbatim>\<open>rpc_backend.rs\<close>: resolving a log to a registered
  pool, the live stream with its cursor, and the replay of missed logs after a reconnect.  ABI
  decoding of the liquidity events is generated code, so the three decoders are parameters.
\<close>

section \<open>Logs and events\<close>

record rpc_log =
  rl_address :: address
  rl_topics :: "b256 list"
  rl_block :: "u64 option"
  rl_index :: "u64 option"

datatype ingest_event =
    NewHead u64 u64 u128
  | PoolLog u64 pool_idx "(int \<times> int) option"
  | ResyncAll

record tick_decoders =
  td_mint :: "rpc_log \<Rightarrow> (int \<times> int) option"
  td_burn :: "rpc_log \<Rightarrow> (int \<times> int) option"
  td_modify :: "rpc_log \<Rightarrow> (int \<times> int) option"

definition decode_touched_ticks :: "tick_decoders \<Rightarrow> rpc_log \<Rightarrow> (int \<times> int) option" where
  "decode_touched_ticks dec lg =
     (case td_mint dec lg of Some t \<Rightarrow> Some t
      | None \<Rightarrow> (case td_burn dec lg of Some t \<Rightarrow> Some t
                | None \<Rightarrow> td_modify dec lg))"

text \<open>V4 logs all come from the pool manager and are told apart by the pool id in the second topic.\<close>

definition resolve :: "engine \<Rightarrow> rpc_log \<Rightarrow> pool_idx option" where
  "resolve e lg =
     (if rl_address lg = UNIV4_POOL_MANAGER then
        (case get (rl_topics lg) 1 of
           None \<Rightarrow> None
         | Some pool_id \<Rightarrow> eng_by_address e (synthetic_address pool_id))
      else eng_by_address e (rl_address lg))"

section \<open>The cursor\<close>

text \<open>Position of the last log handed on, compared as a pair; the largest index marks a whole block.\<close>

type_synonym cursor = "u64 \<times> u64"

definition U64_MAX :: u64 where
  "U64_MAX = - 1"

definition log_pos :: "rpc_log \<Rightarrow> cursor" where
  "log_pos lg =
     ((case rl_block lg of Some b \<Rightarrow> b | None \<Rightarrow> 0), (case rl_index lg of Some i \<Rightarrow> i | None \<Rightarrow> U64_MAX))"

definition event_of :: "tick_decoders \<Rightarrow> rpc_log \<Rightarrow> pool_idx \<Rightarrow> ingest_event" where
  "event_of dec lg idx = PoolLog (fst (log_pos lg)) idx (decode_touched_ticks dec lg)"

section \<open>The live stream\<close>

text \<open>
  What the select loop can see, with whether the pipeline still takes the event.  The session ends
  normally when the pipeline is gone and with an error when a stream ends or heads stay away.
\<close>

datatype live_input = Header u64 u64 "u64 option" bool | Arrives rpc_log bool | StreamEnded | Silence

datatype session_status = Live | Closed | Failed

record session =
  ss_cursor :: "cursor option"
  ss_sent :: "ingest_event list"
  ss_status :: session_status

definition saturating_dec :: "u64 \<Rightarrow> u64" where
  "saturating_dec n = (if n = 0 then 0 else n - 1)"

definition live_step :: "engine \<Rightarrow> tick_decoders \<Rightarrow> live_input \<Rightarrow> session \<Rightarrow> session" where
  "live_step e dec input s =
     (if ss_status s \<noteq> Live then s
      else case input of
        Header number ts fee taken \<Rightarrow>
          let complete = (saturating_dec number, U64_MAX);
              s1 = (case ss_cursor s of
                      None \<Rightarrow> s\<lparr>ss_cursor := Some complete\<rparr>
                    | Some c \<Rightarrow> if c < complete then s\<lparr>ss_cursor := Some complete\<rparr> else s);
              ev = NewHead number ts (ucast (case fee of Some f \<Rightarrow> f | None \<Rightarrow> 0))
          in if taken then s1\<lparr>ss_sent := ss_sent s1 @ [ev]\<rparr> else s1\<lparr>ss_status := Closed\<rparr>
      | Arrives lg taken \<Rightarrow>
          (case resolve e lg of
             None \<Rightarrow> s
           | Some idx \<Rightarrow>
               if (case ss_cursor s of None \<Rightarrow> False | Some c \<Rightarrow> log_pos lg \<le> c) then s
               else
                 let s1 = s\<lparr>ss_cursor := Some (log_pos lg)\<rparr>
                 in if taken then s1\<lparr>ss_sent := ss_sent s1 @ [event_of dec lg idx]\<rparr> else s1\<lparr>ss_status := Closed\<rparr>)
      | StreamEnded \<Rightarrow> s\<lparr>ss_status := Failed\<rparr>
      | Silence \<Rightarrow> s\<lparr>ss_status := Failed\<rparr>)"

definition live_run :: "engine \<Rightarrow> tick_decoders \<Rightarrow> live_input list \<Rightarrow> session \<Rightarrow> session" where
  "live_run e dec inputs s = foldl (\<lambda>s i. live_step e dec i s) s inputs"

section \<open>Backfill\<close>

definition MAX_BACKFILL_BLOCKS :: u64 where
  "MAX_BACKFILL_BLOCKS = 3000"

definition BACKFILL_CHUNK :: u64 where
  "BACKFILL_CHUNK = 200"

text \<open>Logs of one chunk: resolved, past the cursor, sent until the pipeline is gone (the flag).\<close>

fun send_logs ::
    "engine \<Rightarrow> tick_decoders \<Rightarrow> (nat \<Rightarrow> bool) \<Rightarrow> cursor \<Rightarrow> rpc_log list \<Rightarrow> ingest_event list \<Rightarrow> ingest_event list \<times> bool" where
  "send_logs e dec taken cursor [] sent = (sent, True)"
| "send_logs e dec taken cursor (lg # lgs) sent =
     (case resolve e lg of
        None \<Rightarrow> send_logs e dec taken cursor lgs sent
      | Some idx \<Rightarrow>
          if log_pos lg \<le> cursor then send_logs e dec taken cursor lgs sent
          else if taken (length sent) then send_logs e dec taken cursor lgs (sent @ [event_of dec lg idx])
          else (sent, False))"

text \<open>The chunk loop, with fuel: \<open>None\<close> is running out of it.  The provider is already restricted to the
  filter's addresses and topics.\<close>

type_synonym ('w, 'e) log_provider = "('w, u64 \<times> u64, 'e, rpc_log list) provider"

fun backfill_loop ::
    "nat \<Rightarrow> engine \<Rightarrow> tick_decoders \<Rightarrow> (nat \<Rightarrow> bool) \<Rightarrow> ('w, 'e) log_provider \<Rightarrow> cursor \<Rightarrow> u64 \<Rightarrow> u64
      \<Rightarrow> ingest_event list \<Rightarrow> 'w \<Rightarrow> (('e + cursor) \<times> ingest_event list \<times> 'w) option" where
  "backfill_loop 0 e dec taken p cursor head from_chunk sent w = None"
| "backfill_loop (Suc fuel) e dec taken p cursor head from_chunk sent w =
     (if head < from_chunk then Some (Inr (head, U64_MAX), sent, w)
      else
        let to_chunk = min (from_chunk + BACKFILL_CHUNK - 1) head
        in case get_logs_bisect p from_chunk to_chunk w of
             (Inl err, w') \<Rightarrow> Some (Inl err, sent, w')
           | (Inr logs, w') \<Rightarrow>
               (case send_logs e dec taken cursor logs sent of
                  (sent', False) \<Rightarrow> Some (Inr (head, U64_MAX), sent', w')
                | (sent', True) \<Rightarrow> backfill_loop fuel e dec taken p cursor head (to_chunk + 1) sent' w'))"

definition backfill_from :: "cursor \<Rightarrow> u64" where
  "backfill_from cursor = (if snd cursor = U64_MAX then fst cursor + 1 else fst cursor)"

definition backfill ::
    "engine \<Rightarrow> tick_decoders \<Rightarrow> (nat \<Rightarrow> bool) \<Rightarrow> (address set \<Rightarrow> ('w, 'e) log_provider) \<Rightarrow> cursor \<Rightarrow> u64 \<Rightarrow> 'w
      \<Rightarrow> (('e + cursor) \<times> ingest_event list \<times> 'w) option" where
  "backfill e dec taken provider cursor head w =
     (let from_b = backfill_from cursor
      in if head < from_b then Some (Inr cursor, [], w)
         else if MAX_BACKFILL_BLOCKS < head - from_b then
           Some (Inr (head, U64_MAX), (if taken 0 then [ResyncAll] else []), w)
         else backfill_loop 17 e dec taken (provider (dom (eng_by_address e))) cursor head from_b [] w)"

text \<open>
  The start of a session: the first connect asks for a full resync, a later one replays from the
  cursor to the head it is told; an error on the way fails the session and leaves the cursor.
\<close>

definition connect ::
    "engine \<Rightarrow> tick_decoders \<Rightarrow> (nat \<Rightarrow> bool) \<Rightarrow> (address set \<Rightarrow> ('w, 'e) log_provider) \<Rightarrow> bool \<Rightarrow> u64 option
      \<Rightarrow> cursor option \<Rightarrow> 'w \<Rightarrow> (session \<times> 'w) option" where
  "connect e dec taken provider subscribed head cursor w =
     (if \<not> subscribed then Some (\<lparr>ss_cursor = cursor, ss_sent = [], ss_status = Failed\<rparr>, w)
      else case cursor of
        None \<Rightarrow> Some (\<lparr>ss_cursor = None, ss_sent = (if taken 0 then [ResyncAll] else []), ss_status = Live\<rparr>, w)
      | Some c \<Rightarrow>
          (case head of
             None \<Rightarrow> Some (\<lparr>ss_cursor = cursor, ss_sent = [], ss_status = Failed\<rparr>, w)
           | Some h \<Rightarrow>
               (case backfill e dec taken provider c h w of
                  None \<Rightarrow> None
                | Some (Inl err, sent, w') \<Rightarrow> Some (\<lparr>ss_cursor = cursor, ss_sent = sent, ss_status = Failed\<rparr>, w')
                | Some (Inr c', sent, w') \<Rightarrow> Some (\<lparr>ss_cursor = Some c', ss_sent = sent, ss_status = Live\<rparr>, w'))))"

section \<open>Live delivery\<close>

definition past :: "cursor option \<Rightarrow> cursor \<Rightarrow> bool" where
  "past c p \<longleftrightarrow> (case c of None \<Rightarrow> True | Some c \<Rightarrow> c < p)"

text \<open>The positions of the logs a run hands on.\<close>

fun deliveries :: "engine \<Rightarrow> tick_decoders \<Rightarrow> live_input list \<Rightarrow> session \<Rightarrow> cursor list" where
  "deliveries e dec [] s = []"
| "deliveries e dec (i # is) s =
     (case i of
        Arrives lg _ \<Rightarrow> if length (ss_sent (live_step e dec i s)) = Suc (length (ss_sent s)) then [log_pos lg] else []
      | _ \<Rightarrow> []) @ deliveries e dec is (live_step e dec i s)"

lemma live_step_past: "past (ss_cursor (live_step e dec i s)) p \<Longrightarrow> past (ss_cursor s) p"
  by (auto simp: live_step_def past_def Let_def simp del: less_prod_simp less_eq_prod_simp
      split: live_input.splits option.splits if_splits dest: order_less_trans)

lemma live_step_delivers:
  assumes "length (ss_sent (live_step e dec (Arrives lg t) s)) = Suc (length (ss_sent s))"
  shows "past (ss_cursor s) (log_pos lg)" "ss_cursor (live_step e dec (Arrives lg t) s) = Some (log_pos lg)"
  using assms by (auto simp: live_step_def past_def Let_def not_le split: option.splits if_splits)

lemma deliveries_past: "p \<in> set (deliveries e dec is s) \<Longrightarrow> past (ss_cursor s) p"
proof (induction "is" arbitrary: s)
  case (Cons i "is")
  show ?case
  proof (cases "p \<in> set (deliveries e dec is (live_step e dec i s))")
    case True
    then show ?thesis using Cons.IH live_step_past by blast
  next
    case False
    then obtain lg t where "i = Arrives lg t" "p = log_pos lg"
      "length (ss_sent (live_step e dec i s)) = Suc (length (ss_sent s))"
      using Cons.prems by (auto split: live_input.splits if_splits)
    then show ?thesis using live_step_delivers(1) by blast
  qed
qed simp

lemma deliveries_sorted: "sorted_wrt (<) (deliveries e dec is s)"
proof (induction "is" arbitrary: s)
  case (Cons i "is")
  have "log_pos lg < p" if "i = Arrives lg t" "length (ss_sent (live_step e dec i s)) = Suc (length (ss_sent s))"
    "p \<in> set (deliveries e dec is (live_step e dec i s))" for lg t p
    using deliveries_past [OF that(3)] live_step_delivers(2) that(1,2) by (auto simp: past_def)
  then show ?case using Cons.IH by (auto split: live_input.split)
qed simp

section \<open>Replay\<close>

definition replayed :: "engine \<Rightarrow> tick_decoders \<Rightarrow> cursor \<Rightarrow> rpc_log list \<Rightarrow> ingest_event list" where
  "replayed e dec cursor lgs =
     concat (map (\<lambda>lg. case resolve e lg of None \<Rightarrow> [] | Some idx \<Rightarrow> if log_pos lg \<le> cursor then [] else [event_of dec lg idx]) lgs)"

lemma send_logs_all:
  "(\<And>n. taken n) \<Longrightarrow> send_logs e dec taken cursor lgs sent = (sent @ replayed e dec cursor lgs, True)"
  by (induction lgs arbitrary: sent) (auto simp: replayed_def split: option.splits)

lemma chunk_end:
  assumes "from_chunk \<le> head" "unat head + 200 < 2 ^ 64"
  defines "to_chunk \<equiv> min (from_chunk + BACKFILL_CHUNK - 1) head"
  shows "unat to_chunk = min (unat from_chunk + 199) (unat head)" "unat (to_chunk + 1) = unat to_chunk + 1"
    "from_chunk \<le> to_chunk" "to_chunk \<le> head"
proof -
  have le: "unat from_chunk \<le> unat head" using assms(1) by (simp add: word_le_nat_alt)
  have e: "from_chunk + BACKFILL_CHUNK - 1 = from_chunk + 199" by (simp add: BACKFILL_CHUNK_def)
  have f: "unat (from_chunk + 199) = unat from_chunk + 199" using le assms(2) by (subst unat_add_id) simp_all
  show t: "unat to_chunk = min (unat from_chunk + 199) (unat head)"
    unfolding to_chunk_def e by (simp add: min_def word_le_nat_alt f)
  then show "unat (to_chunk + 1) = unat to_chunk + 1" using assms(2) by (subst unat_add_id) simp_all
  show "from_chunk \<le> to_chunk" "to_chunk \<le> head" using t le by (simp_all add: word_le_nat_alt)
qed

lemma backfill_loop_exact:
  assumes "honest p chain" "\<And>n. taken n" "unat head + 200 < 2 ^ 64"
    and "backfill_loop fuel e dec taken p cursor head from_b sent w = Some (Inr c', sent', w')" "unat from_b \<le> unat head + 1"
  shows "sent' = sent @ replayed e dec cursor (range_logs chain from_b head) \<and> c' = (head, U64_MAX)"
  using assms(4,5)
proof (induction fuel arbitrary: from_b sent w)
  case (Suc fuel)
  show ?case
  proof (cases "head < from_b")
    case True
    then have "range_logs chain from_b head = []" by (simp add: range_logs_def word_less_nat_alt)
    then show ?thesis using Suc.prems(1) True by (simp add: replayed_def)
  next
    case False
    then have le: "from_b \<le> head" by simp
    define t where "t = min (from_b + BACKFILL_CHUNK - 1) head"
    note tt = chunk_end [OF le assms(3), folded t_def]
    obtain lgs w1 where g: "get_logs_bisect p from_b t w = (Inr lgs, w1)"
      using Suc.prems(1) False by (auto simp: Let_def t_def split: prod.splits sum.splits)
    have l: "lgs = range_logs chain from_b t" using bisect_honest [OF assms(1) g] .
    have nxt: "backfill_loop fuel e dec taken p cursor head (t + 1) (sent @ replayed e dec cursor lgs) w1 = Some (Inr c', sent', w')"
      using Suc.prems(1) False g send_logs_all [OF assms(2)] by (simp add: Let_def t_def [symmetric])
    have "unat (t + 1) \<le> unat head + 1" using tt(2,4) by (simp add: word_le_nat_alt)
    from Suc.IH [OF nxt this] have "sent' = (sent @ replayed e dec cursor lgs) @ replayed e dec cursor (range_logs chain (t + 1) head)"
      "c' = (head, U64_MAX)" by auto
    moreover have "range_logs chain from_b head = range_logs chain from_b t @ range_logs chain (t + 1) head"
      using tt by (intro range_logs_append) (simp_all add: word_le_nat_alt)
    ultimately show ?thesis using l by (simp add: replayed_def)
  qed
qed simp

lemma backfill_loop_fuel:
  assumes "unat head + 200 < 2 ^ 64" "unat head + 1 - unat from_b \<le> 200 * n" "unat from_b \<le> unat head + 1"
  shows "backfill_loop (Suc n) e dec taken p cursor head from_b sent w \<noteq> None"
  using assms(2,3)
proof (induction n arbitrary: from_b sent w)
  case 0
  then have "head < from_b" by (simp add: word_less_nat_alt)
  then show ?case by simp
next
  case (Suc n)
  show ?case
  proof (cases "head < from_b")
    case False
    then have le: "from_b \<le> head" by simp
    define t where "t = min (from_b + BACKFILL_CHUNK - 1) head"
    note tt = chunk_end [OF le assms(1), folded t_def]
    have "backfill_loop (Suc n) e dec taken p cursor head (t + 1) sent1 w1 \<noteq> None" for sent1 w1
      using Suc.prems tt(1,2) by (intro Suc.IH) auto
    then show ?thesis using False
      by (auto simp: Let_def t_def [symmetric] simp del: backfill_loop.simps(2) split: prod.splits sum.splits bool.splits
          intro!: exI simp: backfill_loop.simps(2) [of "Suc n" e dec taken p cursor head from_b])
  qed simp
qed

lemma backfill_replay:
  assumes "honest (provider (dom (eng_by_address e))) (\<lambda>b. filter (\<lambda>lg. rl_address lg \<in> dom (eng_by_address e)) (chain b))"
    and "\<forall>n. taken n" "unat head + 200 < 2 ^ 64"
    and "backfill_from cursor \<le> head" "head - backfill_from cursor \<le> MAX_BACKFILL_BLOCKS"
  shows "\<exists>r sent w'. backfill e dec taken provider cursor head w = Some (r, sent, w') \<and>
    (\<forall>c'. r = Inr c' \<longrightarrow> c' = (head, U64_MAX) \<and>
      sent = replayed e dec cursor
        (filter (\<lambda>lg. rl_address lg \<in> dom (eng_by_address e)) (range_logs chain (backfill_from cursor) head)))"
proof -
  let ?f = "backfill_from cursor" and ?p = "provider (dom (eng_by_address e))"
  have le: "unat ?f \<le> unat head" using assms(4) by (simp add: word_le_nat_alt)
  have "unat (head - ?f) \<le> 3000" using assms(5) by (simp add: word_le_nat_alt MAX_BACKFILL_BLOCKS_def)
  then have gap: "unat head + 1 - unat ?f \<le> 200 * 16" using le by (simp add: unat_minus_id)
  have b: "backfill e dec taken provider cursor head w = backfill_loop (Suc 16) e dec taken ?p cursor head ?f [] w"
  proof -
    have "\<not> head < ?f" "\<not> MAX_BACKFILL_BLOCKS < head - ?f" using assms(4,5) by (simp_all only: not_less)
    moreover have "17 = Suc 16" by simp
    ultimately show ?thesis unfolding backfill_def Let_def by (simp only: if_False)
  qed
  obtain r sent w' where r: "backfill_loop (Suc 16) e dec taken ?p cursor head ?f [] w = Some (r, sent, w')"
    using backfill_loop_fuel [OF assms(3) gap, of e dec taken ?p cursor "[]" w] le by force
  have flt: "range_logs (\<lambda>b. filter P (chain b)) a c = filter P (range_logs chain a c)" for P a c
    by (simp add: range_logs_def filter_concat comp_def)
  have q: "c' = (head, U64_MAX) \<and> sent = replayed e dec cursor (filter (\<lambda>lg. rl_address lg \<in> dom (eng_by_address e)) (range_logs chain ?f head))"
    if "r = Inr c'" for c'
    using backfill_loop_exact [OF assms(1) _ assms(3) r [unfolded that]] assms(2) le unfolding flt by simp
  show ?thesis unfolding b by (intro exI conjI allI impI, rule r, drule q, erule conjunct1, drule q, erule conjunct2)
qed

section \<open>Properties\<close>

text \<open>C23. A session never hands the same log on twice and never goes back: the positions it delivers are strictly
  increasing and all lie past the cursor it started from.\<close>
theorem live_at_most_once:
  "sorted_wrt (<) (deliveries e dec inputs s) \<and>
   (\<forall>p \<in> set (deliveries e dec inputs s). past (ss_cursor s) p)"
  using deliveries_sorted deliveries_past by blast

definition demo_log :: "u64 \<Rightarrow> u64 \<Rightarrow> rpc_log" where
  "demo_log b i = \<lparr>rl_address = 7, rl_topics = [1], rl_block = Some b, rl_index = Some i\<rparr>"

definition demo_decoders :: tick_decoders where
  "demo_decoders = \<lparr>td_mint = (\<lambda>_. None), td_burn = (\<lambda>_. None), td_modify = (\<lambda>_. None)\<rparr>"

definition demo_engine :: engine where
  "demo_engine = \<lparr>eng_metas = [sample_meta 0 7], eng_by_address = [7 \<mapsto> 0], eng_fee_dynamic = {}, eng_fee_recheck = {}, eng_head_block = 0\<rparr>"

definition demo_session :: session where
  "demo_session = \<lparr>ss_cursor = Some (5, 0), ss_sent = [], ss_status = Live\<rparr>"

lemma demo_resolve: "resolve demo_engine (demo_log b i) = Some 0"
  by (simp add: resolve_def demo_engine_def demo_log_def UNIV4_POOL_MANAGER_def)

theorem live_at_most_once_witness:
  "deliveries demo_engine demo_decoders [Arrives (demo_log 6 1) True, Arrives (demo_log 6 1) True] demo_session = [(6, 1)] \<and>
   past (Some (5, 0)) (6, 1)"
proof
  show d: "deliveries demo_engine demo_decoders [Arrives (demo_log 6 1) True, Arrives (demo_log 6 1) True] demo_session = [(6, 1)]"
    by (simp add: live_step_def demo_session_def demo_resolve Let_def) (simp add: demo_log_def log_pos_def)
  show "past (Some (5, 0)) (6, 1)"
    using live_at_most_once [of demo_engine demo_decoders "[Arrives (demo_log 6 1) True, Arrives (demo_log 6 1) True]" demo_session, THEN conjunct2]
    unfolding d by (simp add: demo_session_def)
qed

text \<open>A head completes the block before it, so a log of an older block arriving after that head is dropped for good.\<close>

lemma late_log_dropped:
  assumes "ss_status s = Live" "fst (log_pos lg) < number"
  shows "live_run e dec [Header number ts fee True, Arrives lg taken] s = live_run e dec [Header number ts fee True] s"
proof -
  obtain b i where p: "log_pos lg = (b, i)" by fastforce
  have "b < number" using assms(2) p by simp
  then have "b \<le> number - 1" "number \<noteq> 0"
    by (auto simp: word_le_nat_alt word_less_nat_alt unat_minus_id unat_gt_0)
  moreover have "i \<le> U64_MAX" by (simp add: U64_MAX_def)
  ultimately have le: "log_pos lg \<le> (saturating_dec number, U64_MAX)"
    unfolding p by (auto simp: saturating_dec_def)
  have "log_pos lg \<le> c" if "\<not> c < (saturating_dec number, U64_MAX)" for c :: cursor
    using order_trans [OF le] that by (simp only: not_less)
  then show ?thesis using assms(1) le
    by (auto simp: live_run_def live_step_def Let_def simp del: less_prod_simp less_eq_prod_simp split: option.split)
qed


definition demo_provider :: "(nat \<Rightarrow> rpc_log list) \<Rightarrow> address set \<Rightarrow> (nat, unit) log_provider" where
  "demo_provider chain addrs q w =
     (Inr (range_logs (\<lambda>b. filter (\<lambda>lg. rl_address lg \<in> addrs) (chain b)) (fst q) (snd q)), w)"

lemma demo_honest: "honest (demo_provider chain addrs) (\<lambda>b. filter (\<lambda>lg. rl_address lg \<in> addrs) (chain b))"
  by (simp add: honest_def demo_provider_def)

definition demo_chain :: "address \<Rightarrow> b256 list \<Rightarrow> nat \<Rightarrow> rpc_log list" where
  "demo_chain a topics b = (if b = 12 then [\<lparr>rl_address = a, rl_topics = topics, rl_block = Some 12, rl_index = Some 3\<rparr>] else [])"

lemma demo_backfill:
  "\<exists>r sent w'. backfill e demo_decoders (\<lambda>_. True) (demo_provider chain) (10, U64_MAX) 14 0 = Some (r, sent, w') \<and>
    (\<forall>c'. r = Inr c' \<longrightarrow> c' = (14, U64_MAX) \<and>
      sent = replayed e demo_decoders (10, U64_MAX)
        (filter (\<lambda>lg. rl_address lg \<in> dom (eng_by_address e)) (range_logs chain 11 14)))"
proof -
  have f: "backfill_from (10, U64_MAX) = 11" by (simp add: backfill_from_def)
  have m: "(14 :: u64) - 11 \<le> MAX_BACKFILL_BLOCKS" by (simp add: MAX_BACKFILL_BLOCKS_def)
  have l: "(11 :: u64) \<le> 14" "unat (14 :: u64) + 200 < 2 ^ 64" by simp_all
  show ?thesis
    using backfill_replay [of "demo_provider chain" e chain "\<lambda>_. True" 14 "(10, U64_MAX)" demo_decoders 0, unfolded f,
        OF demo_honest _ l(2,1) m] by simp
qed

lemma demo_range: "range_logs (demo_chain a topics) 11 14 = [\<lparr>rl_address = a, rl_topics = topics, rl_block = Some 12, rl_index = Some 3\<rparr>]"
  by (simp add: range_logs_def demo_chain_def upt_rec)


text \<open>
  The replay asks for logs of the registered addresses, but V4 logs are emitted by the pool manager
  and V4 pools are registered under synthetic addresses: whatever V4 pools did during the gap
  is not replayed, while the cursor moves past it.
\<close>

definition v4_engine :: engine where
  "v4_engine = demo_engine\<lparr>eng_by_address := [synthetic_address 5 \<mapsto> 0]\<rparr>"

lemma v4_replay_lost:
  "resolve v4_engine \<lparr>rl_address = UNIV4_POOL_MANAGER, rl_topics = [1, 5], rl_block = Some 12, rl_index = Some 3\<rparr> = Some 0 \<and>
   (\<exists>r sent w'. backfill v4_engine demo_decoders (\<lambda>_. True) (demo_provider (demo_chain UNIV4_POOL_MANAGER [1, 5])) (10, U64_MAX) 14 0 =
       Some (r, sent, w') \<and> (r = Inl () \<or> r = Inr (14, U64_MAX) \<and> sent = []))"
proof
  show "resolve v4_engine \<lparr>rl_address = UNIV4_POOL_MANAGER, rl_topics = [1, 5], rl_block = Some 12, rl_index = Some 3\<rparr> = Some 0"
    by (simp add: resolve_def v4_engine_def get_def)
  let ?ch = "demo_chain UNIV4_POOL_MANAGER [1, 5]"
  have s5: "synthetic_address 5 = 0" by (simp add: synthetic_address_def)
  have rep: "replayed v4_engine demo_decoders (10, U64_MAX)
      (filter (\<lambda>lg. rl_address lg \<in> dom (eng_by_address v4_engine)) (range_logs ?ch 11 14)) = []"
    unfolding demo_range by (simp add: replayed_def v4_engine_def s5 UNIV4_POOL_MANAGER_def)
  obtain r sent w' where
    "backfill v4_engine demo_decoders (\<lambda>_. True) (demo_provider ?ch) (10, U64_MAX) 14 0 = Some (r, sent, w')"
    "\<And>c'. r = Inr c' \<Longrightarrow> c' = (14, U64_MAX) \<and> sent = []"
    using demo_backfill [of v4_engine ?ch, unfolded rep] by auto
  then show "\<exists>r sent w'. backfill v4_engine demo_decoders (\<lambda>_. True) (demo_provider ?ch) (10, U64_MAX) 14 0 =
       Some (r, sent, w') \<and> (r = Inl () \<or> r = Inr (14, U64_MAX) \<and> sent = [])"
    by (cases r) auto
qed

end
