(* ===== verification/Events.thy ===== *)
theory Events
  imports Rpc_Backend
begin

text \<open>
  The events the contracts emit, as \<^verbatim>\<open>src/abi.rs\<close> declares them, the topics the application subscribes to
  (\<^verbatim>\<open>event_topics\<close> of \<^verbatim>\<open>src/app.rs\<close>) and the effect of the subscription on the live session.  The hash of a
  signature is a parameter.
\<close>

section \<open>Event declarations\<close>

text \<open>Name and parameters, each with its canonical type and whether it is indexed.\<close>

record event_decl =
  ed_name :: string
  ed_params :: "(string \<times> bool) list"

definition uni_v2_events :: "event_decl list" where
  "uni_v2_events =
    [\<lparr>ed_name = ''Sync'', ed_params = [(''uint112'', False), (''uint112'', False)]\<rparr>,
     \<lparr>ed_name = ''PairCreated'', ed_params =
        [(''address'', True), (''address'', True), (''address'', False), (''uint256'', False)]\<rparr>]"

definition aero_events :: "event_decl list" where
  "aero_events =
    [\<lparr>ed_name = ''Sync'', ed_params = [(''uint256'', False), (''uint256'', False)]\<rparr>,
     \<lparr>ed_name = ''PoolCreated'', ed_params =
        [(''address'', True), (''address'', True), (''bool'', True), (''address'', False), (''uint256'', False)]\<rparr>,
     \<lparr>ed_name = ''SetCustomFee'', ed_params = [(''address'', True), (''uint256'', False)]\<rparr>]"

definition uni_v3_events :: "event_decl list" where
  "uni_v3_events =
    [\<lparr>ed_name = ''Swap'', ed_params =
        [(''address'', True), (''address'', True), (''int256'', False), (''int256'', False), (''uint160'', False),
         (''uint128'', False), (''int24'', False)]\<rparr>,
     \<lparr>ed_name = ''Mint'', ed_params =
        [(''address'', False), (''address'', True), (''int24'', True), (''int24'', True), (''uint128'', False),
         (''uint256'', False), (''uint256'', False)]\<rparr>,
     \<lparr>ed_name = ''Burn'', ed_params =
        [(''address'', True), (''int24'', True), (''int24'', True), (''uint128'', False), (''uint256'', False),
         (''uint256'', False)]\<rparr>,
     \<lparr>ed_name = ''PoolCreated'', ed_params =
        [(''address'', True), (''address'', True), (''uint24'', True), (''int24'', False), (''address'', False)]\<rparr>]"

definition pancake_v3_events :: "event_decl list" where
  "pancake_v3_events =
    [\<lparr>ed_name = ''Swap'', ed_params =
        [(''address'', True), (''address'', True), (''int256'', False), (''int256'', False), (''uint160'', False),
         (''uint128'', False), (''int24'', False), (''uint128'', False), (''uint128'', False)]\<rparr>]"

definition algebra_events :: "event_decl list" where
  "algebra_events =
    [\<lparr>ed_name = ''Swap'', ed_params =
        [(''address'', True), (''address'', True), (''int256'', False), (''int256'', False), (''uint160'', False),
         (''uint128'', False), (''int24'', False), (''uint24'', False), (''uint24'', False)]\<rparr>]"

definition slipstream_events :: "event_decl list" where
  "slipstream_events =
    [\<lparr>ed_name = ''PoolCreated'', ed_params =
        [(''address'', True), (''address'', True), (''int24'', True), (''address'', False)]\<rparr>]"

definition uni_v4_events :: "event_decl list" where
  "uni_v4_events =
    [\<lparr>ed_name = ''Initialize'', ed_params =
        [(''bytes32'', True), (''address'', True), (''address'', True), (''uint24'', False), (''int24'', False),
         (''address'', False), (''uint160'', False), (''int24'', False)]\<rparr>,
     \<lparr>ed_name = ''Swap'', ed_params =
        [(''bytes32'', True), (''address'', True), (''int128'', False), (''int128'', False), (''uint160'', False),
         (''uint128'', False), (''int24'', False), (''uint24'', False)]\<rparr>,
     \<lparr>ed_name = ''ModifyLiquidity'', ed_params =
        [(''bytes32'', True), (''address'', True), (''int24'', False), (''int24'', False), (''int256'', False),
         (''bytes32'', False)]\<rparr>,
     \<lparr>ed_name = ''ProtocolFeeUpdated'', ed_params = [(''bytes32'', True), (''uint24'', False)]\<rparr>]"

definition declared_events :: "event_decl list" where
  "declared_events = uni_v2_events @ aero_events @ uni_v3_events @ pancake_v3_events @ algebra_events @ slipstream_events @
     uni_v4_events"

section \<open>Topics\<close>

fun comma_list :: "string list \<Rightarrow> string" where
  "comma_list [] = []"
| "comma_list [x] = x"
| "comma_list (x # xs) = x @ '','' @ comma_list xs"

text \<open>\<open>SIGNATURE\<close> and \<open>SIGNATURE_HASH\<close>: names and indexing do not enter the signature.\<close>

definition signature :: "event_decl \<Rightarrow> string" where
  "signature ev = ed_name ev @ ''('' @ comma_list (map fst (ed_params ev)) @ '')''"

definition topic0 :: "(u8 list \<Rightarrow> b256) \<Rightarrow> event_decl \<Rightarrow> b256" where
  "topic0 keccak ev = keccak (map of_char (signature ev))"

definition watched_events :: "event_decl list" where
  "watched_events =
     [uni_v2_events ! 0, aero_events ! 0, uni_v3_events ! 0, uni_v3_events ! 1, uni_v3_events ! 2, algebra_events ! 0,
      slipstream_events ! 0, uni_v4_events ! 1, uni_v4_events ! 2]"

definition event_topics :: "(u8 list \<Rightarrow> b256) \<Rightarrow> b256 list" where
  "event_topics keccak = map (topic0 keccak) watched_events"

text \<open>
  A node serves a subscription (and a log query) the logs whose first topic is among the asked ones;
  heads and the fate of the streams are not affected.
\<close>

definition subscribed :: "b256 list \<Rightarrow> rpc_log \<Rightarrow> bool" where
  "subscribed topics lg = (case get (rl_topics lg) 0 of Some t \<Rightarrow> t \<in> set topics | None \<Rightarrow> False)"

definition served :: "b256 list \<Rightarrow> live_input \<Rightarrow> bool" where
  "served topics i = (case i of Arrives lg _ \<Rightarrow> subscribed topics lg | _ \<Rightarrow> True)"

definition live_session ::
    "(u8 list \<Rightarrow> b256) \<Rightarrow> engine \<Rightarrow> tick_decoders \<Rightarrow> live_input list \<Rightarrow> session \<Rightarrow> session" where
  "live_session keccak e dec inputs s = live_run e dec (filter (served (event_topics keccak)) inputs) s"

section \<open>Which events are watched\<close>

definition emits :: "(u8 list \<Rightarrow> b256) \<Rightarrow> event_decl \<Rightarrow> live_input \<Rightarrow> bool" where
  "emits keccak ev i = (case i of Arrives lg _ \<Rightarrow> get (rl_topics lg) 0 = Some (topic0 keccak ev) | _ \<Rightarrow> False)"

lemma watched_declared: "set watched_events \<subseteq> set declared_events"
  by (simp add: watched_events_def declared_events_def uni_v2_events_def aero_events_def uni_v3_events_def algebra_events_def
      slipstream_events_def uni_v4_events_def)

lemma pancake_declared: "pancake_v3_events ! 0 \<in> set declared_events"
  by (simp add: declared_events_def pancake_v3_events_def)

lemma pancake_unwatched: "pancake_v3_events ! 0 \<notin> set watched_events"
  by (simp add: watched_events_def pancake_v3_events_def uni_v2_events_def aero_events_def uni_v3_events_def algebra_events_def
      slipstream_events_def uni_v4_events_def)

lemma topics_distinguish:
  assumes "distinct (map (topic0 keccak) declared_events)" "ev \<in> set declared_events"
  shows "topic0 keccak ev \<in> set (event_topics keccak) \<longleftrightarrow> ev \<in> set watched_events"
proof -
  have "inj_on (topic0 keccak) (set declared_events)" using assms(1) by (simp add: distinct_map)
  then show ?thesis using assms(2) watched_declared by (auto simp: event_topics_def dest: inj_onD)
qed

text \<open>The session cannot tell apart two histories that differ in logs of unwatched events only.\<close>

lemma unwatched_unseen:
  assumes "distinct (map (topic0 keccak) declared_events)" "ev \<in> set declared_events" "ev \<notin> set watched_events"
  shows "live_session keccak e dec inputs s = live_session keccak e dec (filter (\<lambda>i. \<not> emits keccak ev i) inputs) s"
proof -
  have "topic0 keccak ev \<notin> set (event_topics keccak)" using topics_distinguish assms by blast
  then have "\<not> emits keccak ev i" if "served (event_topics keccak) i" for i
    using that by (cases i) (auto simp: served_def subscribed_def emits_def split: option.splits)
  then have "filter (served (event_topics keccak)) (filter (\<lambda>i. \<not> emits keccak ev i) inputs) = filter (served (event_topics keccak)) inputs"
    unfolding filter_filter by (intro filter_cong) auto
  then show ?thesis by (simp add: live_session_def)
qed

text \<open>C12. Swaps of PancakeSwap V3 pools, which the bot discovers and routes through, carry an event of their own
  (two more fields, hence another first topic) that the subscription does not ask for: whatever
  swaps happen on them, the ingest session is the one in which they did not happen.\<close>
theorem pancake_swaps_unseen:
  assumes "distinct (map (topic0 keccak) declared_events)"
  shows "live_session keccak e dec inputs s =
    live_session keccak e dec (filter (\<lambda>i. \<not> emits keccak (pancake_v3_events ! 0) i) inputs) s"
  by (rule unwatched_unseen [OF assms pancake_declared pancake_unwatched])

section \<open>A concrete session\<close>

text \<open>A stand-in hash: the number of the declared event with that signature.\<close>

definition bytes_of :: "string \<Rightarrow> u8 list" where
  "bytes_of cs = map of_char cs"

definition numbering_hash :: "u8 list \<Rightarrow> b256" where
  "numbering_hash bs = of_nat (length (takeWhile (\<lambda>ev. bytes_of (signature ev) \<noteq> bs) declared_events))"

lemma of_char_byte_inj: "(of_char c :: u8) = of_char d \<Longrightarrow> c = d"
proof -
  assume "(of_char c :: u8) = of_char d"
  then have "(of_nat (of_char c) :: u8) = of_nat (of_char d)" by (simp only: of_nat_of_char)
  moreover have "(of_char x :: nat) < 256" for x using mod_less_divisor [of 256 "of_char x"] by (simp del: mod_less_divisor)
  then have "unat (of_nat (of_char x) :: u8) = of_char x" for x by (intro unat_of_nat_id) simp
  ultimately have "(of_char c :: nat) = of_char d" by metis
  then show "c = d" by simp
qed

lemma bytes_of_inj: "bytes_of a = bytes_of b \<Longrightarrow> a = b"
proof -
  have "inj (of_char :: char \<Rightarrow> u8)" by (rule injI) (rule of_char_byte_inj)
  then show "bytes_of a = bytes_of b \<Longrightarrow> a = b" unfolding bytes_of_def by (rule map_injective [rotated])
qed

lemma signatures_distinct: "distinct (map signature declared_events)"
  by code_simp

lemma numbering_at: "ev \<in> set declared_events \<Longrightarrow>
    topic0 numbering_hash ev = of_nat (length (takeWhile (\<lambda>x. x \<noteq> ev) declared_events))"
proof -
  assume ev: "ev \<in> set declared_events"
  have "inj_on signature (set declared_events)" using signatures_distinct by (simp add: distinct_map)
  then have "bytes_of (signature x) \<noteq> bytes_of (signature ev) \<longleftrightarrow> x \<noteq> ev" if "x \<in> set declared_events" for x
    using that ev by (auto dest: bytes_of_inj inj_onD)
  then have "takeWhile (\<lambda>x. bytes_of (signature x) \<noteq> bytes_of (signature ev)) declared_events = takeWhile (\<lambda>x. x \<noteq> ev) declared_events"
    by (intro takeWhile_cong) auto
  then show ?thesis by (simp add: topic0_def numbering_hash_def bytes_of_def [symmetric])
qed

lemma numbering_distinct: "distinct (map (topic0 numbering_hash) declared_events)"
proof -
  let ?n = "\<lambda>ev. length (takeWhile (\<lambda>x. x \<noteq> ev) declared_events)"
  have lt: "?n ev < length declared_events" if "ev \<in> set declared_events" for ev
  proof -
    have "dropWhile (\<lambda>x. x \<noteq> ev) declared_events \<noteq> []" using that by (auto simp: dropWhile_eq_Nil_conv)
    then show ?thesis using takeWhile_dropWhile_id [of "\<lambda>x. x \<noteq> ev" declared_events] by (metis length_append length_greater_0_conv less_add_same_cancel1)
  qed
  have at: "declared_events ! ?n ev = ev" if "ev \<in> set declared_events" for ev
    using nth_length_takeWhile [OF lt [OF that]] by simp
  have "length declared_events < 2 ^ 256"
    by (simp add: declared_events_def uni_v2_events_def aero_events_def uni_v3_events_def pancake_v3_events_def algebra_events_def
      slipstream_events_def uni_v4_events_def)
  then have "unat (topic0 numbering_hash ev) = ?n ev" if "ev \<in> set declared_events" for ev
    using lt [OF that] that by (simp add: numbering_at unat_of_nat_id)
  then have "inj_on (topic0 numbering_hash) (set declared_events)" by (intro inj_onI) (metis at)
  moreover have "distinct declared_events" using signatures_distinct by (simp add: distinct_map)
  ultimately show ?thesis by (simp add: distinct_map)
qed

definition pancake_swap_log :: rpc_log where
  "pancake_swap_log = (demo_log 5 1)\<lparr>rl_topics := [topic0 numbering_hash (pancake_v3_events ! 0)]\<rparr>"

theorem pancake_swaps_unseen_witness:
  "ss_sent (live_session numbering_hash demo_engine demo_decoders [Arrives pancake_swap_log True] demo_session) = ss_sent demo_session \<and>
   resolve demo_engine pancake_swap_log \<noteq> None"
proof
  have "emits numbering_hash (pancake_v3_events ! 0) (Arrives pancake_swap_log True)"
    by (simp add: emits_def pancake_swap_log_def get_def)
  then show "ss_sent (live_session numbering_hash demo_engine demo_decoders [Arrives pancake_swap_log True] demo_session) = ss_sent demo_session"
    using pancake_swaps_unseen [OF numbering_distinct, of demo_engine demo_decoders "[Arrives pancake_swap_log True]" demo_session]
    by (simp add: live_session_def live_run_def)
  show "resolve demo_engine pancake_swap_log \<noteq> None"
    by (simp add: resolve_def pancake_swap_log_def demo_log_def demo_engine_def UNIV4_POOL_MANAGER_def)
qed

end
