(* ===== verification/Sender.thy ===== *)
theory Sender
  imports Encoder
begin

text \<open>
  Submission, \<^verbatim>\<open>src/executor/sender.rs\<close> with the nonce manager of \<^verbatim>\<open>nonce.rs\<close> and the lanes of
  \<^verbatim>\<open>lanes.rs\<close>.  The receive loop and every spawned submission run concurrently on shared
  state, so the model is a step relation: one step per stretch of code between two awaits (or
  between two critical sections), on a state with the shared fields, the loop's own variable and
  the unfinished tasks.  RPC answers and clock readings are chosen by the environment.  Signing is
  a parameter that may fail.
\<close>

section \<open>Lanes\<close>

datatype lane_error = ThreadGone | ResponseDropped | SubmitFailed

text \<open>
  A lane is an isolated sender thread.  It starts when the runtime builds and the URL parses.  A
  submission posts a job: it fails if the thread is gone or drops the reply, and passes the RPC
  answer on otherwise.
\<close>

record isolated_lane =
  ln_name :: string
  ln_alive :: bool

datatype spawn_error = RuntimeFailed | BadUrl | DiedBeforeReady

definition lane_spawn :: "bool \<Rightarrow> bool \<Rightarrow> bool \<Rightarrow> string \<Rightarrow> spawn_error + isolated_lane" where
  "lane_spawn thread_lives runtime_ok url_ok name =
     (if \<not> thread_lives then Inl DiedBeforeReady
      else if \<not> runtime_ok then Inl RuntimeFailed
      else if \<not> url_ok then Inl BadUrl
      else Inr \<lparr>ln_name = name, ln_alive = True\<rparr>)"

definition rpc_submit :: "b256 option \<Rightarrow> lane_error + b256" where
  "rpc_submit answer = (case answer of None \<Rightarrow> Inl SubmitFailed | Some h \<Rightarrow> Inr h)"

definition isolated_submit :: "isolated_lane \<Rightarrow> b256 option option \<Rightarrow> lane_error + b256" where
  "isolated_submit lane reply =
     (if \<not> ln_alive lane then Inl ThreadGone
      else case reply of None \<Rightarrow> Inl ResponseDropped | Some answer \<Rightarrow> rpc_submit answer)"

text \<open>The race: the handles are awaited in lane order; the last accepted hash wins, a lane task
  that died is skipped, and the earliest acknowledgement is kept.\<close>

type_synonym lane_outcome = "((lane_error + b256) \<times> u64) option"

definition race_step :: "b256 option \<times> u64 option \<Rightarrow> lane_outcome \<Rightarrow> b256 option \<times> u64 option" where
  "race_step acc outcome =
     (case outcome of
        Some (Inr h, done_us) \<Rightarrow>
          (Some h, Some (case snd acc of None \<Rightarrow> done_us | Some b \<Rightarrow> min b done_us))
      | _ \<Rightarrow> acc)"

definition race :: "lane_outcome list \<Rightarrow> b256 option \<times> u64 option" where
  "race outcomes = foldl race_step (None, None) outcomes"

section \<open>State\<close>

record tx_eip1559 =
  tx_chain_id :: u64
  tx_nonce :: u64
  tx_gas_limit :: u64
  tx_max_fee :: u128
  tx_max_prio :: u128
  tx_to :: address
  tx_value :: u256
  tx_input :: "u8 list"

text \<open>A submission task: spawned, racing its transaction, watching for the receipt (with the number of polls
  done), refreshing the balances from a snapshot, or returned and about to leave the in-flight set.\<close>

datatype task =
    Spawned evaluated
  | Racing evaluated
  | Watching evaluated b256 nat
  | Refreshing evaluated "address \<rightharpoonup> u256"
  | Returned evaluated

fun task_eval :: "task \<Rightarrow> evaluated" where
  "task_eval (Spawned ev) = ev"
| "task_eval (Racing ev) = ev"
| "task_eval (Watching ev _ _) = ev"
| "task_eval (Refreshing ev _) = ev"
| "task_eval (Returned ev) = ev"

definition route_of :: "evaluated \<Rightarrow> u32" where
  "route_of ev = op_route_id (ev_opp ev)"

definition task_route :: "task \<Rightarrow> u32" where
  "task_route t = route_of (task_eval t)"

record sender_env =
  se_engine :: engine
  se_store :: route_store
  se_gas :: gas_station
  se_cfg :: execution_config
  se_anchors :: "anchor_config list"
  se_executor :: address
  se_abi :: "exec_call \<Rightarrow> u8 list"
  se_sign :: "tx_eip1559 \<Rightarrow> u8 list option"

record sender =
  sd_next :: u64
  sd_blacklist :: "u32 \<rightharpoonup> u64"
  sd_in_flight :: "u32 set"
  sd_balances :: "address \<rightharpoonup> u256"
  sd_stats :: stats
  sd_checked :: "evaluated option"
  sd_poll :: "(address \<rightharpoonup> u256) option"
  sd_tasks :: "task list"
  sd_wire :: "(tx_eip1559 \<times> u8 list) list"

definition initial_balances :: "(address \<rightharpoonup> u256) \<Rightarrow> anchor_config list \<Rightarrow> (address \<rightharpoonup> u256)" where
  "initial_balances answers anchors =
     foldl (\<lambda>m a. m(an_token a \<mapsto> (case answers (an_token a) of Some b \<Rightarrow> b | None \<Rightarrow> 0))) Map.empty anchors"

definition sender_build :: "u64 \<Rightarrow> (address \<rightharpoonup> u256) \<Rightarrow> sender_env \<Rightarrow> sender" where
  "sender_build pending answers env =
     \<lparr>sd_next = pending, sd_blacklist = Map.empty, sd_in_flight = {},
      sd_balances = initial_balances answers (se_anchors env), sd_stats = stats_new, sd_checked = None,
      sd_poll = None, sd_tasks = [], sd_wire = []\<rparr>"

section \<open>Handlers\<close>

definition nonce_reserve :: "sender \<Rightarrow> u64 \<times> sender" where
  "nonce_reserve s = (sd_next s, s\<lparr>sd_next := sd_next s + 1\<rparr>)"

definition nonce_resync :: "u64 option \<Rightarrow> sender \<Rightarrow> sender" where
  "nonce_resync pending s = (case pending of None \<Rightarrow> s | Some n \<Rightarrow> s\<lparr>sd_next := n\<rparr>)"

definition refresh_own_balances :: "(address \<rightharpoonup> u256) \<Rightarrow> anchor_config list \<Rightarrow> (address \<rightharpoonup> u256) \<Rightarrow> (address \<rightharpoonup> u256)" where
  "refresh_own_balances answers anchors snapshot =
     foldl (\<lambda>m a. case answers (an_token a) of Some b \<Rightarrow> m(an_token a \<mapsto> b) | None \<Rightarrow> m) snapshot anchors"

definition blacklisted :: "sender \<Rightarrow> evaluated \<Rightarrow> bool" where
  "blacklisted s ev = (case sd_blacklist s (route_of ev) of None \<Rightarrow> False | Some until \<Rightarrow> ev_block ev < until)"

text \<open>The receive loop: the blacklist check, then (another critical section) the in-flight insertion and the spawn.\<close>

definition recv_check :: "evaluated \<Rightarrow> sender \<Rightarrow> sender" where
  "recv_check ev s = (if blacklisted s ev then s else s\<lparr>sd_checked := Some ev\<rparr>)"

definition recv_insert :: "evaluated \<Rightarrow> sender \<Rightarrow> sender" where
  "recv_insert ev s =
     (if route_of ev \<in> sd_in_flight s then s\<lparr>sd_checked := None\<rparr>
      else s\<lparr>sd_checked := None, sd_in_flight := insert (route_of ev) (sd_in_flight s), sd_tasks := sd_tasks s @ [Spawned ev]\<rparr>)"

text \<open>
  The first stretch of \<open>submit\<close>, free of awaits: staleness gate, calldata, nonce, transaction,
  signature, hand-over to the lanes.  The result is the task's next phase.  The nonce is taken before
  signing, and a signing error returns at once.
\<close>

datatype head = Dropped | SignFailed | Sent

definition build_tx :: "sender_env \<Rightarrow> evaluated \<Rightarrow> u64 \<Rightarrow> u8 list \<Rightarrow> tx_eip1559" where
  "build_tx env ev nonce calldata =
     \<lparr>tx_chain_id = CHAIN_ID, tx_nonce = nonce, tx_gas_limit = exec_gas_limit (se_cfg env),
      tx_max_fee = base_fee (se_gas env) * 2 + ev_prio ev, tx_max_prio = ev_prio ev,
      tx_to = se_executor env, tx_value = 0, tx_input = calldata\<rparr>"

definition submit_head :: "sender_env \<Rightarrow> nat \<Rightarrow> evaluated \<Rightarrow> sender \<Rightarrow> (head \<times> sender) res" where
  "submit_head env elapsed_ms ev s =
     (if 0 < stale_presign_ms (se_cfg env) \<and> stale_presign_ms (se_cfg env) < of_nat elapsed_ms then
        Inr (Dropped, s\<lparr>sd_stats := (sd_stats s)\<lparr>n_opps_presign := n_opps_presign (sd_stats s) + 1\<rparr>\<rparr>)
      else
        rbind (store_route (se_store env) (route_of ev)) (\<lambda>route.
          let own = (case sd_balances s (rt_anchor route) of Some b \<Rightarrow> b | None \<Rightarrow> 0)
          in rbind (encode (se_abi env) (se_engine env) (se_store env) ev own (use_flashloan (se_cfg env))) (\<lambda>(calldata, _).
               let (nonce, s1) = nonce_reserve s;
                   tx = build_tx env ev nonce calldata
               in case se_sign env tx of
                    None \<Rightarrow> Inr (SignFailed, s1)
                  | Some raw \<Rightarrow>
                      Inr (Sent, s1\<lparr>sd_wire := sd_wire s1 @ [(tx, raw)],
                                    sd_stats := (sd_stats s1)\<lparr>n_txs_sent := n_txs_sent (sd_stats s1) + 1\<rparr>\<rparr>))))"

text \<open>The receipt: landed, or reverted and blacklisted until some blocks past the opportunity's.\<close>

definition on_receipt :: "sender_env \<Rightarrow> bool \<Rightarrow> evaluated \<Rightarrow> sender \<Rightarrow> sender" where
  "on_receipt env status ev s =
     (if status then s\<lparr>sd_stats := (sd_stats s)\<lparr>n_txs_landed := n_txs_landed (sd_stats s) + 1\<rparr>\<rparr>
      else s\<lparr>sd_stats := (sd_stats s)\<lparr>n_txs_reverted := n_txs_reverted (sd_stats s) + 1\<rparr>,
             sd_blacklist := (sd_blacklist s)(route_of ev \<mapsto> ev_block ev + blacklist_blocks (se_cfg env))\<rparr>)"

definition MONITOR_POLLS :: nat where
  "MONITOR_POLLS = 10"

section \<open>Steps\<close>

text \<open>Labels name what a step does to the nonce: a reservation (signed and sent, or not) or a resync.\<close>

datatype label = Reserve bool | Resync | Quiet

inductive task_step :: "sender_env \<Rightarrow> sender \<Rightarrow> label \<Rightarrow> sender \<Rightarrow> bool" for env where
  dropped: "sd_tasks s = ts @ Spawned ev # us \<Longrightarrow> submit_head env ms ev s = Inr (Dropped, s') \<Longrightarrow>
      task_step env s Quiet (s'\<lparr>sd_tasks := ts @ Returned ev # us\<rparr>)"
| sign_failed: "sd_tasks s = ts @ Spawned ev # us \<Longrightarrow> submit_head env ms ev s = Inr (SignFailed, s') \<Longrightarrow>
      task_step env s (Reserve False) (s'\<lparr>sd_tasks := ts @ Returned ev # us\<rparr>)"
| sent: "sd_tasks s = ts @ Spawned ev # us \<Longrightarrow> submit_head env ms ev s = Inr (Sent, s') \<Longrightarrow>
      task_step env s (Reserve True) (s'\<lparr>sd_tasks := ts @ Racing ev # us\<rparr>)"
| accepted: "sd_tasks s = ts @ Racing ev # us \<Longrightarrow> fst (race outcomes) = Some h \<Longrightarrow>
      task_step env s Quiet (s\<lparr>sd_tasks := ts @ Watching ev h 0 # us\<rparr>)"
| rejected: "sd_tasks s = ts @ Racing ev # us \<Longrightarrow> fst (race outcomes) = None \<Longrightarrow>
      task_step env s Resync ((nonce_resync pending s)\<lparr>sd_tasks := ts @ Returned ev # us\<rparr>)"
| no_receipt: "sd_tasks s = ts @ Watching ev h n # us \<Longrightarrow> n < MONITOR_POLLS \<Longrightarrow>
      task_step env s Quiet (s\<lparr>sd_tasks := ts @ Watching ev h (n + 1) # us\<rparr>)"
| receipt: "sd_tasks s = ts @ Watching ev h n # us \<Longrightarrow> n < MONITOR_POLLS \<Longrightarrow>
      task_step env s Quiet ((on_receipt env status ev s)\<lparr>sd_tasks := ts @ Refreshing ev (sd_balances s) # us\<rparr>)"
| timed_out: "sd_tasks s = ts @ Watching ev h n # us \<Longrightarrow> MONITOR_POLLS \<le> n \<Longrightarrow>
      task_step env s Quiet (s\<lparr>sd_tasks := ts @ Returned ev # us\<rparr>)"
| refreshed: "sd_tasks s = ts @ Refreshing ev snapshot # us \<Longrightarrow>
      task_step env s Quiet (s\<lparr>sd_balances := refresh_own_balances answers (se_anchors env) snapshot,
                               sd_tasks := ts @ Returned ev # us\<rparr>)"
| finished: "sd_tasks s = ts @ Returned ev # us \<Longrightarrow>
      task_step env s Quiet (s\<lparr>sd_in_flight := sd_in_flight s - {route_of ev}, sd_tasks := ts @ us\<rparr>)"

inductive sender_step :: "sender_env \<Rightarrow> sender \<Rightarrow> label \<Rightarrow> sender \<Rightarrow> bool" for env where
  task: "task_step env s l s' \<Longrightarrow> sender_step env s l s'"
| check: "sd_checked s = None \<Longrightarrow> sender_step env s Quiet (recv_check ev s)"
| insert: "sd_checked s = Some ev \<Longrightarrow> sender_step env s Quiet (recv_insert ev s)"
| poll_start: "sd_poll s = None \<Longrightarrow> sender_step env s Quiet (s\<lparr>sd_poll := Some (sd_balances s)\<rparr>)"
| poll_end: "sd_poll s = Some snapshot \<Longrightarrow>
      sender_step env s Quiet (s\<lparr>sd_poll := None, sd_balances := refresh_own_balances answers (se_anchors env) snapshot\<rparr>)"

inductive sender_run :: "sender_env \<Rightarrow> sender \<Rightarrow> label list \<Rightarrow> sender \<Rightarrow> bool" for env where
  empty: "sender_run env s [] s"
| step: "sender_run env s ls s' \<Longrightarrow> sender_step env s' l s'' \<Longrightarrow> sender_run env s (ls @ [l]) s''"

inductive_cases task_stepE: "task_step env s l s'"
inductive_cases sender_stepE: "sender_step env s l s'"

section \<open>Frames\<close>

definition wire_nonces :: "sender \<Rightarrow> u64 list" where
  "wire_nonces s = map (\<lambda>w. tx_nonce (fst w)) (sd_wire s)"

lemma wire_nonces_update [simp]:
  "wire_nonces (s\<lparr>sd_tasks := a\<rparr>) = wire_nonces s" "wire_nonces (s\<lparr>sd_in_flight := f\<rparr>) = wire_nonces s"
  "wire_nonces (s\<lparr>sd_balances := b\<rparr>) = wire_nonces s" "wire_nonces (s\<lparr>sd_poll := p\<rparr>) = wire_nonces s"
  by (simp_all add: wire_nonces_def)

lemma submit_head_cases:
  assumes "submit_head env ms ev s = Inr (h, s')"
  obtains (dropped) st where "h = Dropped" "s' = s\<lparr>sd_stats := st\<rparr>"
  | (failed) "h = SignFailed" "s' = s\<lparr>sd_next := sd_next s + 1\<rparr>"
  | (sent) tx raw st where "h = Sent" "tx_nonce tx = sd_next s"
      "s' = s\<lparr>sd_next := sd_next s + 1, sd_wire := sd_wire s @ [(tx, raw)], sd_stats := st\<rparr>"
proof (cases "0 < stale_presign_ms (se_cfg env) \<and> stale_presign_ms (se_cfg env) < of_nat ms")
  case True
  with assms have "h = Dropped" "s' = s\<lparr>sd_stats := (sd_stats s)\<lparr>n_opps_presign := n_opps_presign (sd_stats s) + 1\<rparr>\<rparr>"
    by (auto simp: submit_head_def)
  then show ?thesis by (rule dropped)
next
  case False
  define body :: "u8 list \<Rightarrow> (head \<times> sender) res" where "body calldata = (case se_sign env (build_tx env ev (sd_next s) calldata) of
        None \<Rightarrow> Inr (SignFailed, s\<lparr>sd_next := sd_next s + 1\<rparr>)
      | Some raw \<Rightarrow> Inr (Sent, s\<lparr>sd_next := sd_next s + 1,
          sd_wire := sd_wire (s\<lparr>sd_next := sd_next s + 1\<rparr>) @ [(build_tx env ev (sd_next s) calldata, raw)],
          sd_stats := (sd_stats (s\<lparr>sd_next := sd_next s + 1\<rparr>))
            \<lparr>n_txs_sent := n_txs_sent (sd_stats (s\<lparr>sd_next := sd_next s + 1\<rparr>)) + 1\<rparr>\<rparr>))" for calldata
  obtain calldata where "body calldata = Inr (h, s')"
    using assms False by (auto simp: submit_head_def nonce_reserve_def Let_def body_def)
  then show ?thesis using failed sent [of "build_tx env ev (sd_next s) calldata"]
    by (cases "se_sign env (build_tx env ev (sd_next s) calldata)") (auto simp: body_def build_tx_def)
qed

lemma submit_head_frame:
  assumes "submit_head env ms ev s = Inr (h, s')"
  shows "sd_tasks s' = sd_tasks s" "sd_blacklist s' = sd_blacklist s" "sd_in_flight s' = sd_in_flight s" "sd_checked s' = sd_checked s"
    and "sd_next s' = sd_next s + (if h = Dropped then 0 else 1)"
    and "wire_nonces s' = wire_nonces s @ (if h = Sent then [sd_next s] else [])"
  by (cases rule: submit_head_cases [OF assms]; simp add: wire_nonces_def)+

lemma handler_frames [simp]:
  "sd_tasks (nonce_resync p s) = sd_tasks s" "sd_in_flight (nonce_resync p s) = sd_in_flight s"
  "wire_nonces (nonce_resync p s) = wire_nonces s"
  "sd_next (on_receipt env st ev s) = sd_next s" "wire_nonces (on_receipt env st ev s) = wire_nonces s"
  "sd_in_flight (on_receipt env st ev s) = sd_in_flight s"
  "sd_next (recv_check ev s) = sd_next s" "wire_nonces (recv_check ev s) = wire_nonces s" "sd_tasks (recv_check ev s) = sd_tasks s"
  "sd_in_flight (recv_check ev s) = sd_in_flight s"
  "sd_next (recv_insert ev s) = sd_next s" "wire_nonces (recv_insert ev s) = wire_nonces s"
  by (auto simp: wire_nonces_def nonce_resync_def on_receipt_def recv_check_def recv_insert_def split: option.split)

section \<open>One submission per route\<close>

definition in_flight_ok :: "sender \<Rightarrow> bool" where
  "in_flight_ok s \<longleftrightarrow> distinct (map task_route (sd_tasks s)) \<and> sd_in_flight s = set (map task_route (sd_tasks s))"

lemma in_flight_ok_phase:
  "sd_tasks s = ts @ t # us \<Longrightarrow> in_flight_ok s \<Longrightarrow> task_route t' = task_route t \<Longrightarrow>
     sd_in_flight s' = sd_in_flight s \<Longrightarrow> in_flight_ok (s'\<lparr>sd_tasks := ts @ t' # us\<rparr>)"
  by (simp add: in_flight_ok_def)

lemma task_step_in_flight: "task_step env s l s' \<Longrightarrow> in_flight_ok s \<Longrightarrow> in_flight_ok s'"
proof (induction rule: task_step.induct)
  case (finished s ts ev us)
  then show ?case by (auto simp: in_flight_ok_def task_route_def)
qed (rule in_flight_ok_phase, assumption, assumption, simp add: task_route_def, simp add: submit_head_frame)+

lemma sender_step_in_flight: "sender_step env s l s' \<Longrightarrow> in_flight_ok s \<Longrightarrow> in_flight_ok s'"
proof (induction rule: sender_step.induct)
  case (task s l s')
  then show ?case by (rule task_step_in_flight)
next
  case (insert s ev)
  then show ?case by (auto simp: in_flight_ok_def recv_insert_def task_route_def)
qed (simp_all add: in_flight_ok_def)

lemma sender_run_in_flight: "sender_run env s ls s' \<Longrightarrow> in_flight_ok s \<Longrightarrow> in_flight_ok s'"
  by (induction rule: sender_run.induct) (auto intro: sender_step_in_flight)

section \<open>Nonces\<close>

fun nonces_of :: "u64 \<Rightarrow> label list \<Rightarrow> u64 list" where
  "nonces_of n [] = []"
| "nonces_of n (Reserve ok # ls) = (if ok then [n] else []) @ nonces_of (n + 1) ls"
| "nonces_of n (_ # ls) = nonces_of n ls"

fun reservations :: "label list \<Rightarrow> nat" where
  "reservations [] = 0"
| "reservations (Reserve ok # ls) = Suc (reservations ls)"
| "reservations (_ # ls) = reservations ls"

lemma reservations_append: "reservations (ls @ ks) = reservations ls + reservations ks"
  by (induction ls rule: reservations.induct) auto

lemma nonces_of_append: "nonces_of n (ls @ ks) = nonces_of n ls @ nonces_of (n + of_nat (reservations ls)) ks"
  by (induction n ls rule: nonces_of.induct) (auto simp: algebra_simps)

lemma nonces_of_range: "m \<in> set (nonces_of n ls) \<Longrightarrow> \<exists>k < reservations ls. m = n + of_nat k"
proof (induction n ls rule: nonces_of.induct)
  case (2 n ok ls)
  then consider "m = n" | "m \<in> set (nonces_of (n + 1) ls)" by (auto split: if_splits)
  then show ?case
  proof cases
    case 1
    then show ?thesis by (intro exI [of _ 0]) simp
  next
    case 2
    then obtain k where "k < reservations ls" "m = n + 1 + of_nat k" using "2.IH" by blast
    then show ?thesis by (intro exI [of _ "Suc k"]) (simp add: algebra_simps)
  qed
qed auto

lemma nonces_of_distinct: "reservations ls \<le> 2 ^ 64 \<Longrightarrow> distinct (nonces_of n ls)"
proof (induction n ls rule: nonces_of.induct)
  case (2 n ok ls)
  have "n \<notin> set (nonces_of (n + 1) ls)"
  proof
    assume "n \<in> set (nonces_of (n + 1) ls)"
    then obtain k where k: "k < reservations ls" "n = n + 1 + of_nat k" using nonces_of_range by blast
    then have "(of_nat (Suc k) :: u64) = 0" by (metis add.assoc add_cancel_left_right of_nat_Suc)
    then have "2 ^ 64 dvd Suc k" unfolding word_of_nat_eq_0_iff by simp
    then have "2 ^ 64 \<le> Suc k" by (rule dvd_imp_le) simp
    then show False using k(1) 2(2) by simp
  qed
  then show ?case using 2 by auto
qed auto

lemma task_step_nonces:
  "task_step env s l s' \<Longrightarrow> l \<noteq> Resync \<Longrightarrow>
     sd_next s' = sd_next s + of_nat (reservations [l]) \<and>
     wire_nonces s' = wire_nonces s @ nonces_of (sd_next s) [l]"
  by (induction rule: task_step.induct) (auto simp: submit_head_frame)

lemma sender_step_nonces:
  "sender_step env s l s' \<Longrightarrow> l \<noteq> Resync \<Longrightarrow>
     sd_next s' = sd_next s + of_nat (reservations [l]) \<and>
     wire_nonces s' = wire_nonces s @ nonces_of (sd_next s) [l]"
  by (induction rule: sender_step.induct) (auto dest: task_step_nonces)

lemma sender_run_nonces:
  "sender_run env s ls s' \<Longrightarrow> Resync \<notin> set ls \<Longrightarrow>
     sd_next s' = sd_next s + of_nat (reservations ls) \<and>
     wire_nonces s' = wire_nonces s @ nonces_of (sd_next s) ls"
proof (induction rule: sender_run.induct)
  case (step s ls s' l s'')
  then show ?case using sender_step_nonces [OF step(2)]
    by (auto simp: reservations_append nonces_of_append add.assoc)
qed simp

section \<open>Every submission ends\<close>

fun task_weight :: "task \<Rightarrow> nat" where
  "task_weight (Spawned _) = 20"
| "task_weight (Racing _) = 15"
| "task_weight (Watching _ _ n) = 3 + (MONITOR_POLLS - n)"
| "task_weight (Refreshing _ _) = 2"
| "task_weight (Returned _) = 1"

definition pending_work :: "sender \<Rightarrow> nat" where
  "pending_work s = sum_list (map task_weight (sd_tasks s))"

lemma task_step_decreases: "task_step env s l s' \<Longrightarrow> pending_work s' < pending_work s"
  by (induction rule: task_step.induct) (auto simp: pending_work_def MONITOR_POLLS_def)

lemma task_step_wf: "wf {(s', s). \<exists>l. task_step env s l s'}"
  by (rule wf_subset [OF wf_measure [of pending_work]]) (auto dest: task_step_decreases)

lemma task_step_progress:
  assumes "t \<in> set (sd_tasks s)" "\<And>ev. t = Spawned ev \<Longrightarrow> \<exists>ms. \<not> isl (submit_head env ms ev s)"
  shows "\<exists>l s'. task_step env s l s'"
proof -
  obtain ts us where s: "sd_tasks s = ts @ t # us" using assms(1) by (meson split_list)
  show ?thesis
  proof (cases t)
    case (Spawned ev)
    then obtain ms h s' where h: "submit_head env ms ev s = Inr (h, s')"
      using assms(2) by (metis isl_def not_isl_Inr old.prod.exhaust)
    show ?thesis
    proof (cases h)
      case Dropped
      then show ?thesis using task_step.dropped [OF s [unfolded Spawned] h [unfolded Dropped]] by blast
    next
      case SignFailed
      then show ?thesis using task_step.sign_failed [OF s [unfolded Spawned] h [unfolded SignFailed]] by blast
    next
      case Sent
      then show ?thesis using task_step.sent [OF s [unfolded Spawned] h [unfolded Sent]] by blast
    qed
  next
    case (Racing ev)
    have "fst (race []) = None" by (simp add: race_def)
    then show ?thesis using s Racing task_step.rejected by blast
  next
    case (Watching ev h n)
    then show ?thesis using s task_step.no_receipt task_step.timed_out by (meson not_le)
  next
    case (Refreshing ev sn)
    then show ?thesis using s task_step.refreshed by blast
  next
    case (Returned ev)
    then show ?thesis using s task_step.finished by blast
  qed
qed

section \<open>A concrete sender\<close>

definition demo_env :: sender_env where
  "demo_env = \<lparr>se_engine = arb_engine, se_store = store_build [arb_route] 2, se_gas = free_gas,
     se_cfg = \<lparr>exec_enabled = True, use_flashloan = True, blacklist_blocks = 100, exec_gas_limit = 2000000, stale_presign_ms = 0\<rparr>,
     se_anchors = [arb_anchor], se_executor = 77, se_abi = (\<lambda>_. [1]), se_sign = (\<lambda>_. Some [2])\<rparr>"

definition demo_start :: sender where
  "demo_start = sender_build 5 Map.empty demo_env"

lemma demo_head:
  assumes "ev_opp ev = arb_opp"
  obtains s' where "submit_head demo_env 0 ev s = Inr (Sent, s')"
proof -
  have r: "route_of ev = 0" by (simp add: route_of_def assms arb_opp_def)
  have st: "store_route (store_build [arb_route] 2) 0 = Inr arb_route" by (simp add: store_route_def store_build_def)
  have env: "se_store demo_env = store_build [arb_route] 2" "se_engine demo_env = arb_engine"
    "stale_presign_ms (se_cfg demo_env) = 0" "se_sign demo_env = (\<lambda>_. Some [2])" "use_flashloan (se_cfg demo_env) = True"
    by (simp_all add: demo_env_def)
  have "\<exists>c. encode_call arb_engine (store_build [arb_route] 2) ev own True = Inr c" for own
    using st r by (simp add: encode_call_def route_of_def arb_route_def encode_hop_def arb_plans sample_meta_def Let_def)
  then have "\<exists>calldata fl. encode (se_abi demo_env) arb_engine (store_build [arb_route] 2) ev own True = Inr (calldata, fl)" for own
    by (force simp: encode_def)
  then show ?thesis
    using that by (simp add: submit_head_def env r st nonce_reserve_def Let_def) (metis case_prod_conv rbind_Inr)
qed

text \<open>The first steps: an opportunity is received, spawned, signed and sent.\<close>

lemma demo_sent:
  obtains s where "sender_run demo_env demo_start [Quiet, Quiet, Reserve True] s"
    "sd_tasks s = [Racing arb_found]" "sd_blacklist s = Map.empty" "sd_checked s = None"
proof -
  let ?e = demo_env
  let ?s1 = "demo_start\<lparr>sd_checked := Some arb_found\<rparr>"
  let ?s2 = "recv_insert arb_found ?s1"
  have r0: "sender_run ?e demo_start [] demo_start" by (rule sender_run.empty)
  have "recv_check arb_found demo_start = ?s1" by (simp add: recv_check_def blacklisted_def demo_start_def sender_build_def)
  then have "sender_step ?e demo_start Quiet ?s1"
    using sender_step.check [of demo_start ?e arb_found] by (simp add: demo_start_def sender_build_def)
  from sender_run.step [OF r0 this] have r1: "sender_run ?e demo_start [Quiet] ?s1" by simp
  have "sender_step ?e ?s1 Quiet ?s2" by (rule sender_step.insert) simp
  from sender_run.step [OF r1 this] have r2: "sender_run ?e demo_start [Quiet, Quiet] ?s2" by simp
  have t2: "sd_tasks ?s2 = [] @ Spawned arb_found # []" "sd_blacklist ?s2 = Map.empty" "sd_checked ?s2 = None"
    by (simp_all add: recv_insert_def demo_start_def sender_build_def)
  obtain s' where h: "submit_head ?e 0 arb_found ?s2 = Inr (Sent, s')"
    by (rule demo_head [of arb_found ?s2]) (simp_all add: arb_found_def)
  have "sender_step ?e ?s2 (Reserve True) (s'\<lparr>sd_tasks := [] @ Racing arb_found # []\<rparr>)"
    by (rule sender_step.task, rule task_step.sent [OF t2(1) h])
  from sender_run.step [OF r2 this]
  have r3: "sender_run ?e demo_start [Quiet, Quiet, Reserve True] (s'\<lparr>sd_tasks := [] @ Racing arb_found # []\<rparr>)" by simp
  show ?thesis by (rule that [OF r3]) (use t2 submit_head_frame [OF h] in simp_all)
qed

text \<open>
  The check of the blacklist and the insertion into the in-flight set are two critical sections.  A
  second opportunity of a route may pass the check while the first one's transaction is pending,
  and be inserted after that one reverted, was blacklisted and left the set.
\<close>

definition arb_second :: evaluated where
  "arb_second = arb_found\<lparr>ev_block := 9\<rparr>"

lemma demo_race:
  obtains ls s where "sender_run demo_env demo_start ls s" "sd_tasks s = [Racing arb_second]" "blacklisted s arb_second"
proof -
  let ?e = demo_env
  obtain s3 where r3: "sender_run ?e demo_start [Quiet, Quiet, Reserve True] s3"
    and s3: "sd_tasks s3 = [Racing arb_found]" "sd_blacklist s3 = Map.empty" "sd_checked s3 = None"
    by (rule demo_sent)
  have rt: "route_of arb_found = 0" "route_of arb_second = 0" "ev_block arb_found = 8" "ev_block arb_second = 9"
    by (simp_all add: route_of_def arb_second_def arb_found_def arb_opp_def)
  let ?s4 = "s3\<lparr>sd_tasks := [] @ Watching arb_found 1 0 # []\<rparr>"
  let ?s5 = "?s4\<lparr>sd_checked := Some arb_second\<rparr>"
  let ?s6 = "(on_receipt ?e False arb_found ?s5)\<lparr>sd_tasks := [] @ Refreshing arb_found (sd_balances ?s5) # []\<rparr>"
  let ?s7 = "?s6\<lparr>sd_balances := refresh_own_balances Map.empty (se_anchors ?e) (sd_balances ?s5), sd_tasks := [] @ Returned arb_found # []\<rparr>"
  let ?s8 = "?s7\<lparr>sd_in_flight := sd_in_flight ?s7 - {route_of arb_found}, sd_tasks := [] @ []\<rparr>"
  let ?s9 = "recv_insert arb_second ?s8"
  have "task_step ?e s3 Quiet ?s4"
    by (rule task_step.accepted [where outcomes = "[Some (Inr 1, 3)]"]) (simp_all add: s3 race_def race_step_def)
  from sender_run.step [OF r3 sender_step.task [OF this]] obtain l4 where r4: "sender_run ?e demo_start l4 ?s4" by blast
  have "recv_check arb_second ?s4 = ?s5" using s3 by (simp add: recv_check_def blacklisted_def)
  then have "sender_step ?e ?s4 Quiet ?s5" using sender_step.check [of ?s4 ?e arb_second] s3 by simp
  from sender_run.step [OF r4 this] obtain l5 where r5: "sender_run ?e demo_start l5 ?s5" by blast
  have "task_step ?e ?s5 Quiet ?s6"
    by (rule task_step.receipt [where h = 1 and n = 0]) (simp_all add: MONITOR_POLLS_def)
  from sender_run.step [OF r5 sender_step.task [OF this]] obtain l6 where r6: "sender_run ?e demo_start l6 ?s6" by blast
  have "task_step ?e ?s6 Quiet ?s7" by (rule task_step.refreshed) simp
  from sender_run.step [OF r6 sender_step.task [OF this]] obtain l7 where r7: "sender_run ?e demo_start l7 ?s7" by blast
  have "task_step ?e ?s7 Quiet ?s8" by (rule task_step.finished) simp
  from sender_run.step [OF r7 sender_step.task [OF this]] obtain l8 where r8: "sender_run ?e demo_start l8 ?s8" by blast
  have "sender_step ?e ?s8 Quiet ?s9" by (rule sender_step.insert) (simp add: on_receipt_def)
  from sender_run.step [OF r8 this] obtain l9 where r9: "sender_run ?e demo_start l9 ?s9" by blast
  have s9: "sd_tasks ?s9 = [] @ Spawned arb_second # []" "sd_blacklist ?s9 0 = Some 108"
    using rt by (simp_all add: recv_insert_def on_receipt_def demo_env_def)
  obtain s' where h: "submit_head ?e 0 arb_second ?s9 = Inr (Sent, s')"
    by (rule demo_head [of arb_second ?s9]) (simp_all add: arb_second_def arb_found_def)
  let ?s10 = "s'\<lparr>sd_tasks := [] @ Racing arb_second # []\<rparr>"
  have "task_step ?e ?s9 (Reserve True) ?s10" by (rule task_step.sent [OF s9(1) h])
  from sender_run.step [OF r9 sender_step.task [OF this]] obtain l10 where r10: "sender_run ?e demo_start l10 ?s10" by blast
  show ?thesis
    by (rule that [OF r10]) (use submit_head_frame(2) [OF h] s9(2) rt in \<open>simp_all add: blacklisted_def\<close>)
qed

section \<open>Properties\<close>





text \<open>C32. Every submission ends: there is no infinite sequence of submission steps, and when none is
  possible any task still listed is one whose call building panics.\<close>
theorem submissions_end:
  "wf {(s', s). \<exists>l. task_step env s l s'} \<and>
   (\<forall>s. (\<nexists>l s'. task_step env s l s') \<longrightarrow>
     (\<forall>t \<in> set (sd_tasks s). \<exists>ev. t = Spawned ev \<and> (\<forall>ms. isl (submit_head env ms ev s))))"
  using task_step_wf task_step_progress by metis

theorem submissions_end_witness:
  "\<exists>l s'. task_step demo_env (demo_start\<lparr>sd_tasks := [Spawned arb_found]\<rparr>) l s'"
proof (rule ccontr)
  let ?s = "demo_start\<lparr>sd_tasks := [Spawned arb_found]\<rparr>"
  assume "\<not> ?thesis"
  with submissions_end [THEN conjunct2, rule_format, of demo_env ?s "Spawned arb_found"]
  have "isl (submit_head demo_env 0 arb_found ?s)" by auto
  moreover obtain s' where "submit_head demo_env 0 arb_found ?s = Inr (Sent, s')"
    by (rule demo_head [of arb_found ?s]) (simp_all add: arb_found_def)
  ultimately show False by simp
qed


end
