(* ===== verification/Receipts.thy ===== *)
theory Receipts
  imports Sender
begin

text \<open>
  What the sender reads off a receipt, \<^verbatim>\<open>src/executor/sender.rs\<close> (\<open>log_result\<close> and the
  functions below it): hexadecimal quantities, the executor's net token movement, and the realized
  profit.  The JSON library is a parameter: a receipt is given by what its accessors return
  (\<open>as_str\<close> of a field, \<open>as_array\<close> of a list), and so is the debug form of an address.
\<close>

section \<open>Hexadecimal quantities\<close>

text \<open>Rust's \<open>trim_start_matches\<close> removes every leading copy of the pattern.\<close>

fun trim_0x :: "string \<Rightarrow> string" where
  "trim_0x (a # b # s) = (if a = CHR ''0'' \<and> b = CHR ''x'' then trim_0x s else a # b # s)"
| "trim_0x s = s"

definition hex_digit :: "char \<Rightarrow> nat option" where
  "hex_digit c =
     (let n = of_char c :: nat
      in if 48 \<le> n \<and> n \<le> 57 then Some (n - 48)
         else if 97 \<le> n \<and> n \<le> 102 then Some (n - 87)
         else if 65 \<le> n \<and> n \<le> 70 then Some (n - 55)
         else None)"

text \<open>\<open>u128::from_str_radix(s, 16)\<close>: checked accumulation, an optional plus sign, no empty digits.\<close>

fun hex_digits :: "nat \<Rightarrow> string \<Rightarrow> nat option" where
  "hex_digits acc [] = Some acc"
| "hex_digits acc (c # s) =
     (case hex_digit c of
        None \<Rightarrow> None
      | Some d \<Rightarrow> let acc' = acc * 16 + d in if 2 ^ 128 \<le> acc' then None else hex_digits acc' s)"

definition from_hex :: "string \<Rightarrow> nat option" where
  "from_hex s =
     (case s of
        [] \<Rightarrow> None
      | c # t \<Rightarrow> if c = CHR ''+'' then (if t = [] then None else hex_digits 0 t) else hex_digits 0 s)"

definition hex_u128 :: "string option \<Rightarrow> u128" where
  "hex_u128 v = (case v of None \<Rightarrow> 0 | Some s \<Rightarrow> (case from_hex (trim_0x s) of None \<Rightarrow> 0 | Some n \<Rightarrow> of_nat n))"

section \<open>Token movement\<close>

record receipt_log =
  lg_address :: "string option"
  lg_topics :: "string option list option"
  lg_data :: "string option"

definition lower_char :: "char \<Rightarrow> char" where
  "lower_char c = (let n = of_char c :: nat in if 65 \<le> n \<and> n \<le> 90 then char_of (n + 32) else c)"

definition to_lowercase :: "string \<Rightarrow> string" where
  "to_lowercase s = map lower_char s"

definition TRANSFER_TOPIC :: string where
  "TRANSFER_TOPIC = ''0xddf252ad1be2c89b69c2b068fc378daa952ba7f163c4a11628f55a4df523b3ef''"

definition pad_left :: "nat \<Rightarrow> string \<Rightarrow> string" where
  "pad_left n s = replicate (n - length s) (CHR ''0'') @ s"

definition account_topic :: "(address \<Rightarrow> string) \<Rightarrow> address \<Rightarrow> string" where
  "account_topic fmt account = ''0x'' @ pad_left 64 (to_lowercase (drop 2 (fmt account)))"

text \<open>What one log adds: nothing unless it is a transfer of the token with three topics; then its amount
  for the receiver, minus its amount for the sender (both for a self transfer).\<close>

definition transfer_of :: "(address \<Rightarrow> string) \<Rightarrow> address \<Rightarrow> receipt_log \<Rightarrow> (string option \<times> string option \<times> int) option" where
  "transfer_of fmt token lg =
     (if map_option to_lowercase (lg_address lg) \<noteq> Some (to_lowercase (fmt token)) then None
      else case lg_topics lg of
          Some (t0 # from_topic # to_topic # _) \<Rightarrow>
            if t0 \<noteq> Some TRANSFER_TOPIC then None
            else Some (from_topic, to_topic, wrap_i128 (uint (hex_u128 (lg_data lg))))
        | _ \<Rightarrow> None)"

definition delta_step :: "(address \<Rightarrow> string) \<Rightarrow> address \<Rightarrow> address \<Rightarrow> int \<Rightarrow> receipt_log \<Rightarrow> int" where
  "delta_step fmt token account delta lg =
     (case transfer_of fmt token lg of
        None \<Rightarrow> delta
      | Some (from_topic, to_topic, amount) \<Rightarrow>
          let acc = Some (account_topic fmt account);
              d1 = (if map_option to_lowercase to_topic = acc then wrap_i128 (delta + amount) else delta)
          in if map_option to_lowercase from_topic = acc then wrap_i128 (d1 - amount) else d1)"

definition anchor_delta_from_logs :: "(address \<Rightarrow> string) \<Rightarrow> receipt_log list option \<Rightarrow> address \<Rightarrow> address \<Rightarrow> int" where
  "anchor_delta_from_logs fmt logs token account =
     (case logs of None \<Rightarrow> 0 | Some ls \<Rightarrow> foldl (delta_step fmt token account) 0 ls)"

section \<open>Realized profit\<close>

definition anchor_delta_to_weth_wei :: "anchor_config list \<Rightarrow> (address \<rightharpoonup> f64) \<Rightarrow> address \<Rightarrow> int \<Rightarrow> int" where
  "anchor_delta_to_weth_wei anchors prices anchor amount =
     (case find (\<lambda>a. an_token a = anchor) anchors of
        None \<Rightarrow> amount
      | Some a \<Rightarrow>
          (case prices anchor of
             None \<Rightarrow> amount
           | Some rate \<Rightarrow>
               let sgn_amount = (if amount < 0 then - 1 else 1);
                   scaled = f64_to_i128 (fmul (fmul (fdiv (f64_of_int \<bar>amount\<bar>)
                              (f64_powi (f64_lit 10) (uint (an_decimals a)))) rate) (f64_lit (10 ^ 18)))
               in wrap_i128 (sgn_amount * scaled)))"

record receipt =
  rc_gas_used :: "string option"
  rc_gas_price :: "string option"
  rc_l1_fee :: "string option"
  rc_block :: "string option"
  rc_logs :: "receipt_log list option"

record realized =
  rz_block :: u128
  rz_gas_used :: u128
  rz_gas_price :: u128
  rz_l1_fee :: u128
  rz_gas_cost :: u128
  rz_anchor_delta :: int
  rz_net :: int

definition realize ::
    "(address \<Rightarrow> string) \<Rightarrow> anchor_config list \<Rightarrow> (address \<rightharpoonup> f64) \<Rightarrow> address \<Rightarrow> address \<Rightarrow> receipt \<Rightarrow> realized" where
  "realize fmt anchors prices executor anchor r =
     (let gas_used = hex_u128 (rc_gas_used r);
          gas_price = hex_u128 (rc_gas_price r);
          l1_fee = hex_u128 (rc_l1_fee r);
          gas_cost = gas_used * gas_price + l1_fee;
          delta = anchor_delta_from_logs fmt (rc_logs r) anchor executor;
          delta_eth_wei = anchor_delta_to_weth_wei anchors prices anchor delta
      in \<lparr>rz_block = hex_u128 (rc_block r), rz_gas_used = gas_used, rz_gas_price = gas_price, rz_l1_fee = l1_fee,
          rz_gas_cost = gas_cost, rz_anchor_delta = delta,
          rz_net = wrap_i128 (delta_eth_wei - wrap_i128 (uint gas_cost))\<rparr>)"

section \<open>Printing a quantity\<close>

definition digit_char :: "nat \<Rightarrow> char" where
  "digit_char d = char_of (if d < 10 then d + 48 else d + 87)"

fun print_hex :: "nat \<Rightarrow> string" where
  "print_hex n = (if n < 16 then [digit_char n] else print_hex (n div 16) @ [digit_char (n mod 16)])"

declare print_hex.simps [simp del]

lemma hex_digit_char: "d < 16 \<Longrightarrow> hex_digit (digit_char d) = Some d"
  by (auto simp: hex_digit_def digit_char_def Let_def)

lemma digit_char_plain: "d < 16 \<Longrightarrow> digit_char d \<noteq> CHR ''x'' \<and> digit_char d \<noteq> CHR ''+''"
proof -
  assume d: "d < 16"
  have "hex_digit (CHR ''x'') = None" "hex_digit (CHR ''+'') = None" by code_simp+
  then show ?thesis using hex_digit_char [OF d] by auto
qed

lemma hex_digits_append:
  "hex_digits acc (s @ [c]) = (case hex_digits acc s of None \<Rightarrow> None | Some n \<Rightarrow> hex_digits n [c])"
  by (induction s arbitrary: acc) (auto simp: Let_def split: option.splits)

lemma hex_digits_print: "n < 2 ^ 128 \<Longrightarrow> hex_digits 0 (print_hex n) = Some n"
proof (induction n rule: print_hex.induct)
  case (1 n)
  show ?case
  proof (cases "n < 16")
    case True
    then show ?thesis by (simp add: print_hex.simps [of n] hex_digit_char)
  next
    case False
    then have "hex_digits 0 (print_hex (n div 16)) = Some (n div 16)" using 1 by simp
    then show ?thesis using False 1(2)
      by (simp add: print_hex.simps [of n] hex_digits_append hex_digit_char Let_def)
  qed
qed

lemma print_hex_chars: "c \<in> set (print_hex n) \<Longrightarrow> c \<noteq> CHR ''x'' \<and> c \<noteq> CHR ''+''"
proof (induction n rule: print_hex.induct)
  case (1 n)
  then show ?case
    by (cases "n < 16") (auto simp: print_hex.simps [of n] digit_char_plain)
qed

lemma print_hex_ne: "print_hex n \<noteq> []"
  by (subst print_hex.simps) simp

lemma trim_0x_plain: "CHR ''x'' \<notin> set s \<Longrightarrow> trim_0x s = s"
  by (cases s rule: trim_0x.cases) auto

lemma from_hex_print: "n < 2 ^ 128 \<Longrightarrow> from_hex (print_hex n) = Some n"
  using hex_digits_print [of n] print_hex_chars [of _ n] print_hex_ne [of n]
  by (cases "print_hex n") (auto simp: from_hex_def)

section \<open>The movement is a sum\<close>

definition contribution :: "(address \<Rightarrow> string) \<Rightarrow> address \<Rightarrow> address \<Rightarrow> receipt_log \<Rightarrow> int" where
  "contribution fmt token account lg =
     (case transfer_of fmt token lg of
        None \<Rightarrow> 0
      | Some (from_topic, to_topic, amount) \<Rightarrow>
          (if map_option to_lowercase to_topic = Some (account_topic fmt account) then amount else 0) -
          (if map_option to_lowercase from_topic = Some (account_topic fmt account) then amount else 0))"

lemma wrap_eq: "wrap_i128 a = wrap_i128 b \<longleftrightarrow> take_bit 128 a = take_bit 128 b"
  by (simp add: wrap_i128_def signed_take_bit_eq_iff_take_bit_eq)

lemma take_wrap: "take_bit 128 (wrap_i128 a) = take_bit 128 a"
  by (simp add: wrap_i128_def take_bit_signed_take_bit)

lemma wrap_add: "wrap_i128 (wrap_i128 a + b) = wrap_i128 (a + b)"
  unfolding wrap_eq by (metis take_bit_add take_wrap)

lemma wrap_diff: "wrap_i128 (wrap_i128 a - b) = wrap_i128 (a - b)"
  unfolding wrap_eq by (metis take_bit_diff take_wrap)

lemma wrap_idem: "wrap_i128 (wrap_i128 a) = wrap_i128 a"
  unfolding wrap_eq by (rule take_wrap)

lemma delta_step_sum: "delta_step fmt token account (wrap_i128 d) lg = wrap_i128 (d + contribution fmt token account lg)"
  by (auto simp: delta_step_def contribution_def Let_def wrap_add wrap_diff wrap_idem split: option.splits)

lemma foldl_delta:
  "foldl (delta_step fmt token account) (wrap_i128 d) ls =
     wrap_i128 (d + sum_list (map (contribution fmt token account) ls))"
  by (induction ls arbitrary: d) (simp_all add: delta_step_sum add.assoc)

section \<open>Properties\<close>

text \<open>Reading back a printed quantity gives the number: every 128-bit value survives the hexadecimal
  round trip through a receipt field.\<close>
lemma hex_round_trip:
  assumes "n < 2 ^ 128"
  shows "hex_u128 (Some (''0x'' @ print_hex n)) = of_nat n"
proof -
  have "CHR ''x'' \<notin> set (print_hex n)" using print_hex_chars by blast
  then have "trim_0x (''0x'' @ print_hex n) = print_hex n" by (simp add: trim_0x_plain)
  then show ?thesis by (simp add: hex_u128_def from_hex_print [OF assms])
qed

text \<open>The reported movement of the anchor token is the sum over the receipt's logs of what each moved into
  the executor minus what it moved out, in wrapping 128-bit arithmetic.\<close>
lemma anchor_delta_sum:
  "anchor_delta_from_logs fmt logs token account =
     (case logs of None \<Rightarrow> 0 | Some ls \<Rightarrow> wrap_i128 (sum_list (map (contribution fmt token account) ls)))"
proof -
  have "wrap_i128 0 = 0" by (simp add: wrap_i128_id)
  then show ?thesis using foldl_delta [of fmt token account 0]
    by (simp add: anchor_delta_from_logs_def split: option.split)
qed

end
