(* ===== verification/Discovery.thy ===== *)
theory Discovery
  imports Multicall
begin

text \<open>
  Factory discovery, \<^verbatim>\<open>src/ingest/discovery.rs\<close>: creation logs are decoded per protocol, a factory
  is scanned chunk by chunk, and a cache per protocol is checkpointed so that a later run resumes.
  The event decoders and signature hashes of the ABI crate, the node, the clock and the cache files
  are parameters; a file is a value of type \<open>dex_cache\<close> or absent (missing or unreadable).
\<close>

section \<open>Pools found\<close>

record discovered_pool =
  dp_address :: address
  dp_dex :: dex_tag
  dp_factory :: address
  dp_token0 :: address
  dp_token1 :: address
  dp_fee_pips :: "u32 option"
  dp_tick_spacing :: "int option"
  dp_fee_bps :: "u32 option"
  dp_pool_id :: "b256 option"
  dp_currency0_raw :: "address option"

record dex_cache =
  ca_last_synced_block :: u64
  ca_pools :: "discovered_pool list"

definition v4_pool_from_key ::
    "address \<Rightarrow> b256 \<Rightarrow> address \<Rightarrow> address \<Rightarrow> u32 \<Rightarrow> int \<Rightarrow> address \<Rightarrow> discovered_pool option" where
  "v4_pool_from_key pool_manager pool_id currency0 currency1 fee_pips tick_spacing hooks =
     (if hooks \<noteq> 0 \<or> fee_pips = UNIV4_DYNAMIC_FEE_FLAG \<or> UNIV4_MAX_LP_FEE < fee_pips then None
      else if currency0 = 0 \<and> currency1 = WETH then None
      else
        let token0 = (if currency0 = 0 then WETH else currency0)
        in Some \<lparr>dp_address = synthetic_address pool_id, dp_dex = UniV4, dp_factory = pool_manager, dp_token0 = token0,
             dp_token1 = currency1, dp_fee_pips = Some fee_pips, dp_tick_spacing = Some tick_spacing, dp_fee_bps = None,
             dp_pool_id = Some pool_id, dp_currency0_raw = Some currency0\<rparr>)"

section \<open>Decoding creation logs\<close>

datatype creation_event = PairCreated | AeroPoolCreated | V3PoolCreated | SlipstreamPoolCreated | V4Initialize

record v4_initialize =
  in_id :: b256
  in_currency0 :: address
  in_currency1 :: address
  in_fee :: "24 word"
  in_tick_spacing :: int
  in_hooks :: address

record ('l, 'e) creation_abi =
  ab_topic :: "creation_event \<Rightarrow> b256"
  ab_pair :: "'l \<Rightarrow> 'e + address \<times> address \<times> address"                      \<comment> \<open>pair, token0, token1\<close>
  ab_aero :: "'l \<Rightarrow> 'e + address \<times> address \<times> address \<times> bool"                \<comment> \<open>pool, token0, token1, stable\<close>
  ab_v3 :: "'l \<Rightarrow> 'e + address \<times> address \<times> address \<times> 24 word \<times> int"        \<comment> \<open>pool, tokens, fee, tick spacing\<close>
  ab_slipstream :: "'l \<Rightarrow> 'e + address \<times> address \<times> address \<times> int"          \<comment> \<open>pool, tokens, tick spacing\<close>
  ab_v4 :: "'l \<Rightarrow> 'e + v4_initialize"

definition plain_pool ::
    "dex_config \<Rightarrow> dex_tag \<Rightarrow> address \<Rightarrow> address \<Rightarrow> address \<Rightarrow> u32 option \<Rightarrow> int option \<Rightarrow> u32 option \<Rightarrow> discovered_pool" where
  "plain_pool dex tag pool token0 token1 fee_pips tick_spacing fee_bps =
     \<lparr>dp_address = pool, dp_dex = tag, dp_factory = dc_factory dex, dp_token0 = token0, dp_token1 = token1,
      dp_fee_pips = fee_pips, dp_tick_spacing = tick_spacing, dp_fee_bps = fee_bps, dp_pool_id = None, dp_currency0_raw = None\<rparr>"

definition sbind :: "'e + 'a \<Rightarrow> ('a \<Rightarrow> 'e + 'b) \<Rightarrow> 'e + 'b" where
  "sbind r f = (case r of Inl e \<Rightarrow> Inl e | Inr a \<Rightarrow> f a)"

definition decode_pool_log :: "('l, 'e) creation_abi \<Rightarrow> dex_config \<Rightarrow> 'l \<Rightarrow> 'e + discovered_pool option" where
  "decode_pool_log abi dex lg =
     (if dc_kind dex = ''v2'' then
        sbind (ab_pair abi lg) (\<lambda>(pair, t0, t1). Inr (Some (plain_pool dex UniV2Fork pair t0 t1 None None (dc_fee_bps dex))))
      else if dc_kind dex = ''aero'' then
        sbind (ab_aero abi lg) (\<lambda>(pool, t0, t1, stable).
          Inr (Some (plain_pool dex (if stable then AeroStable else AeroVolatile) pool t0 t1 None None None)))
      else if dc_kind dex = ''v3'' \<or> dc_kind dex = ''pancake_v3'' then
        sbind (ab_v3 abi lg) (\<lambda>(pool, t0, t1, fee, spacing).
          Inr (Some (plain_pool dex (if dc_kind dex = ''pancake_v3'' then PancakeV3 else UniV3Fork) pool t0 t1
                 (Some (ucast fee)) (Some spacing) None)))
      else if dc_kind dex = ''slipstream'' then
        sbind (ab_slipstream abi lg) (\<lambda>(pool, t0, t1, spacing). Inr (Some (plain_pool dex Slipstream pool t0 t1 None (Some spacing) None)))
      else if dc_kind dex = ''v4'' then
        sbind (ab_v4 abi lg) (\<lambda>ev. Inr (v4_pool_from_key (dc_factory dex) (in_id ev) (in_currency0 ev) (in_currency1 ev)
          (ucast (in_fee ev)) (in_tick_spacing ev) (in_hooks ev)))
      else Inr None)"

definition topic_kind :: "string \<Rightarrow> creation_event option" where
  "topic_kind kind =
     (if kind = ''v2'' then Some PairCreated
      else if kind = ''aero'' then Some AeroPoolCreated
      else if kind = ''v3'' \<or> kind = ''pancake_v3'' then Some V3PoolCreated
      else if kind = ''slipstream'' then Some SlipstreamPoolCreated
      else if kind = ''v4'' then Some V4Initialize
      else None)"

section \<open>The scan\<close>

datatype 'e scan_error = Rpc 'e | BadLog 'e | UnsupportedKind string | CacheWrite

type_synonym disk = "string \<Rightarrow> dex_cache option"

text \<open>
  The environment of a scan.  \<open>sc_due\<close> says whether ten seconds have passed since the last checkpoint
  when the chunk ending at a block is done, \<open>sc_writes\<close> whether writing that checkpoint succeeds.
\<close>

record ('w, 'l, 'e) scan_env =
  sc_provider :: "address \<times> b256 \<Rightarrow> ('w, u64 \<times> u64, 'e, 'l list) provider"
  sc_abi :: "('l, 'e) creation_abi"
  sc_due :: "u64 \<Rightarrow> bool"
  sc_writes :: "u64 \<Rightarrow> bool"

definition load_cache :: "disk \<Rightarrow> string \<Rightarrow> dex_cache" where
  "load_cache disk name =
     (case disk name of Some c \<Rightarrow> c | None \<Rightarrow> \<lparr>ca_last_synced_block = 0, ca_pools = []\<rparr>)"

text \<open>\<open>save_cache\<close>: the file of the protocol holds the cache, unless the write fails.\<close>

definition save_cache :: "bool \<Rightarrow> string \<Rightarrow> dex_cache \<Rightarrow> disk \<Rightarrow> 'e scan_error + disk" where
  "save_cache written name cache disk = (if written then Inr (disk(name \<mapsto> cache)) else Inl CacheWrite)"

definition cached_pools :: "disk \<Rightarrow> string \<Rightarrow> discovered_pool list" where
  "cached_pools disk name = ca_pools (load_cache disk name)"

text \<open>The pools of a chunk's logs: decoding stops at the first log it cannot read.\<close>

fun push_pools :: "('l, 'e) creation_abi \<Rightarrow> dex_config \<Rightarrow> 'l list \<Rightarrow> discovered_pool list \<Rightarrow> 'e + discovered_pool list" where
  "push_pools abi dex [] pools = Inr pools"
| "push_pools abi dex (lg # lgs) pools =
     (case decode_pool_log abi dex lg of
        Inl e \<Rightarrow> Inl e
      | Inr None \<Rightarrow> push_pools abi dex lgs pools
      | Inr (Some dp) \<Rightarrow> push_pools abi dex lgs (pools @ [dp]))"

partial_function (option) scan_loop ::
    "('w, 'l, 'e) scan_env \<Rightarrow> dex_config \<Rightarrow> b256 \<Rightarrow> u64 \<Rightarrow> u64 \<Rightarrow> u64 \<Rightarrow> dex_cache \<Rightarrow> disk \<Rightarrow> 'w
      \<Rightarrow> (('e scan_error + dex_cache) \<times> disk \<times> 'w) option" where
  "scan_loop env dex topic to_b chunk start cache disk w =
     (if to_b < start then Some (Inr cache, disk, w)
      else
        let end_b = min (start + chunk - 1) to_b
        in case get_logs_bisect (sc_provider env (dc_factory dex, topic)) start end_b w of
             (Inl e, w1) \<Rightarrow> Some (Inl (Rpc e), disk, w1)
           | (Inr lgs, w1) \<Rightarrow>
               (case push_pools (sc_abi env) dex lgs (ca_pools cache) of
                  Inl e \<Rightarrow> Some (Inl (BadLog e), disk, w1)
                | Inr pools \<Rightarrow>
                    let cache1 = \<lparr>ca_last_synced_block = end_b, ca_pools = pools\<rparr>
                    in if sc_due env end_b \<or> end_b = to_b then
                         (case save_cache (sc_writes env end_b) (dc_name dex) cache1 disk of
                            Inl e \<Rightarrow> Some (Inl e, disk, w1)
                          | Inr disk1 \<Rightarrow> scan_loop env dex topic to_b chunk (end_b + 1) cache1 disk1 w1)
                       else scan_loop env dex topic to_b chunk (end_b + 1) cache1 disk w1))"

definition scan_factory_incremental ::
    "('w, 'l, 'e) scan_env \<Rightarrow> dex_config \<Rightarrow> u64 \<Rightarrow> u64 \<Rightarrow> u64 \<Rightarrow> dex_cache \<Rightarrow> disk \<Rightarrow> 'w
      \<Rightarrow> (('e scan_error + dex_cache) \<times> disk \<times> 'w) option" where
  "scan_factory_incremental env dex from_b to_b chunk cache disk w =
     (case topic_kind (dc_kind dex) of
        None \<Rightarrow> Some (Inl (UnsupportedKind (dc_kind dex)), disk, w)
      | Some ev \<Rightarrow> scan_loop env dex (ab_topic (sc_abi env) ev) to_b chunk from_b cache disk w)"

definition scan_start :: "discovery_config \<Rightarrow> dex_config \<Rightarrow> dex_cache \<Rightarrow> u64" where
  "scan_start disc dex cache =
     (if ca_last_synced_block cache = 0
      then (case dc_deploy_block dex of Some b \<Rightarrow> b | None \<Rightarrow> disc_start_block disc)
      else ca_last_synced_block cache + 1)"

fun discover_dexes ::
    "('w, 'l, 'e) scan_env \<Rightarrow> discovery_config \<Rightarrow> u64 \<Rightarrow> dex_config list \<Rightarrow> discovered_pool list \<Rightarrow> disk \<Rightarrow> 'w
      \<Rightarrow> (('e scan_error + discovered_pool list) \<times> disk \<times> 'w) option" where
  "discover_dexes env disc head [] found disk w = Some (Inr found, disk, w)"
| "discover_dexes env disc head (dex # dexes) found disk w =
     (let cache = load_cache disk (dc_name dex); start = scan_start disc dex cache
      in if start \<le> head then
           (case scan_factory_incremental env dex start head (getlogs_chunk disc) cache disk w of
              None \<Rightarrow> None
            | Some (Inl e, disk1, w1) \<Rightarrow> Some (Inl e, disk1, w1)
            | Some (Inr cache1, disk1, w1) \<Rightarrow> discover_dexes env disc head dexes (found @ ca_pools cache1) disk1 w1)
         else discover_dexes env disc head dexes (found @ ca_pools cache) disk w)"

definition discover_all ::
    "('w, 'l, 'e) scan_env \<Rightarrow> ('w \<Rightarrow> ('e + u64) \<times> 'w) \<Rightarrow> config \<Rightarrow> disk \<Rightarrow> 'w
      \<Rightarrow> (('e scan_error + discovered_pool list) \<times> disk \<times> 'w) option" where
  "discover_all env block_number cfg disk w =
     (case block_number w of
        (Inl e, w1) \<Rightarrow> Some (Inl (Rpc e), disk, w1)
      | (Inr head, w1) \<Rightarrow> discover_dexes env (cf_discovery cfg) head (cf_dexes cfg) [] disk w1)"

section \<open>Checkpoints are exact\<close>

lemma sbind_simps [simp]: "sbind (Inl e) f = Inl e" "sbind (Inr a) f = f a"
  by (simp_all add: sbind_def)

lemma push_pools_acc: "push_pools abi dex lgs acc = sbind (push_pools abi dex lgs []) (\<lambda>ps. Inr (acc @ ps))"
proof (induction lgs arbitrary: acc)
  case (Cons lg lgs)
  have "push_pools abi dex lgs (acc @ [dp]) = sbind (push_pools abi dex lgs [dp]) (\<lambda>ps. Inr (acc @ ps))" for dp
    using Cons.IH [of "acc @ [dp]"] Cons.IH [of "[dp]"] by (cases "push_pools abi dex lgs []") simp_all
  then show ?case using Cons.IH [of acc] by (simp split: sum.split option.split)
qed simp

lemma push_pools_append: "push_pools abi dex (xs @ ys) acc = sbind (push_pools abi dex xs acc) (push_pools abi dex ys)"
  by (induction xs arbitrary: acc) (simp_all split: sum.split option.split)

text \<open>The pools a factory announced in the blocks from \<open>a\<close> up to and excluding \<open>b\<close>.\<close>

definition announced :: "('l, 'e) creation_abi \<Rightarrow> dex_config \<Rightarrow> (nat \<Rightarrow> 'l list) \<Rightarrow> nat \<Rightarrow> nat \<Rightarrow> 'e + discovered_pool list" where
  "announced abi dex chain a b = push_pools abi dex (concat (map chain [a ..< b])) []"

lemma announced_extend:
  assumes "announced abi dex chain a (unat start) = Inr ps" "a \<le> unat start" "unat start \<le> unat end_b"
  shows "announced abi dex chain a (Suc (unat end_b)) = push_pools abi dex (range_logs chain start end_b) ps"
proof -
  have "[a ..< Suc (unat end_b)] = [a ..< unat start] @ [unat start ..< Suc (unat end_b)]"
    using assms(2,3) upt_add_eq_append [of a "unat start" "Suc (unat end_b) - unat start"] by simp
  then show ?thesis using assms(1) by (simp add: announced_def push_pools_append range_logs_def)
qed

definition exact_cache ::
    "('l, 'e) creation_abi \<Rightarrow> dex_config \<Rightarrow> (nat \<Rightarrow> 'l list) \<Rightarrow> u64 \<Rightarrow> dex_cache \<Rightarrow> bool" where
  "exact_cache abi dex chain b0 c \<longleftrightarrow>
     b0 \<le> ca_last_synced_block c \<and>
     announced abi dex chain (unat b0) (Suc (unat (ca_last_synced_block c))) = Inr (ca_pools c)"

lemma scan_end:
  fixes start to_b chunk :: u64
  assumes "start \<le> to_b" "0 < chunk" "unat to_b + unat chunk < 2 ^ 64"
  defines "end_b \<equiv> min (start + chunk - 1) to_b"
  shows "start \<le> end_b" "end_b \<le> to_b" "unat (end_b + 1) = unat end_b + 1"
proof -
  have le: "unat start \<le> unat to_b" "0 < unat chunk" using assms(1,2) by (simp_all add: word_le_nat_alt word_less_nat_alt)
  have "start + chunk - 1 = start + (chunk - 1)" by simp
  moreover have c: "unat (chunk - 1) = unat chunk - 1" using le(2) by (simp add: unat_minus_one unat_gt_0)
  moreover have "unat (start + (chunk - 1)) = unat start + unat (chunk - 1)"
    using le assms(3) by (intro unat_add_id) (simp add: c)
  ultimately have s: "unat (start + chunk - 1) = unat start + (unat chunk - 1)" by (simp only: c)
  show "start \<le> end_b" using s le assms(1) unfolding end_b_def by (simp add: word_le_nat_alt)
  show "end_b \<le> to_b" by (simp add: end_b_def)
  then have "unat end_b \<le> unat to_b" by (simp add: word_le_nat_alt)
  then show "unat (end_b + 1) = unat end_b + 1" using assms(3) le(2) by (subst unat_add_id) simp_all
qed

text \<open>
  What a scan guarantees whatever its outcome: only its own file changes, the file only ever
  holds an exact checkpoint, and a completed scan has recorded exactly what it returns.
\<close>

definition scan_post ::
    "('l, 'e) creation_abi \<Rightarrow> dex_config \<Rightarrow> (nat \<Rightarrow> 'l list) \<Rightarrow> u64 \<Rightarrow> u64 \<Rightarrow> u64 \<Rightarrow> disk
      \<Rightarrow> 'e scan_error + dex_cache \<Rightarrow> disk \<Rightarrow> bool" where
  "scan_post abi dex chain b0 start to_b disk r disk' \<longleftrightarrow>
     (\<forall>n. n \<noteq> dc_name dex \<longrightarrow> disk' n = disk n) \<and>
     (disk' (dc_name dex) = disk (dc_name dex) \<or>
        (\<exists>c. disk' (dc_name dex) = Some c \<and> start \<le> ca_last_synced_block c \<and> ca_last_synced_block c \<le> to_b \<and> exact_cache abi dex chain b0 c)) \<and>
     (\<forall>c. r = Inr c \<longrightarrow> announced abi dex chain (unat b0) (Suc (unat to_b)) = Inr (ca_pools c) \<and>
        (start \<le> to_b \<longrightarrow> disk' (dc_name dex) = Some c \<and> ca_last_synced_block c = to_b))"

lemma scan_post_later:
  assumes "scan_post abi dex chain b0 (end_b + 1) to_b disk1 r disk'"
    and "start \<le> end_b" "unat (end_b + 1) = unat end_b + 1"
    and "disk1 = disk \<or> disk1 = disk(dc_name dex \<mapsto> c1) \<and> ca_last_synced_block c1 = end_b \<and> exact_cache abi dex chain b0 c1"
    and "end_b = to_b \<Longrightarrow> disk1 = disk(dc_name dex \<mapsto> c1) \<and> r = Inr c1 \<and> disk' = disk1 \<and> ca_last_synced_block c1 = to_b"
    and "end_b \<le> to_b"
  shows "scan_post abi dex chain b0 start to_b disk r disk'"
proof -
  have ord: "start \<le> end_b + 1" using assms(2,3) by (simp add: word_le_nat_alt)
  have nxt: "end_b + 1 \<le> to_b" if "end_b \<noteq> to_b"
  proof -
    have "unat end_b < unat to_b" using that assms(6) by (simp add: word_less_nat_alt [symmetric])
    then show ?thesis using assms(3) by (simp add: word_le_nat_alt)
  qed
  have "disk' n = disk n" if "n \<noteq> dc_name dex" for n
    using assms(1,4) that unfolding scan_post_def by auto
  moreover have "disk' (dc_name dex) = disk (dc_name dex) \<or>
      (\<exists>c. disk' (dc_name dex) = Some c \<and> start \<le> ca_last_synced_block c \<and> ca_last_synced_block c \<le> to_b \<and> exact_cache abi dex chain b0 c)"
    using assms(1,2,4,6) ord unfolding scan_post_def by (auto intro: order_trans)
  moreover have "announced abi dex chain (unat b0) (Suc (unat to_b)) = Inr (ca_pools c) \<and>
      (start \<le> to_b \<longrightarrow> disk' (dc_name dex) = Some c \<and> ca_last_synced_block c = to_b)" if "r = Inr c" for c
  proof (cases "end_b = to_b")
    case True
    then show ?thesis using assms(1,5) that unfolding scan_post_def by auto
  next
    case False
    then show ?thesis using assms(1) that nxt unfolding scan_post_def by auto
  qed
  ultimately show ?thesis unfolding scan_post_def by blast
qed

lemma scan_loop_post:
  assumes hon: "honest (sc_provider env (dc_factory dex, topic)) chain"
    and chunk: "0 < chunk" "unat to_b + unat chunk < 2 ^ 64"
  shows "b0 \<le> start \<Longrightarrow> unat start \<le> unat to_b + 1 \<Longrightarrow>
    announced (sc_abi env) dex chain (unat b0) (unat start) = Inr (ca_pools cache) \<Longrightarrow>
    \<exists>r disk' w'. scan_loop env dex topic to_b chunk start cache disk w = Some (r, disk', w') \<and>
      scan_post (sc_abi env) dex chain b0 start to_b disk r disk' \<and> (to_b < start \<longrightarrow> r = Inr cache \<and> disk' = disk)"
proof (induction "unat to_b + 1 - unat start" arbitrary: start cache disk w rule: less_induct)
  case less
  show ?case
  proof (cases "to_b < start")
    case True
    then have "unat start = unat to_b + 1" using less.prems(2) by (simp add: word_less_nat_alt)
    then have "scan_post (sc_abi env) dex chain b0 start to_b disk (Inr cache) disk"
      using less.prems(3) True by (simp add: scan_post_def not_le [symmetric])
    then show ?thesis using True by (subst scan_loop.simps) simp
  next
    case False
    then have le: "start \<le> to_b" by simp
    define end_b where "end_b = min (start + chunk - 1) to_b"
    note e = scan_end [OF le chunk, folded end_b_def]
    have ne: "disk' (dc_name dex) = disk (dc_name dex)" if "disk' = disk" for disk' using that by simp
    have fail: "scan_post (sc_abi env) dex chain b0 start to_b disk (Inl x) disk" for x
      by (simp add: scan_post_def)
    obtain r w1 where g: "get_logs_bisect (sc_provider env (dc_factory dex, topic)) start end_b w = (r, w1)" by fastforce
    show ?thesis
    proof (cases r)
      case (Inl x)
      then show ?thesis using False g fail by (subst scan_loop.simps) (simp add: Let_def end_b_def [symmetric])
    next
      case (Inr lgs)
      have lgs: "lgs = range_logs chain start end_b" using bisect_honest [OF hon g [unfolded Inr]] .
      have ann: "announced (sc_abi env) dex chain (unat b0) (Suc (unat end_b)) = push_pools (sc_abi env) dex lgs (ca_pools cache)"
        using announced_extend [OF less.prems(3)] less.prems(1) e(1) unfolding lgs by (simp add: word_le_nat_alt)
      show ?thesis
      proof (cases "push_pools (sc_abi env) dex lgs (ca_pools cache)")
        case (Inl x)
        then show ?thesis using False g Inr fail by (subst scan_loop.simps) (simp add: Let_def end_b_def [symmetric])
      next
        case (Inr pools)
        let ?c1 = "\<lparr>ca_last_synced_block = end_b, ca_pools = pools\<rparr>"
        have ex: "exact_cache (sc_abi env) dex chain b0 ?c1"
          using ann Inr less.prems(1) e(1) by (simp add: exact_cache_def)
        have st: "announced (sc_abi env) dex chain (unat b0) (unat (end_b + 1)) = Inr (ca_pools ?c1)"
          using ann Inr e(3) by simp
        have ord: "b0 \<le> end_b + 1" "unat (end_b + 1) \<le> unat to_b + 1" "unat to_b + 1 - unat (end_b + 1) < unat to_b + 1 - unat start"
          using less.prems(1) e by (simp_all add: word_le_nat_alt)
        have rec: "\<exists>r disk' w'. scan_loop env dex topic to_b chunk (end_b + 1) ?c1 disk1 w1 = Some (r, disk', w') \<and>
            scan_post (sc_abi env) dex chain b0 start to_b disk r disk'"
          if "disk1 = disk \<and> end_b \<noteq> to_b \<or> disk1 = disk(dc_name dex \<mapsto> ?c1)" for disk1
        proof -
          obtain r disk' w' where r: "scan_loop env dex topic to_b chunk (end_b + 1) ?c1 disk1 w1 = Some (r, disk', w')"
            "scan_post (sc_abi env) dex chain b0 (end_b + 1) to_b disk1 r disk'"
            "to_b < end_b + 1 \<longrightarrow> r = Inr ?c1 \<and> disk' = disk1"
            using less.hyps [OF ord(3) ord(1,2) st] by blast
          have fin: "disk1 = disk(dc_name dex \<mapsto> ?c1) \<and> r = Inr ?c1 \<and> disk' = disk1 \<and> ca_last_synced_block ?c1 = to_b"
            if "end_b = to_b"
            using that \<open>disk1 = disk \<and> end_b \<noteq> to_b \<or> disk1 = disk(dc_name dex \<mapsto> ?c1)\<close> r(3) e(3) by (simp add: word_less_nat_alt)
          have "scan_post (sc_abi env) dex chain b0 start to_b disk r disk'"
            by (rule scan_post_later [OF r(2) e(1,3) _ fin e(2)]) (use that ex in auto)
          then show ?thesis using r(1) by blast
        qed
        show ?thesis
        proof (cases "sc_due env end_b \<or> end_b = to_b")
          case True
          show ?thesis
          proof (cases "sc_writes env end_b")
            case True
            then show ?thesis using False g \<open>r = Inr lgs\<close> Inr \<open>sc_due env end_b \<or> end_b = to_b\<close> rec [of "disk(dc_name dex \<mapsto> ?c1)"]
              by (subst scan_loop.simps) (simp add: Let_def end_b_def [symmetric] save_cache_def)
          next
            case w: False
            then show ?thesis using False g \<open>r = Inr lgs\<close> Inr True fail
              by (subst scan_loop.simps) (simp add: Let_def end_b_def [symmetric] save_cache_def)
          qed
        next
          case nd: False
          then show ?thesis using False g \<open>r = Inr lgs\<close> Inr rec [of disk]
            by (subst scan_loop.simps) (simp add: Let_def end_b_def [symmetric])
        qed
      qed
    qed
  qed
qed

section \<open>All protocols\<close>

definition dex_chain :: "('l, 'e) creation_abi \<Rightarrow> (address \<times> b256 \<Rightarrow> nat \<Rightarrow> 'l list) \<Rightarrow> dex_config \<Rightarrow> nat \<Rightarrow> 'l list" where
  "dex_chain abi chain dex =
     (case topic_kind (dc_kind dex) of Some ev \<Rightarrow> chain (dc_factory dex, ab_topic abi ev) | None \<Rightarrow> (\<lambda>_. []))"

definition first_block :: "discovery_config \<Rightarrow> dex_config \<Rightarrow> u64" where
  "first_block disc dex = (case dc_deploy_block dex of Some b \<Rightarrow> b | None \<Rightarrow> disc_start_block disc)"

text \<open>The cache file of a protocol is absent or an exact checkpoint.\<close>

definition dex_ok ::
    "('l, 'e) creation_abi \<Rightarrow> (address \<times> b256 \<Rightarrow> nat \<Rightarrow> 'l list) \<Rightarrow> discovery_config \<Rightarrow> disk \<Rightarrow> dex_config \<Rightarrow> bool" where
  "dex_ok abi chain disc disk dex \<longleftrightarrow>
     (case disk (dc_name dex) of
        None \<Rightarrow> True
      | Some c \<Rightarrow> 0 < ca_last_synced_block c \<and> ca_last_synced_block c < - 1 \<and>
          exact_cache abi dex (dex_chain abi chain dex) (first_block disc dex) c)"

definition complete_upto ::
    "('l, 'e) creation_abi \<Rightarrow> (address \<times> b256 \<Rightarrow> nat \<Rightarrow> 'l list) \<Rightarrow> discovery_config \<Rightarrow> u64 \<Rightarrow> dex_config
      \<Rightarrow> discovered_pool list \<Rightarrow> bool" where
  "complete_upto abi chain disc head dex ps \<longleftrightarrow>
     (\<exists>b. head \<le> b \<and> announced abi dex (dex_chain abi chain dex) (unat (first_block disc dex)) (Suc (unat b)) = Inr ps)"

lemma dex_ok_cong: "disk (dc_name d) = disk' (dc_name d) \<Longrightarrow> dex_ok abi chain disc disk d = dex_ok abi chain disc disk' d"
  by (simp add: dex_ok_def)

lemma scan_start_ok:
  assumes "dex_ok abi chain disc disk dex" "0 < first_block disc dex"
  defines "c \<equiv> load_cache disk (dc_name dex)"
  defines "start \<equiv> scan_start disc dex c"
  shows "start \<le> head \<Longrightarrow> first_block disc dex \<le> start \<and>
      announced abi dex (dex_chain abi chain dex) (unat (first_block disc dex)) (unat start) = Inr (ca_pools c)"
    and "\<not> start \<le> head \<Longrightarrow> complete_upto abi chain disc head dex (ca_pools c)"
proof -
  have both: "(start \<le> head \<longrightarrow> first_block disc dex \<le> start \<and>
      announced abi dex (dex_chain abi chain dex) (unat (first_block disc dex)) (unat start) = Inr (ca_pools c)) \<and>
    (\<not> start \<le> head \<longrightarrow> complete_upto abi chain disc head dex (ca_pools c))"
  proof (cases "disk (dc_name dex)")
    case None
    then have s: "start = first_block disc dex" "ca_pools c = []"
      by (simp_all add: start_def c_def load_cache_def scan_start_def first_block_def)
    moreover have "announced abi dex (dex_chain abi chain dex) (unat start) (Suc (unat head)) = Inr []" if "\<not> start \<le> head"
      using that by (simp add: announced_def word_le_nat_alt)
    ultimately show ?thesis unfolding complete_upto_def by (auto simp: announced_def)
  next
    case (Some cc)
    then have c: "c = cc" "start = ca_last_synced_block cc + 1" "ca_last_synced_block cc < - 1"
        "exact_cache abi dex (dex_chain abi chain dex) (first_block disc dex) cc"
      using assms(1) by (auto simp: start_def c_def load_cache_def scan_start_def dex_ok_def)
    then have "ca_last_synced_block cc + 1 \<noteq> 0" by (metis add_diff_cancel_right' diff_0 less_irrefl)
    then have u: "unat start = Suc (unat (ca_last_synced_block cc))" using c(2) unatSuc [of "ca_last_synced_block cc"] by (simp add: add.commute)
    show ?thesis using c u unfolding complete_upto_def exact_cache_def
      by (auto simp: word_le_nat_alt intro!: exI [of _ "ca_last_synced_block cc"])
  qed
  show "start \<le> head \<Longrightarrow> first_block disc dex \<le> start \<and>
      announced abi dex (dex_chain abi chain dex) (unat (first_block disc dex)) (unat start) = Inr (ca_pools c)"
    using both by blast
  show "\<not> start \<le> head \<Longrightarrow> complete_upto abi chain disc head dex (ca_pools c)" using both by blast
qed

lemma scan_factory_ok:
  assumes hon: "\<forall>f. honest (sc_provider env f) (chain f)" and chunk: "0 < getlogs_chunk disc" "unat head + unat (getlogs_chunk disc) < 2 ^ 64"
    and ok: "dex_ok (sc_abi env) chain disc disk dex" and first: "0 < first_block disc dex"
  defines "c \<equiv> load_cache disk (dc_name dex)"
  assumes start: "scan_start disc dex c \<le> head"
  shows "\<exists>r disk' w'. scan_factory_incremental env dex (scan_start disc dex c) head (getlogs_chunk disc) c disk w = Some (r, disk', w') \<and>
    (\<forall>n. n \<noteq> dc_name dex \<longrightarrow> disk' n = disk n) \<and> dex_ok (sc_abi env) chain disc disk' dex \<and>
    (\<forall>c'. r = Inr c' \<longrightarrow> complete_upto (sc_abi env) chain disc head dex (ca_pools c'))"
proof (cases "topic_kind (dc_kind dex)")
  case None
  then show ?thesis using ok by (simp add: scan_factory_incremental_def)
next
  case (Some ev)
  let ?ch = "dex_chain (sc_abi env) chain dex" and ?s = "scan_start disc dex c" and ?b = "first_block disc dex"
  have h: "honest (sc_provider env (dc_factory dex, ab_topic (sc_abi env) ev)) ?ch"
    using hon Some by (simp add: dex_chain_def)
  have st: "?b \<le> ?s" "announced (sc_abi env) dex ?ch (unat ?b) (unat ?s) = Inr (ca_pools c)"
    using scan_start_ok(1) [OF ok first, of head] start unfolding c_def by auto
  have le: "unat ?s \<le> unat head + 1" using start by (simp add: word_le_nat_alt)
  obtain r disk' w' where r: "scan_loop env dex (ab_topic (sc_abi env) ev) head (getlogs_chunk disc) ?s c disk w = Some (r, disk', w')"
    and post: "scan_post (sc_abi env) dex ?ch ?b ?s head disk r disk'"
    using scan_loop_post [OF h chunk st(1) le st(2)] by blast
  have nz: "0 < unat (getlogs_chunk disc)" using chunk(1) by (simp add: word_less_nat_alt)
  have up: "b < - 1" if "b \<le> head" for b
  proof -
    have "unat b \<le> unat head" using that by (simp add: word_le_nat_alt)
    then have "unat b < 2 ^ 64 - 1" using chunk(2) nz by linarith
    then show ?thesis by (simp add: word_less_nat_alt unsigned_minus_1_eq_mask mask_eq_exp_minus_1)
  qed
  have lo: "0 < b" if "?s \<le> b" for b using first st(1) that by (meson less_le_trans)
  have "dex_ok (sc_abi env) chain disc disk' dex"
  proof (cases "disk' (dc_name dex) = disk (dc_name dex)")
    case True
    then show ?thesis using ok by (simp add: dex_ok_def)
  next
    case False
    then obtain c' where "disk' (dc_name dex) = Some c'" "?s \<le> ca_last_synced_block c'" "ca_last_synced_block c' \<le> head"
      "exact_cache (sc_abi env) dex ?ch ?b c'" using post unfolding scan_post_def by blast
    then show ?thesis using up lo by (simp add: dex_ok_def)
  qed
  moreover have "complete_upto (sc_abi env) chain disc head dex (ca_pools c')" if "r = Inr c'" for c'
    using post that unfolding scan_post_def complete_upto_def by blast
  ultimately show ?thesis using r post Some unfolding scan_factory_incremental_def scan_post_def by auto
qed

lemma discover_dexes_ok:
  assumes hon: "\<forall>f. honest (sc_provider env f) (chain f)" and chunk: "0 < getlogs_chunk disc" "unat head + unat (getlogs_chunk disc) < 2 ^ 64"
  shows "distinct (map dc_name (done @ dexes)) \<Longrightarrow> list_all (\<lambda>d. 0 < first_block disc d) dexes \<Longrightarrow>
    list_all (dex_ok (sc_abi env) chain disc disk) (done @ dexes) \<Longrightarrow>
    \<exists>r disk' w'. discover_dexes env disc head dexes found disk w = Some (r, disk', w') \<and>
      list_all (dex_ok (sc_abi env) chain disc disk') (done @ dexes) \<and>
      (\<forall>fs. r = Inr fs \<longrightarrow> (\<exists>parts. fs = found @ concat parts \<and>
         list_all2 (complete_upto (sc_abi env) chain disc head) dexes parts))"
proof (induction dexes arbitrary: "done" found disk w)
  case (Cons dex dexes)
  let ?c = "load_cache disk (dc_name dex)"
  have ok: "dex_ok (sc_abi env) chain disc disk dex" and first: "0 < first_block disc dex" using Cons.prems by simp_all
  have nxt: "distinct (map dc_name ((done @ [dex]) @ dexes))" "list_all (\<lambda>d. 0 < first_block disc d) dexes"
    using Cons.prems by simp_all
  have go: "\<exists>r disk' w'. discover_dexes env disc head dexes (found @ ps) disk1 w1 = Some (r, disk', w') \<and>
      list_all (dex_ok (sc_abi env) chain disc disk') (done @ dex # dexes) \<and>
      (\<forall>fs. r = Inr fs \<longrightarrow> (\<exists>parts. fs = found @ concat parts \<and>
         list_all2 (complete_upto (sc_abi env) chain disc head) (dex # dexes) parts))"
    if all: "list_all (dex_ok (sc_abi env) chain disc disk1) ((done @ [dex]) @ dexes)"
      and cmp: "complete_upto (sc_abi env) chain disc head dex ps" for ps disk1 w1
  proof -
    obtain r disk' w' where r: "discover_dexes env disc head dexes (found @ ps) disk1 w1 = Some (r, disk', w')"
      "list_all (dex_ok (sc_abi env) chain disc disk') ((done @ [dex]) @ dexes)"
      "\<forall>fs. r = Inr fs \<longrightarrow> (\<exists>parts. fs = (found @ ps) @ concat parts \<and> list_all2 (complete_upto (sc_abi env) chain disc head) dexes parts)"
      using Cons.IH [OF nxt all] by blast
    have "\<exists>parts. fs = found @ concat parts \<and> list_all2 (complete_upto (sc_abi env) chain disc head) (dex # dexes) parts"
      if res: "r = Inr fs" for fs
    proof -
      obtain parts where "fs = (found @ ps) @ concat parts" "list_all2 (complete_upto (sc_abi env) chain disc head) dexes parts"
        using r(3) res by blast
      then show ?thesis using cmp by (intro exI [of _ "ps # parts"]) simp
    qed
    then show ?thesis using r(1,2) by simp
  qed
  show ?case
  proof (cases "scan_start disc dex ?c \<le> head")
    case False
    then show ?thesis using go [of disk "ca_pools ?c"] Cons.prems(3) scan_start_ok(2) [OF ok first False] by (simp add: Let_def)
  next
    case True
    obtain r disk1 w1 where r: "scan_factory_incremental env dex (scan_start disc dex ?c) head (getlogs_chunk disc) ?c disk w = Some (r, disk1, w1)"
      and fr: "\<forall>n. n \<noteq> dc_name dex \<longrightarrow> disk1 n = disk n" and ok1: "dex_ok (sc_abi env) chain disc disk1 dex"
      and cmp: "\<forall>c'. r = Inr c' \<longrightarrow> complete_upto (sc_abi env) chain disc head dex (ca_pools c')"
      using scan_factory_ok [OF hon chunk ok first True] by blast
    have all1: "list_all (dex_ok (sc_abi env) chain disc disk1) ((done @ [dex]) @ dexes)"
    proof -
      have "dex_ok (sc_abi env) chain disc disk1 d" if "d \<in> set (done @ dex # dexes)" for d
      proof (cases "d = dex")
        case False
        then have "dc_name d \<noteq> dc_name dex" using that Cons.prems(1) by auto (metis imageI)+
        then have "disk1 (dc_name d) = disk (dc_name d)" using fr by blast
        then have "dex_ok (sc_abi env) chain disc disk1 d = dex_ok (sc_abi env) chain disc disk d" by (rule dex_ok_cong)
        then show ?thesis using Cons.prems(3) that by (auto simp: list_all_iff)
      qed (simp add: ok1)
      then show ?thesis by (auto simp: list_all_iff)
    qed
    show ?thesis
    proof (cases r)
      case (Inl e)
      then show ?thesis using r True all1 by (simp add: Let_def)
    next
      case (Inr c')
      then show ?thesis using go [OF all1, of "ca_pools c'"] cmp r True by (simp add: Let_def)
    qed
  qed
qed simp

section \<open>Well-formed discoveries\<close>

text \<open>
  What the later stages assume of a discovered pool: a V4 entry, and no other, carries a pool id,
  whose synthetic address is its address, and the rest of its key.
\<close>

definition dp_ok :: "discovered_pool \<Rightarrow> bool" where
  "dp_ok p \<longleftrightarrow>
     (if is_v4 (dp_dex p) then
        (\<exists>pid. dp_pool_id p = Some pid \<and> dp_address p = synthetic_address pid) \<and> dp_fee_pips p \<noteq> None \<and>
        dp_tick_spacing p \<noteq> None \<and> dp_currency0_raw p \<noteq> None
      else dp_pool_id p = None)"

lemma v4_pool_from_key_ok: "v4_pool_from_key pm pid c0 c1 fee ts hooks = Some p \<Longrightarrow> dp_ok p \<and> is_v4 (dp_dex p)"
  by (auto simp: v4_pool_from_key_def dp_ok_def is_v4_def split: if_splits)

lemma decode_pool_log_ok: "decode_pool_log abi dex lg = Inr (Some p) \<Longrightarrow> dp_ok p"
  by (auto simp: decode_pool_log_def sbind_def plain_pool_def dp_ok_def is_v4_def dest: v4_pool_from_key_ok
      split: if_splits sum.splits prod.splits)

lemma push_pools_ok: "push_pools abi dex lgs acc = Inr ps \<Longrightarrow> list_all dp_ok acc \<Longrightarrow> list_all dp_ok ps"
  by (induction lgs arbitrary: acc) (auto dest!: decode_pool_log_ok split: sum.splits option.splits)

text \<open>Whatever the node answers, only well-formed pools are found and cached.\<close>

definition disk_ok :: "disk \<Rightarrow> bool" where
  "disk_ok disk \<longleftrightarrow> (\<forall>name. list_all dp_ok (cached_pools disk name))"

lemma disk_ok_update: "disk_ok disk \<Longrightarrow> list_all dp_ok (ca_pools cache) \<Longrightarrow> disk_ok (disk(name \<mapsto> cache))"
  by (simp add: disk_ok_def cached_pools_def load_cache_def)

lemma scan_loop_ok:
  assumes "scan_loop env dex topic to_b chunk start cache disk w = Some (r, disk', w')" "disk_ok disk" "list_all dp_ok (ca_pools cache)"
  shows "disk_ok disk' \<and> (\<forall>c. r = Inr c \<longrightarrow> list_all dp_ok (ca_pools c))"
proof -
  have "disk_ok disk \<longrightarrow> list_all dp_ok (ca_pools cache) \<longrightarrow>
      (case (r, disk', w') of (r, disk', w') \<Rightarrow> disk_ok disk' \<and> (\<forall>c. r = Inr c \<longrightarrow> list_all dp_ok (ca_pools c)))"
  proof (rule scan_loop.raw_induct [OF _ assms(1)], goal_cases)
    case (1 scan env dex topic to_b chunk start cache disk w out)
    let ?upto = "min (start + chunk - 1) to_b" and ?next = "\<lambda>pools. \<lparr>ca_last_synced_block = min (start + chunk - 1) to_b, ca_pools = pools\<rparr>"
    consider (stop) "out = (Inr cache, disk, w)" | (fail) e w1 where "out = (Inl e, disk, w1)"
      | (saved) lgs pools w1 where "push_pools (sc_abi env) dex lgs (ca_pools cache) = Inr pools"
          "scan env dex topic to_b chunk (?upto + 1) (?next pools) (disk(dc_name dex \<mapsto> ?next pools)) w1 = Some out"
      | (unsaved) lgs pools w1 where "push_pools (sc_abi env) dex lgs (ca_pools cache) = Inr pools"
          "scan env dex topic to_b chunk (?upto + 1) (?next pools) disk w1 = Some out"
      using 1(2) by (auto simp: Let_def save_cache_def split: if_splits prod.splits sum.splits)
    then show ?case
    proof cases
      case saved
      then show ?thesis
        using 1(1) [OF saved(2)] disk_ok_update [of disk "?next pools" "dc_name dex"] push_pools_ok [OF saved(1)]
        by (auto simp del: fun_upd_apply)
    next
      case unsaved
      then show ?thesis using 1(1) [OF unsaved(2)] push_pools_ok [OF unsaved(1)] by simp
    qed simp_all
  qed
  then show ?thesis using assms by auto
qed

lemma discover_dexes_wf:
  assumes "discover_dexes env disc head dexes found disk w = Some (r, disk', w')" "disk_ok disk" "list_all dp_ok found"
  shows "disk_ok disk' \<and> (\<forall>ps. r = Inr ps \<longrightarrow> list_all dp_ok ps)"
  using assms
proof (induction dexes arbitrary: found disk w)
  case (Cons dex dexes)
  let ?c = "load_cache disk (dc_name dex)"
  have c: "list_all dp_ok (ca_pools ?c)" using Cons.prems(2) by (simp add: disk_ok_def cached_pools_def)
  consider (skip) "discover_dexes env disc head dexes (found @ ca_pools ?c) disk w = Some (r, disk', w')"
    | (scan) r1 disk1 w1 where "scan_factory_incremental env dex (scan_start disc dex ?c) head (getlogs_chunk disc) ?c disk w = Some (r1, disk1, w1)"
        "case r1 of Inl e \<Rightarrow> r = Inl e \<and> disk' = disk1
         | Inr c1 \<Rightarrow> discover_dexes env disc head dexes (found @ ca_pools c1) disk1 w1 = Some (r, disk', w')"
    using Cons.prems(1) by (auto simp: Let_def split: if_splits option.splits sum.splits)
  then show ?case
  proof cases
    case skip
    from Cons.IH [OF this Cons.prems(2)] Cons.prems(3) c show ?thesis by simp
  next
    case scan
    have "disk_ok disk1 \<and> (\<forall>c. r1 = Inr c \<longrightarrow> list_all dp_ok (ca_pools c))"
      using scan(1) Cons.prems(2)
      by (auto simp: scan_factory_incremental_def split: option.splits dest: scan_loop_ok [OF _ Cons.prems(2) c])
    then show ?thesis using scan(2) Cons.IH [of "found @ ca_pools (projr r1)" disk1 w1] Cons.prems(3) by (cases r1) auto
  qed
qed auto

lemma discover_all_ok:
  assumes "discover_all env block_number cfg disk w = Some (r, disk', w')" "disk_ok disk"
  shows "disk_ok disk' \<and> (\<forall>ps. r = Inr ps \<longrightarrow> list_all dp_ok ps)"
proof (cases "block_number w")
  case (Pair h w1)
  show ?thesis
  proof (cases h)
    case (Inr head)
    then have "discover_dexes env (cf_discovery cfg) head (cf_dexes cfg) [] disk w1 = Some (r, disk', w')"
      using assms(1) Pair by (simp add: discover_all_def)
    from discover_dexes_wf [OF this assms(2)] show ?thesis by simp
  qed (use assms Pair in \<open>auto simp: discover_all_def\<close>)
qed

section \<open>Properties\<close>

text \<open>C25. Over an honest node, discovery returns and its result is exact: for every protocol the pools found are
  those its factory announced in all blocks from its first block up to at least the head, each once and in
  order, whatever earlier run left in the cache; and whether it succeeds or fails half-way, every
  cache file it leaves is an exact checkpoint, so that a later run can resume from it.\<close>
theorem discovery_exact:
  assumes "\<forall>f. honest (sc_provider env f) (chain f)" "fst (block_number w) = Inr head"
    and "0 < getlogs_chunk (cf_discovery cfg)" "unat head + unat (getlogs_chunk (cf_discovery cfg)) < 2 ^ 64"
    and "distinct (map dc_name (cf_dexes cfg))" "list_all (\<lambda>d. 0 < first_block (cf_discovery cfg) d) (cf_dexes cfg)"
    and "list_all (dex_ok (sc_abi env) chain (cf_discovery cfg) disk) (cf_dexes cfg)"
  shows "\<exists>r disk' w'. discover_all env block_number cfg disk w = Some (r, disk', w') \<and>
    list_all (dex_ok (sc_abi env) chain (cf_discovery cfg) disk') (cf_dexes cfg) \<and>
    (\<forall>found. r = Inr found \<longrightarrow> (\<exists>parts. found = concat parts \<and>
       list_all2 (complete_upto (sc_abi env) chain (cf_discovery cfg) head) (cf_dexes cfg) parts))"
  using discover_dexes_ok [OF assms(1,3,4), of "[]" "cf_dexes cfg" disk "[]" "snd (block_number w)"] assms(2,5-7)
  by (cases "block_number w") (simp add: discover_all_def)

definition sample_abi :: "(nat, unit) creation_abi" where
  "sample_abi =
     \<lparr>ab_topic = (\<lambda>ev. if ev = PairCreated then 1 else 2), ab_pair = (\<lambda>n. if n = 99 then Inl () else Inr (of_nat n, 5, 6)),
      ab_aero = (\<lambda>_. Inl ()), ab_v3 = (\<lambda>_. Inl ()), ab_slipstream = (\<lambda>_. Inl ()), ab_v4 = (\<lambda>_. Inl ())\<rparr>"

definition sample_scan :: "(nat, nat, unit) scan_env" where
  "sample_scan =
     \<lparr>sc_provider = (\<lambda>f q w. (Inr (range_logs (\<lambda>b. [b]) (fst q) (snd q)), w + 1)), sc_abi = sample_abi,
      sc_due = (\<lambda>_. True), sc_writes = (\<lambda>_. True)\<rparr>"

definition sample_dex :: dex_config where
  "sample_dex =
     \<lparr>dc_name = ''uni'', dc_kind = ''v2'', dc_factory = 9, dc_fee_bps = Some 30, dc_deploy_block = Some 3, dc_dynamic_fee = False\<rparr>"

definition sample_config :: config where
  "sample_config =
     \<lparr>cf_rpc = \<lparr>rpc_http = [], rpc_ws = [], rpc_archive = None, rpc_sequencer = default_sequencer, rpc_send_rpc = default_send_rpc\<rparr>,
      cf_wallet = \<lparr>executor_contract = None, key_env = []\<rparr>, cf_discovery = default_discovery_config, cf_filter = default_filter_config,
      cf_routing = default_routing_config, cf_gas = default_gas_config, cf_execution = default_execution_config,
      cf_dexes = [sample_dex], cf_anchors = []\<rparr>"

lemma sample_bisect:
  "get_logs_bisect (sc_provider sample_scan f) a b w = (Inr (range_logs (\<lambda>b. [b]) a b), w + 1)"
  by (simp add: get_logs_bisect.simps [of _ a b] retry_get_logs_def sample_scan_def numeral_3_eq_3)

lemma sample_run:
  "\<exists>disk' w'. discover_all sample_scan (\<lambda>w. (Inr 5, w)) sample_config Map.empty 0 =
     Some (Inr (map (\<lambda>n. plain_pool sample_dex UniV2Fork (of_nat n) 5 6 None None (Some 30)) [3, 4, 5]), disk', w')"
proof -
  let ?ps = "map (\<lambda>n. plain_pool sample_dex UniV2Fork (of_nat n) 5 6 None None (Some 30)) [3, 4, 5]"
  have l: "range_logs (\<lambda>b. [b]) 3 5 = [3, 4, 5]" by code_simp
  have e: "sc_due sample_scan b" "sc_writes sample_scan b" "sc_abi sample_scan = sample_abi" for b by (simp_all add: sample_scan_def)
  have p: "push_pools sample_abi sample_dex [3, 4, 5] [] = Inr ?ps"
    by (simp add: decode_pool_log_def sample_dex_def sample_abi_def sbind_def)
  have c: "scan_start default_discovery_config sample_dex (load_cache Map.empty (dc_name sample_dex)) = 3"
    "topic_kind (dc_kind sample_dex) = Some PairCreated" "ca_pools (load_cache Map.empty n) = []"
    "getlogs_chunk default_discovery_config = 10000" for n
    by (simp_all add: scan_start_def load_cache_def sample_dex_def topic_kind_def default_discovery_config_def)
  have "scan_loop sample_scan sample_dex t 5 10000 3 (load_cache Map.empty n) Map.empty 0 =
      Some (Inr \<lparr>ca_last_synced_block = 5, ca_pools = ?ps\<rparr>,
        [dc_name sample_dex \<mapsto> \<lparr>ca_last_synced_block = 5, ca_pools = ?ps\<rparr>], 1)" for t n
    by (subst scan_loop.simps, subst scan_loop.simps) (simp add: sample_bisect l e p c save_cache_def min_def Let_def del: push_pools.simps)
  then show ?thesis
    by (simp add: discover_all_def sample_config_def Let_def c scan_factory_incremental_def)
qed

theorem discovery_exact_witness:
  "\<exists>parts disk' w'. discover_all sample_scan (\<lambda>w. (Inr 5, w)) sample_config Map.empty 0 = Some (Inr (concat parts), disk', w') \<and>
    list_all2 (complete_upto sample_abi (\<lambda>_ b. [b]) default_discovery_config 5) [sample_dex] parts \<and>
    map dp_address (concat parts) = [3, 4, 5]"
proof -
  have hon: "\<forall>f. honest (sc_provider sample_scan f) ((\<lambda>_ b. [b]) f)"
    by (simp add: honest_def sample_scan_def)
  have cfg: "cf_dexes sample_config = [sample_dex]" "cf_discovery sample_config = default_discovery_config"
    "getlogs_chunk default_discovery_config = 10000" "first_block default_discovery_config sample_dex = 3"
    "sc_abi sample_scan = sample_abi"
    by (simp_all add: sample_config_def default_discovery_config_def first_block_def sample_dex_def sample_scan_def)
  obtain ps disk' w' where r: "discover_all sample_scan (\<lambda>w. (Inr 5, w)) sample_config Map.empty 0 = Some (Inr ps, disk', w')"
    "map dp_address ps = [3, 4, 5]" using sample_run by (auto simp: plain_pool_def)
  have "\<exists>parts. ps = concat parts \<and>
      list_all2 (complete_upto (sc_abi sample_scan) (\<lambda>_ b. [b]) (cf_discovery sample_config) 5) (cf_dexes sample_config) parts"
    using discovery_exact [OF hon, of "\<lambda>w. (Inr 5, w)" 0 5 sample_config Map.empty] r(1)
    by (simp add: cfg dex_ok_def)
  then obtain parts where "ps = concat parts"
    "list_all2 (complete_upto sample_abi (\<lambda>_ b. [b]) default_discovery_config 5) [sample_dex] parts"
    unfolding cfg by blast
  then show ?thesis using r by (intro exI [of _ parts] exI [of _ disk'] exI [of _ w']) simp
qed

text \<open>
  A chunk size of zero, which nothing rejects when the configuration is read, makes the scan ask for the
  empty range before its start over and over: over a node that answers, it never returns.
\<close>

lemma zero_chunk_never_returns:
  assumes quiet: "\<And>f q w. sc_provider env f q w = (Inr [], w)" "\<And>b. sc_writes env b" and start: "0 < start" "start \<le> to_b"
  shows "scan_loop env dex topic to_b 0 start cache disk w = None"
proof -
  have end_b: "min (start + 0 - 1) to_b = start - 1"
  proof -
    have "unat (start - 1) \<le> unat to_b" using start by (simp add: unat_minus_one word_le_nat_alt unat_gt_0 word_gt_0)
    then show ?thesis by (simp add: min_def word_le_nat_alt)
  qed
  have get: "get_logs_bisect (sc_provider env f) a b w = (Inr [], w)" for f a b w
    by (simp add: get_logs_bisect.simps [of _ a b] retry_get_logs_def quiet numeral_3_eq_3)
  have False if ret: "scan_loop env dex topic to_b 0 start cache disk w = Some r" for r
  proof -
    have "env = env \<and> to_b = to_b \<and> (0 :: u64) = 0 \<and> start = start \<longrightarrow> False"
    proof (rule scan_loop.raw_induct [where P = "\<lambda>env' dex' topic' to' chunk' start' cache' disk' w' r.
        env' = env \<and> to' = to_b \<and> chunk' = 0 \<and> start' = start \<longrightarrow> False", OF _ ret])
      fix f env' dex' topic' to' chunk' start' cache' disk' w' r
      assume IH: "\<And>env' dex' topic' to' chunk' start' cache' disk' w' r. f env' dex' topic' to' chunk' start' cache' disk' w' = Some r \<Longrightarrow>
          env' = env \<and> to' = to_b \<and> chunk' = 0 \<and> start' = start \<longrightarrow> False"
        and eq: "(if to' < start' then Some (Inr cache', disk', w')
          else let end_b = min (start' + chunk' - 1) to'
               in case get_logs_bisect (sc_provider env' (dc_factory dex', topic')) start' end_b w' of
                    (Inl e, w1) \<Rightarrow> Some (Inl (Rpc e), disk', w1)
                  | (Inr lgs, w1) \<Rightarrow>
                      (case push_pools (sc_abi env') dex' lgs (ca_pools cache') of
                         Inl e \<Rightarrow> Some (Inl (BadLog e), disk', w1)
                       | Inr pools \<Rightarrow>
                           let cache1 = \<lparr>ca_last_synced_block = end_b, ca_pools = pools\<rparr>
                           in if sc_due env' end_b \<or> end_b = to' then
                                (case save_cache (sc_writes env' end_b) (dc_name dex') cache1 disk' of
                                   Inl e \<Rightarrow> Some (Inl e, disk', w1)
                                 | Inr disk1 \<Rightarrow> f env' dex' topic' to' chunk' (end_b + 1) cache1 disk1 w1)
                              else f env' dex' topic' to' chunk' (end_b + 1) cache1 disk' w1)) = Some r"
      have False if same: "env' = env" "to' = to_b" "chunk' = 0" "start' = start"
      proof -
        have "\<exists>c d. f env dex' topic' to_b 0 start c d w' = Some r"
          using eq start(2) unfolding same Let_def end_b get
          by (auto simp: save_cache_def quiet(2) not_less [symmetric] split: if_splits)
        then show False using IH by blast
      qed
      then show "env' = env \<and> to' = to_b \<and> chunk' = 0 \<and> start' = start \<longrightarrow> False" by blast
    qed
    then show False by simp
  qed
  then show ?thesis by (metis option.exhaust)
qed

end
