(* ===== verification/Fee_Probe.thy ===== *)
theory Fee_Probe
  imports Discovery "HOL-Library.AList"
begin

text \<open>
  Detection of tokens that short their transfers, \<^verbatim>\<open>src/ingest/fee_probe.rs\<close>: up to three real
  holders per non-anchor token are probed with a simulated two-hop transfer, verdicts are cached per
  token, and the positives are blacklisted.  The simulated call, the order in which the hash map is
  walked and the probes complete, and the text form of an address are parameters.
\<close>

section \<open>Constants\<close>

definition RELAY :: address where
  "RELAY = 0x00000000000000000000000000000000EE1A4001"

definition DUMMY_RECIPIENT :: address where
  "DUMMY_RECIPIENT = 0x00000000000000000000000000000000C0FFEE01"

definition MAX_HOLDERS_PER_TOKEN :: nat where
  "MAX_HOLDERS_PER_TOKEN = 3"

definition TOLERANCE_BPS :: u64 where
  "TOLERANCE_BPS = 1"

section \<open>One probe\<close>

text \<open>
  The simulated call, with the probe's code put at the holder and at the relay: what the recipient
  received when the holder sent the amount of the token by way of the relay, or nothing when the
  call failed.
\<close>

record fee_env =
  fp_call :: "address \<Rightarrow> address \<Rightarrow> address \<Rightarrow> address \<Rightarrow> u256 \<Rightarrow> u256 option"  \<comment> \<open>holder, token, relay, recipient\<close>
  fp_order :: "(address \<times> address list) list \<Rightarrow> (address \<times> address list) list"
  fp_show :: "address \<Rightarrow> string"
  fp_parse :: "string \<Rightarrow> address option"

definition probe_amount :: "u8 \<Rightarrow> u256" where
  "probe_amount decimals = max (10 ^ unat (min decimals 18) div 1000) 1"

definition min_received :: "u256 \<Rightarrow> u256" where
  "min_received amount = amount - amount * ucast TOLERANCE_BPS div 10000"

definition probe_one :: "fee_env \<Rightarrow> address \<Rightarrow> address \<Rightarrow> u8 \<Rightarrow> bool option" where
  "probe_one env token holder decimals =
     (let amount = probe_amount decimals
      in case fp_call env holder token RELAY DUMMY_RECIPIENT amount of
           None \<Rightarrow> None
         | Some received \<Rightarrow> Some (received < min_received amount))"

fun probe_loop :: "fee_env \<Rightarrow> address \<Rightarrow> address list \<Rightarrow> u8 \<Rightarrow> bool \<Rightarrow> bool option" where
  "probe_loop env token [] decimals any_conclusive = (if any_conclusive then Some False else None)"
| "probe_loop env token (holder # holders) decimals any_conclusive =
     (case probe_one env token holder decimals of
        Some True \<Rightarrow> Some True
      | Some False \<Rightarrow> probe_loop env token holders decimals True
      | None \<Rightarrow> probe_loop env token holders decimals any_conclusive)"

definition probe_token :: "fee_env \<Rightarrow> address \<Rightarrow> address list \<Rightarrow> u8 \<Rightarrow> bool option" where
  "probe_token env token pool_holders decimals = probe_loop env token pool_holders decimals False"

section \<open>Holders\<close>

definition push_holder :: "address \<Rightarrow> address list \<Rightarrow> address list" where
  "push_holder candidate hs =
     (if candidate \<notin> set hs \<and> length hs < MAX_HOLDERS_PER_TOKEN then hs @ [candidate] else hs)"

text \<open>The map entry of a token, created empty when it is missing.\<close>

fun touch_holder :: "address \<Rightarrow> address \<Rightarrow> (address \<times> address list) list \<Rightarrow> (address \<times> address list) list" where
  "touch_holder t candidate [] = [(t, push_holder candidate [])]"
| "touch_holder t candidate ((t', hs) # rest) =
     (if t' = t then (t', push_holder candidate hs) # rest else (t', hs) # touch_holder t candidate rest)"

definition candidate_holder :: "discovered_pool \<Rightarrow> address" where
  "candidate_holder p = (if is_v4 (dp_dex p) then UNIV4_POOL_MANAGER else dp_address p)"

definition touches :: "address set \<Rightarrow> discovered_pool list \<Rightarrow> (address \<times> address) list" where
  "touches anchor_set discovered =
     filter (\<lambda>(t, _). t \<notin> anchor_set)
       (concat (map (\<lambda>p. [(dp_token0 p, candidate_holder p), (dp_token1 p, candidate_holder p)]) discovered))"

definition holders_of :: "address set \<Rightarrow> discovered_pool list \<Rightarrow> (address \<times> address list) list" where
  "holders_of anchor_set discovered = foldl (\<lambda>m (t, c). touch_holder t c m) [] (touches anchor_set discovered)"

section \<open>Detection\<close>

type_synonym fee_cache = "(string \<times> bool) list"

definition record_verdict ::
    "fee_env \<Rightarrow> (address \<rightharpoonup> u8) \<Rightarrow> fee_cache \<Rightarrow> address \<times> address list \<Rightarrow> fee_cache" where
  "record_verdict env decimals cache th =
     (case th of (token, hs) \<Rightarrow>
        case probe_token env token hs (case decimals token of Some d \<Rightarrow> d | None \<Rightarrow> 18) of
          Some is_fee \<Rightarrow> AList.update (fp_show env token) is_fee cache
        | None \<Rightarrow> cache)"

definition probed_cache ::
    "fee_env \<Rightarrow> discovered_pool list \<Rightarrow> (address \<rightharpoonup> u8) \<Rightarrow> anchor_config list \<Rightarrow> fee_cache \<Rightarrow> fee_cache" where
  "probed_cache env discovered decimals anchors cache =
     (let anchor_set = an_token ` set anchors;
          to_probe = filter (\<lambda>(t, _). map_of cache (fp_show env t) = None) (fp_order env (holders_of anchor_set discovered))
      in foldl (record_verdict env decimals) cache to_probe)"

text \<open>The file is rewritten with the new cache if the write succeeds; the result does not depend on it.\<close>

definition detect ::
    "fee_env \<Rightarrow> discovered_pool list \<Rightarrow> (address \<rightharpoonup> u8) \<Rightarrow> anchor_config list \<Rightarrow> bool \<Rightarrow> fee_cache option
      \<Rightarrow> address list \<times> fee_cache option" where
  "detect env discovered decimals anchors written file =
     (let cache = probed_cache env discovered decimals anchors (case file of Some c \<Rightarrow> c | None \<Rightarrow> [])
      in (List.map_filter (\<lambda>(t, _). fp_parse env t) (filter (\<lambda>(_, bad). bad) cache), if written then Some cache else file))"

section \<open>Verdicts\<close>

text \<open>The worst holder decides: one shortfall is enough, and no verdict is given without a conclusive probe.\<close>

lemma probe_loop_True: "probe_loop env token hs d c = Some True \<longleftrightarrow> (\<exists>h \<in> set hs. probe_one env token h d = Some True)"
  by (induction hs arbitrary: c) (auto split: option.split bool.split)

lemma probe_loop_None: "probe_loop env token hs d c = None \<longleftrightarrow> \<not> c \<and> (\<forall>h \<in> set hs. probe_one env token h d = None)"
  by (induction hs arbitrary: c) (auto split: option.split bool.split simp del: not_None_eq)

lemma touch_holder_lookup:
  "map_of (touch_holder t c m) t' =
     (if t' = t then Some (push_holder c (case map_of m t of None \<Rightarrow> [] | Some hs \<Rightarrow> hs)) else map_of m t')"
  by (induction t c m rule: touch_holder.induct) auto

lemma touch_holder_keys: "fst ` set (touch_holder t c m) = insert t (fst ` set m)"
  by (induction t c m rule: touch_holder.induct) auto

lemma touch_holder_distinct: "distinct (map fst m) \<Longrightarrow> distinct (map fst (touch_holder t c m))"
  by (induction t c m rule: touch_holder.induct) (auto simp: touch_holder_keys)

lemma holders_of_distinct: "distinct (map fst (holders_of A ds))"
proof -
  have "distinct (map fst m) \<Longrightarrow> distinct (map fst (foldl (\<lambda>m (t, c). touch_holder t c m) m ts))" for m ts
    by (induction ts arbitrary: m) (auto simp: touch_holder_distinct)
  then show ?thesis by (simp add: holders_of_def)
qed

lemma holders_lookup:
  "map_of (holders_of A ds) t =
     (let cs = map snd (filter (\<lambda>x. fst x = t) (touches A ds))
      in if cs = [] then None else Some (foldl (\<lambda>hs c. push_holder c hs) [] cs))"
proof -
  have "map_of (foldl (\<lambda>m (t, c). touch_holder t c m) m ts) t =
     (let cs = map snd (filter (\<lambda>x. fst x = t) ts)
      in if cs = [] then map_of m t
         else Some (foldl (\<lambda>hs c. push_holder c hs) (case map_of m t of None \<Rightarrow> [] | Some hs \<Rightarrow> hs) cs))" for m ts
    by (induction ts arbitrary: m) (auto simp: touch_holder_lookup Let_def)
  from this [of "[]" "touches A ds"] show ?thesis by (simp add: holders_of_def Let_def)
qed

lemma push_holders_spec:
  assumes "distinct hs" "length hs \<le> MAX_HOLDERS_PER_TOKEN"
  shows "distinct (foldl (\<lambda>hs c. push_holder c hs) hs cs) \<and>
    length (foldl (\<lambda>hs c. push_holder c hs) hs cs) \<le> MAX_HOLDERS_PER_TOKEN \<and>
    set hs \<subseteq> set (foldl (\<lambda>hs c. push_holder c hs) hs cs) \<and>
    set (foldl (\<lambda>hs c. push_holder c hs) hs cs) \<subseteq> set hs \<union> set cs \<and>
    (length (foldl (\<lambda>hs c. push_holder c hs) hs cs) < MAX_HOLDERS_PER_TOKEN \<longrightarrow>
       set cs \<subseteq> set (foldl (\<lambda>hs c. push_holder c hs) hs cs))"
  using assms
proof (induction cs arbitrary: hs)
  case (Cons c cs)
  let ?h = "push_holder c hs" and ?out = "foldl (\<lambda>hs c. push_holder c hs) (push_holder c hs) cs"
  have h: "distinct ?h" "length ?h \<le> MAX_HOLDERS_PER_TOKEN" "set hs \<subseteq> set ?h" "set ?h \<subseteq> insert c (set hs)"
    "c \<in> set ?h \<or> length ?h = MAX_HOLDERS_PER_TOKEN"
    using Cons.prems by (auto simp: push_holder_def)
  note ih = Cons.IH [OF h(1,2)]
  have le: "length ?h \<le> length ?out"
    using ih h(1) by (metis card_mono distinct_card List.finite_set)
  have "c \<in> set ?out" if "length ?out < MAX_HOLDERS_PER_TOKEN" using ih h(5) le that by auto
  then show ?case using ih h(3,4) by auto
qed simp

text \<open>Up to three distinct holders of a token, all of them when there are fewer than three.\<close>

lemma holders_spec:
  assumes "map_of (holders_of A ds) t = Some hs"
  shows "distinct hs \<and> length hs \<le> MAX_HOLDERS_PER_TOKEN \<and> set hs \<subseteq> {c. (t, c) \<in> set (touches A ds)} \<and>
    (length hs < MAX_HOLDERS_PER_TOKEN \<longrightarrow> set hs = {c. (t, c) \<in> set (touches A ds)})"
proof -
  let ?cs = "map snd (filter (\<lambda>x. fst x = t) (touches A ds))"
  have "hs = foldl (\<lambda>hs c. push_holder c hs) [] ?cs" using assms by (simp add: holders_lookup Let_def split: if_splits)
  moreover have "set ?cs = {c. (t, c) \<in> set (touches A ds)}" by force
  ultimately show ?thesis using push_holders_spec [of "[]" ?cs] by (auto simp: MAX_HOLDERS_PER_TOKEN_def)
qed

section \<open>The cache\<close>

definition verdict :: "fee_env \<Rightarrow> (address \<rightharpoonup> u8) \<Rightarrow> address \<times> address list \<Rightarrow> bool option" where
  "verdict env decimals th =
     probe_token env (fst th) (snd th) (case decimals (fst th) of Some d \<Rightarrow> d | None \<Rightarrow> 18)"

lemma record_verdict_alt:
  "record_verdict env decimals cache th =
     (case verdict env decimals th of Some b \<Rightarrow> AList.update (fp_show env (fst th)) b cache | None \<Rightarrow> cache)"
  by (simp add: record_verdict_def verdict_def split: prod.split option.split)

lemma record_fold:
  assumes "inj (fp_show env)"
  shows "distinct (map fst xs) \<Longrightarrow> distinct (map fst cache) \<Longrightarrow>
    distinct (map fst (foldl (record_verdict env decimals) cache xs)) \<and>
    fst ` set (foldl (record_verdict env decimals) cache xs) \<subseteq> fst ` set cache \<union> range (fp_show env) \<and>
    map_of (foldl (record_verdict env decimals) cache xs) (fp_show env t) =
      (case map_of xs t of
         Some hs \<Rightarrow> (case verdict env decimals (t, hs) of Some b \<Rightarrow> Some b | None \<Rightarrow> map_of cache (fp_show env t))
       | None \<Rightarrow> map_of cache (fp_show env t))"
proof (induction xs arbitrary: cache)
  case (Cons x xs)
  let ?c = "record_verdict env decimals cache x"
  have c: "distinct (map fst ?c)" "fst ` set ?c \<subseteq> fst ` set cache \<union> range (fp_show env)"
    using Cons.prems(2) by (auto simp: record_verdict_alt distinct_update dom_map_of_conv_image_fst [symmetric] update_conv'
        split: option.split if_splits)
  have look: "map_of ?c (fp_show env t) =
      (if t = fst x then (case verdict env decimals x of Some b \<Rightarrow> Some b | None \<Rightarrow> map_of cache (fp_show env t))
       else map_of cache (fp_show env t))"
    using assms by (auto simp: record_verdict_alt update_conv' inj_eq split: option.split)
  have n: "map_of xs t = None" if "t = fst x" using Cons.prems(1) that by (simp add: map_of_eq_None_iff)
  have d: "distinct (map fst xs)" using Cons.prems(1) by simp
  note ih = Cons.IH [OF d c(1)]
  have "fst ` set (foldl (record_verdict env decimals) ?c xs) \<subseteq> fst ` set cache \<union> range (fp_show env)"
    using ih c(2) by blast
  moreover have "map_of (foldl (record_verdict env decimals) ?c xs) (fp_show env t) =
      (case map_of (x # xs) t of
         Some hs \<Rightarrow> (case verdict env decimals (t, hs) of Some b \<Rightarrow> Some b | None \<Rightarrow> map_of cache (fp_show env t))
       | None \<Rightarrow> map_of cache (fp_show env t))"
  proof (cases "t = fst x")
    case True
    then have "map_of (x # xs) t = Some (snd x)" by (cases x) simp
    then show ?thesis using ih look n [OF True] True by (cases x) (simp split: option.splits)
  next
    case False
    then have "map_of (x # xs) t = map_of xs t" by (cases x) simp
    then show ?thesis using ih look False by (simp split: option.splits)
  qed
  ultimately show ?case using ih by simp
qed (auto split: option.split)

lemma parsed_positives:
  assumes "\<forall>a. fp_parse env (fp_show env a) = Some a" "fst ` set cache \<subseteq> range (fp_show env)"
  shows "t \<in> set (List.map_filter (\<lambda>(t, _). fp_parse env t) (filter (\<lambda>(_, bad). bad) cache)) \<longleftrightarrow> (fp_show env t, True) \<in> set cache"
proof -
  have "k = fp_show env t" if k: "(k, True) \<in> set cache" "fp_parse env k = Some t" for k
  proof -
    have "k \<in> fst ` set cache" using k(1) by force
    then obtain a where "k = fp_show env a" using assms(2) by blast
    then show ?thesis using k(2) assms(1) by simp
  qed
  moreover have "t \<in> set (List.map_filter (\<lambda>(t, _). fp_parse env t) (filter (\<lambda>(_, bad). bad) cache)) \<longleftrightarrow>
      (\<exists>k. (k, True) \<in> set cache \<and> fp_parse env k = Some t)"
    by (force simp: map_filter_def)
  ultimately show ?thesis using assms(1) by metis
qed

section \<open>Properties\<close>

text \<open>C26. Detection blacklists exactly the tokens it should: a token is returned if an earlier run found it short, or
  if no earlier run reached a verdict on it, it is not an anchor, and some holder probed for it reveals a
  shortfall.  The order in which the probes complete does not matter.\<close>
theorem detect_exact:
  assumes "\<forall>a. fp_parse env (fp_show env a) = Some a" "\<forall>xs. mset (fp_order env xs) = mset xs"
    and "distinct (map fst c)" "fst ` set c \<subseteq> range (fp_show env)"
  shows "t \<in> set (fst (detect env discovered decimals anchors written (Some c))) \<longleftrightarrow>
    map_of c (fp_show env t) = Some True \<or>
    map_of c (fp_show env t) = None \<and> t \<notin> an_token ` set anchors \<and>
      (\<exists>hs. map_of (holders_of (an_token ` set anchors) discovered) t = Some hs \<and>
        (\<exists>h \<in> set hs. probe_one env t h (case decimals t of Some d \<Rightarrow> d | None \<Rightarrow> 18) = Some True))"
proof -
  let ?H = "holders_of (an_token ` set anchors) discovered"
  let ?xs = "filter (\<lambda>(t, _). map_of c (fp_show env t) = None) (fp_order env ?H)"
  let ?c = "foldl (record_verdict env decimals) c ?xs"
  have inj: "inj (fp_show env)" using assms(1) by (metis injI option.inject)
  have ms: "mset (fp_order env ?H) = mset ?H" using assms(2) by blast
  then have "mset (map fst (fp_order env ?H)) = mset (map fst ?H)" by simp
  then have "distinct (map fst (fp_order env ?H))"
    using holders_of_distinct [of "an_token ` set anchors" discovered] mset_eq_imp_distinct_iff by blast
  moreover have "set (fp_order env ?H) = set ?H" by (rule mset_eq_setD [OF ms])
  ultimately have ord: "distinct (map fst (fp_order env ?H))" "set (fp_order env ?H) = set ?H" by simp_all
  then have look: "map_of (fp_order env ?H) t = map_of ?H t"
    using holders_of_distinct [of "an_token ` set anchors" discovered] map_of_inject_set [of "fp_order env ?H" ?H] by simp
  have dxs: "distinct (map fst ?xs)" using ord(1) by (simp add: distinct_map_filter)
  have "map_of ?xs t = (if map_of c (fp_show env t) = None then map_of ?H t else None)"
  proof -
    have "map_of (filter (\<lambda>(t, _). P t) ys) t = (if P t then map_of ys t else None)" for P and ys :: "(address \<times> address list) list"
      by (induction ys) auto
    then show ?thesis using look by simp
  qed
  then have cache: "map_of ?c (fp_show env t) = Some True \<longleftrightarrow>
      map_of c (fp_show env t) = Some True \<or>
      map_of c (fp_show env t) = None \<and> (\<exists>hs. map_of ?H t = Some hs \<and> verdict env decimals (t, hs) = Some True)"
    using record_fold [OF inj dxs assms(3), of decimals t] by (auto split: option.splits)
  have "distinct (map fst ?c)" "fst ` set ?c \<subseteq> fst ` set c \<union> range (fp_show env)"
    using record_fold [OF inj dxs assms(3), of decimals t] by simp_all
  then have dc: "distinct (map fst ?c)" "fst ` set ?c \<subseteq> range (fp_show env)"
    using assms(4) by (simp_all add: subset_trans)
  have "t \<in> set (List.map_filter (\<lambda>(t, _). fp_parse env t) (filter (\<lambda>(_, bad). bad) ?c)) \<longleftrightarrow> (fp_show env t, True) \<in> set ?c"
    by (rule parsed_positives [OF assms(1) dc(2)])
  then have res: "t \<in> set (fst (detect env discovered decimals anchors written (Some c))) \<longleftrightarrow> map_of ?c (fp_show env t) = Some True"
    using dc(1) by (simp add: detect_def probed_cache_def Let_def)
  have na: "map_of ?H t = None" if "t \<in> an_token ` set anchors"
    using that by (auto simp: holders_lookup touches_def Let_def filter_empty_conv)
  show ?thesis unfolding res cache verdict_def probe_token_def fst_conv snd_conv probe_loop_True using na by auto
qed

definition show_bits :: "address \<Rightarrow> string" where
  "show_bits a = map (\<lambda>i. if bit a i then CHR ''1'' else CHR ''0'') [0..<160]"

definition read_bits :: "string \<Rightarrow> address option" where
  "read_bits s = Some (horner_sum of_bool 2 (map (\<lambda>c. c = CHR ''1'') s))"

lemma read_show_bits: "read_bits (show_bits a) = Some a"
proof -
  have "map (\<lambda>c. c = CHR ''1'') (show_bits a) = map (bit a) [0..<160]" by (simp add: show_bits_def)
  moreover have "horner_sum of_bool 2 (map (bit a) [0..<160]) = take_bit 160 a" by (rule horner_sum_bit_eq_take_bit)
  moreover have "take_bit 160 a = a" by (rule take_bit_word_eq_self) simp
  ultimately show ?thesis by (simp add: read_bits_def)
qed

text \<open>Token 8 takes 2 per cent of every transfer; token 7 is fair; token 9 was found short in an earlier run.\<close>

definition sample_probes :: fee_env where
  "sample_probes =
     \<lparr>fp_call = (\<lambda>holder token relay recipient amount. Some (if token = 8 then amount - amount div 50 else amount)),
      fp_order = rev, fp_show = show_bits, fp_parse = read_bits\<rparr>"

definition sample_pair :: discovered_pool where
  "sample_pair =
     \<lparr>dp_address = 4, dp_dex = UniV2Fork, dp_factory = 1, dp_token0 = 7, dp_token1 = 8, dp_fee_pips = None,
      dp_tick_spacing = None, dp_fee_bps = None, dp_pool_id = None, dp_currency0_raw = None\<rparr>"

lemma sample_verdicts:
  "probe_one sample_probes 8 4 18 = Some True" "probe_one sample_probes 7 4 18 = Some False"
  by code_simp+

theorem detect_exact_witness:
  "8 \<in> set (fst (detect sample_probes [sample_pair] Map.empty [] True (Some [(show_bits 9, True)]))) \<and>
   7 \<notin> set (fst (detect sample_probes [sample_pair] Map.empty [] True (Some [(show_bits 9, True)])))"
proof -
  let ?c = "[(show_bits 9, True)]"
  have env: "fp_parse sample_probes = read_bits" "fp_show sample_probes = show_bits" "fp_order sample_probes = rev"
    by (simp_all add: sample_probes_def)
  have inj: "show_bits a = show_bits b \<longleftrightarrow> a = b" for a b by (metis read_show_bits option.inject)
  have ok: "\<forall>a. fp_parse sample_probes (fp_show sample_probes a) = Some a" "\<forall>xs. mset (fp_order sample_probes xs) = mset xs"
    "distinct (map fst ?c)" "fst ` set ?c \<subseteq> range (fp_show sample_probes)"
    by (simp_all add: env read_show_bits)
  have H: "holders_of (an_token ` set []) [sample_pair] = [(7, [4]), (8, [4])]" by code_simp
  note exact = detect_exact [OF ok, of _ "[sample_pair]" Map.empty "[]" True]
  have "map_of ?c (show_bits 8) = None" "map_of ?c (show_bits 7) = None" by (simp_all add: inj)
  then show ?thesis unfolding exact env H by (simp add: sample_verdicts)
qed

text \<open>
  The tolerance of one basis point is meant to absorb rounding dust.  The probed amount of a token with up
  to six decimals is at most 1000 units, of which a basis point rounds to nothing: no dust is tolerated.
\<close>

lemma tolerance_vanishes:
  assumes "decimals \<le> 6"
  shows "min_received (probe_amount decimals) = probe_amount decimals"
proof -
  have "unat decimals \<le> 6" using assms by (simp add: word_le_nat_alt)
  then have "unat decimals \<in> {0, 1, 2, 3, 4, 5, 6}" by auto
  then have "decimals \<in> {0, 1, 2, 3, 4, 5, 6}" by (auto simp: word_unat_eq_iff)
  then show ?thesis by (auto simp: min_received_def probe_amount_def TOLERANCE_BPS_def min_def max_def)
qed

end
