(* ===== verification/Bootstrap.thy ===== *)
theory Bootstrap
  imports Fee_Probe Quote
begin

text \<open>
  Start-up hydration, \<^verbatim>\<open>src/ingest/bootstrap.rs\<close>: discovered pools are deduplicated, their on-chain
  state is read in batched calls, and the pools that answer, avoid the blacklists and are deep enough
  become the registrations the registry is built from.  The node, the ABI coders and the fee probe
  are parameters; one stage per protocol family, in the source's order.
\<close>

section \<open>Parameters and return data\<close>

record mc_result =
  rs_success :: bool
  rs_data :: "u8 list"

record hydrate_abi =
  ha_uni_reserves :: "u8 list"
  ha_aero_reserves :: "u8 list"
  ha_get_fee :: "address \<Rightarrow> bool \<Rightarrow> u8 list"
  ha_slot0 :: "u8 list"
  ha_liquidity :: "u8 list"
  ha_fee :: "u8 list"
  ha_global_state :: "u8 list"
  ha_algebra_liquidity :: "u8 list"
  ha_algebra_fee :: "u8 list"
  ha_v4_slot0 :: "b256 \<Rightarrow> u8 list"
  ha_v4_liquidity :: "b256 \<Rightarrow> u8 list"
  ha_decimals :: "u8 list"
  hd_uni_reserves :: "u8 list \<Rightarrow> (112 word \<times> 112 word) option"
  hd_aero_reserves :: "u8 list \<Rightarrow> (u256 \<times> u256) option"
  hd_u256 :: "u8 list \<Rightarrow> u256 option"
  hd_global_price :: "u8 list \<Rightarrow> 160 word option"                    \<comment> \<open>the price of the decoded global state\<close>
  hd_v4_slot0 :: "u8 list \<Rightarrow> (160 word \<times> 24 word \<times> 24 word) option"  \<comment> \<open>sqrt price, protocol fee, LP fee\<close>

record ('w, 'e) hydrate_env =
  hy_node :: "('w, mc_call3 list, 'e, mc_result list) provider"
  hy_abi :: hydrate_abi
  hy_probe :: fee_env
  hy_cache_written :: bool

definition MC_BATCH :: nat where
  "MC_BATCH = 400"

definition UNIV4_STATE_VIEW :: address where
  "UNIV4_STATE_VIEW = 0xf3334192d15450cdd385c8b70e03f9a6bd9e673b"

text \<open>\<open>from_be_slice\<close> and \<open>from_be_bytes\<close>.\<close>

definition be_word :: "u8 list \<Rightarrow> 'w::len word" where
  "be_word bs = foldl (\<lambda>w b. w * 256 + ucast b) 0 bs"

definition decode_u128 :: "u8 list \<Rightarrow> u128 option res" where
  "decode_u128 data =
     (if length data < 32 then Inr None else rbind (to_u128 (be_word (take 32 data))) (\<lambda>v. Inr (Some v)))"

definition decode_slot0 :: "u8 list \<Rightarrow> (u256 \<times> int) option" where
  "decode_slot0 data =
     (if length data < 64 then None
      else Some (be_word (take 32 data), sint (be_word [data ! 60, data ! 61, data ! 62, data ! 63] :: 32 word)))"

definition decode_reserves_u256 :: "hydrate_abi \<Rightarrow> u8 list \<Rightarrow> (u256 \<times> u256) option" where
  "decode_reserves_u256 abi data = hd_aero_reserves abi data"

definition saturate_u128 :: "u256 \<Rightarrow> u128" where
  "saturate_u128 w = (if unat w < 2 ^ 128 then ucast w else - 1)"

definition decode_reserves_v2ish :: "hydrate_abi \<Rightarrow> dex_tag \<Rightarrow> u8 list \<Rightarrow> (u128 \<times> u128) option" where
  "decode_reserves_v2ish abi dex data =
     (case dex of
        UniV2Fork \<Rightarrow> map_option (\<lambda>(r0, r1). (ucast r0, ucast r1)) (hd_uni_reserves abi data)
      | AeroVolatile \<Rightarrow> map_option (\<lambda>(a, b). (saturate_u128 a, saturate_u128 b)) (decode_reserves_u256 abi data)
      | _ \<Rightarrow> None)"

definition reserves_calldata :: "hydrate_abi \<Rightarrow> dex_tag \<Rightarrow> u8 list" where
  "reserves_calldata abi dex =
     (case dex of
        UniV2Fork \<Rightarrow> ha_uni_reserves abi
      | AeroVolatile \<Rightarrow> ha_aero_reserves abi
      | AeroStable \<Rightarrow> ha_aero_reserves abi
      | _ \<Rightarrow> ha_uni_reserves abi)"

definition balance_of_calldata :: "address \<Rightarrow> u8 list" where
  "balance_of_calldata owner =
     [0x70, 0xa0, 0x82, 0x31] @ replicate 12 0 @ map (\<lambda>i. ucast (drop_bit (8 * i) owner)) (rev [0..<20])"

section \<open>Steps that read the chain\<close>

type_synonym ('w, 'e, 'a) hydrating = "'w \<Rightarrow> ('e, 'a) eres \<times> 'w"

definition hbind :: "('w, 'e, 'a) hydrating \<Rightarrow> ('a \<Rightarrow> ('w, 'e, 'b) hydrating) \<Rightarrow> ('w, 'e, 'b) hydrating" where
  "hbind m f w =
     (case m w of
        (Inl p, w1) \<Rightarrow> (Inl p, w1)
      | (Inr (Inl e), w1) \<Rightarrow> (Inr (Inl e), w1)
      | (Inr (Inr a), w1) \<Rightarrow> f a w1)"

definition hpure :: "'a res \<Rightarrow> ('w, 'e, 'a) hydrating" where
  "hpure r w = (rbind r eok, w)"

text \<open>A batched read; no request is made for an empty batch.\<close>

definition hcalls :: "('w, 'e) hydrate_env \<Rightarrow> mc_call list \<Rightarrow> ('w, 'e, mc_result list) hydrating" where
  "hcalls env calls w =
     (if calls = [] then (eok [], w)
      else case aggregate3 (hy_node env) calls MC_BATCH w of (r, w1) \<Rightarrow> (Inr r, w1))"

section \<open>Duplicates, tokens, decimals\<close>

fun dedupe_loop :: "address set \<Rightarrow> discovered_pool list \<Rightarrow> discovered_pool list" where
  "dedupe_loop seen [] = []"
| "dedupe_loop seen (p # ps) =
     (if dp_address p \<in> seen then dedupe_loop seen ps else p # dedupe_loop (insert (dp_address p) seen) ps)"

definition dedupe :: "discovered_pool list \<Rightarrow> discovered_pool list" where
  "dedupe discovered = dedupe_loop {} discovered"

definition token_set :: "discovered_pool list \<Rightarrow> address list" where
  "token_set discovered =
     foldl (\<lambda>ts t. if t \<in> set ts then ts else ts @ [t]) [] (concat (map (\<lambda>p. [dp_token0 p, dp_token1 p]) discovered))"

definition decimals_entry :: "address \<times> mc_result \<Rightarrow> (address \<times> u8) res" where
  "decimals_entry tr =
     (case tr of (t, r) \<Rightarrow>
        if rs_success r then rbind (decode_u128 (rs_data r)) (\<lambda>d. Inr (t, case d of Some v \<Rightarrow> ucast v | None \<Rightarrow> 18))
        else Inr (t, 18))"

definition decimals_of :: "address list \<Rightarrow> mc_result list \<Rightarrow> (address \<rightharpoonup> u8) res" where
  "decimals_of tokens results = rbind (rmap decimals_entry (zip tokens results)) (\<lambda>ds. Inr (map_of (rev ds)))"

definition fetch_decimals :: "('w, 'e) hydrate_env \<Rightarrow> address list \<Rightarrow> ('w, 'e, address \<rightharpoonup> u8) hydrating" where
  "fetch_decimals env tokens =
     hbind (hcalls env (map (\<lambda>t. \<lparr>mc_target = t, mc_calldata = ha_decimals (hy_abi env)\<rparr>) tokens)) (\<lambda>results.
       hpure (decimals_of tokens results))"

definition dec_of :: "(address \<rightharpoonup> u8) \<Rightarrow> address \<Rightarrow> u8" where
  "dec_of decimals t = (case decimals t of Some d \<Rightarrow> d | None \<Rightarrow> 18)"

section \<open>Registrations\<close>

definition pool_meta_of ::
    "(address \<rightharpoonup> u8) \<Rightarrow> pool_idx \<Rightarrow> discovered_pool \<Rightarrow> dex_tag \<Rightarrow> u32 \<Rightarrow> u32 \<Rightarrow> int \<Rightarrow> v4_meta option \<Rightarrow> pool_meta" where
  "pool_meta_of decimals idx p dex fee_bps fee_pips tick_spacing v4 =
     \<lparr>pm_idx = idx, pm_address = dp_address p, pm_dex = dex, pm_factory = dp_factory p, pm_token0 = dp_token0 p,
      pm_token1 = dp_token1 p, pm_dec0 = dec_of decimals (dp_token0 p), pm_dec1 = dec_of decimals (dp_token1 p),
      pm_fee_bps = fee_bps, pm_fee_pips = fee_pips, pm_tick_spacing = tick_spacing, pm_v4 = v4\<rparr>"

definition anchor_sides :: "pool_meta \<Rightarrow> f64 \<Rightarrow> f64 \<Rightarrow> anchor_config list \<Rightarrow> (address \<times> f64) list" where
  "anchor_sides m r0 r1 anchors =
     concat (map (\<lambda>a.
       (if pm_token0 m = an_token a then [(an_token a, fdiv r0 (f64_powi (f64_lit 10) (uint (pm_dec0 m))))] else []) @
       (if pm_token1 m = an_token a then [(an_token a, fdiv r1 (f64_powi (f64_lit 10) (uint (pm_dec1 m))))] else [])) anchors)"

text \<open>
  Every stage walks its pools in order and pushes a registration, numbered by the length so far, for each
  pool that qualifies.  (Where the source first collects the qualifying pools and pushes afterwards,
  nothing observable lies between: a panic of either pass ends the start-up.)
\<close>

fun push_regs :: "(pool_idx \<Rightarrow> 'x \<Rightarrow> registration option res) \<Rightarrow> 'x list \<Rightarrow> registration list \<Rightarrow> registration list res" where
  "push_regs f [] regs = Inr regs"
| "push_regs f (x # xs) regs =
     rbind (f (of_nat (length regs)) x) (\<lambda>r. push_regs f xs (case r of Some reg \<Rightarrow> regs @ [reg] | None \<Rightarrow> regs))"

section \<open>Constant-product and stable pools\<close>

definition is_aero :: "dex_tag \<Rightarrow> bool" where
  "is_aero d \<longleftrightarrow> d = AeroVolatile \<or> d = AeroStable"

definition numbered_pools :: "(discovered_pool \<Rightarrow> bool) \<Rightarrow> discovered_pool list \<Rightarrow> (nat \<times> discovered_pool) list" where
  "numbered_pools P discovered = filter (\<lambda>(i, p). P p) (List.enumerate 0 discovered)"

definition aero_fee_calls :: "hydrate_abi \<Rightarrow> (nat \<times> discovered_pool) list \<Rightarrow> mc_call list" where
  "aero_fee_calls abi pools =
     map (\<lambda>(i, p). \<lparr>mc_target = dp_factory p, mc_calldata = ha_get_fee abi (dp_address p) (dp_dex p = AeroStable)\<rparr>) pools"

text \<open>Fees by position in the discovered list; an entry that failed or does not decode is missing.\<close>

fun aero_fee_map :: "hydrate_abi \<Rightarrow> ((nat \<times> discovered_pool) \<times> mc_result) list \<Rightarrow> (nat \<rightharpoonup> u32) \<Rightarrow> (nat \<rightharpoonup> u32) res" where
  "aero_fee_map abi [] m = Inr m"
| "aero_fee_map abi (((i, p), r) # rest) m =
     (if rs_success r then
        (case hd_u256 abi (rs_data r) of
           None \<Rightarrow> aero_fee_map abi rest m
         | Some fee \<Rightarrow> rbind (to_u32 fee) (\<lambda>f. aero_fee_map abi rest (m(i \<mapsto> f))))
      else aero_fee_map abi rest m)"

definition v2_registration ::
    "hydrate_abi \<Rightarrow> anchor_config list \<Rightarrow> (address \<rightharpoonup> u8) \<Rightarrow> (nat \<rightharpoonup> u32) \<Rightarrow> pool_idx
      \<Rightarrow> (nat \<times> discovered_pool) \<times> mc_result option \<Rightarrow> registration option res" where
  "v2_registration abi anchors decimals aero_fees idx item =
     (case item of ((i, p), result) \<Rightarrow>
        case result of
          None \<Rightarrow> Inr None
        | Some r \<Rightarrow>
            if \<not> rs_success r then Inr None
            else if dp_dex p = UniV2Fork \<or> dp_dex p = AeroVolatile then
              (case decode_reserves_v2ish abi (dp_dex p) (rs_data r) of
                 None \<Rightarrow> Inr None
               | Some (r0, r1) \<Rightarrow>
                   let fee_bps =
                         (if dp_dex p = AeroVolatile then (case aero_fees i of Some f \<Rightarrow> f | None \<Rightarrow> 30)
                          else (case dp_fee_bps p of Some f \<Rightarrow> f | None \<Rightarrow> 30));
                       m = pool_meta_of decimals idx p (dp_dex p) fee_bps (fee_bps * 100) 0 None
                   in Inr (Some \<lparr>reg_meta = m, reg_gate = Some (anchor_sides m (f64_of_u128 r0) (f64_of_u128 r1) anchors)\<rparr>))
            else if dp_dex p = AeroStable then
              (case decode_reserves_u256 abi (rs_data r) of
                 None \<Rightarrow> Inr None
               | Some (r0, r1) \<Rightarrow>
                   let fee_bps = (case aero_fees i of Some f \<Rightarrow> f | None \<Rightarrow> 5);
                       m = pool_meta_of decimals idx p (dp_dex p) fee_bps (fee_bps * 100) 0 None
                   in Inr (Some \<lparr>reg_meta = m, reg_gate = Some (anchor_sides m (u256_to_f64 r0) (u256_to_f64 r1) anchors)\<rparr>))
            else Inr None)"

definition v2_stage ::
    "('w, 'e) hydrate_env \<Rightarrow> anchor_config list \<Rightarrow> (address \<rightharpoonup> u8) \<Rightarrow> discovered_pool list \<Rightarrow> registration list
      \<Rightarrow> ('w, 'e, registration list) hydrating" where
  "v2_stage env anchors decimals discovered regs =
     (let abi = hy_abi env;
          pools = numbered_pools (\<lambda>p. is_v2_family (dp_dex p) \<or> dp_dex p = AeroStable) discovered;
          aero = numbered_pools (\<lambda>p. is_aero (dp_dex p)) discovered
      in hbind (hcalls env (map (\<lambda>(i, p). \<lparr>mc_target = dp_address p, mc_calldata = reserves_calldata abi (dp_dex p)\<rparr>) pools)) (\<lambda>v2_results.
         hbind (hcalls env (aero_fee_calls abi aero)) (\<lambda>fee_results.
         hpure (rbind (aero_fee_map abi (zip aero fee_results) Map.empty) (\<lambda>fees.
           push_regs (v2_registration abi anchors decimals fees)
             (map (\<lambda>slot. (pools ! slot, get v2_results slot)) [0..<length pools]) regs)))))"

section \<open>Concentrated-liquidity pools\<close>

definition cl_calls :: "u8 list list \<Rightarrow> discovered_pool list \<Rightarrow> mc_call list" where
  "cl_calls calldatas pools = concat (map (\<lambda>p. map (\<lambda>cd. \<lparr>mc_target = dp_address p, mc_calldata = cd\<rparr>) calldatas) pools)"

text \<open>The fee a pool's own view call returned, when the call succeeded and decodes.\<close>

definition viewed_fee :: "mc_result option \<Rightarrow> u32 option res" where
  "viewed_fee fee =
     (case fee of
        None \<Rightarrow> Inr None
      | Some f \<Rightarrow> if rs_success f then rbind (decode_u128 (rs_data f)) (\<lambda>v. Inr (map_option ucast v)) else Inr None)"

definition v3_registration ::
    "(address \<rightharpoonup> u8) \<Rightarrow> mc_result list \<Rightarrow> pool_idx \<Rightarrow> nat \<times> discovered_pool \<Rightarrow> registration option res" where
  "v3_registration decimals results idx item =
     (case item of (n, p) \<Rightarrow>
        case (get results (n * 3), get results (n * 3 + 1)) of
          (Some s, Some l) \<Rightarrow>
            if \<not> rs_success s \<or> \<not> rs_success l then Inr None
            else (case decode_slot0 (rs_data s) of
              None \<Rightarrow> Inr None
            | Some (sqrt_price, tick) \<Rightarrow>
                rbind (decode_u128 (rs_data l)) (\<lambda>liquidity.
                rbind (case dp_fee_pips p of Some f \<Rightarrow> Inr (Some f) | None \<Rightarrow> viewed_fee (get results (n * 3 + 2))) (\<lambda>fee.
                  let fee_pips = (case fee of Some f \<Rightarrow> f | None \<Rightarrow> 3000);
                      tick_spacing = (case dp_tick_spacing p of Some ts \<Rightarrow> ts | None \<Rightarrow> 60)
                  in Inr (Some \<lparr>reg_meta = pool_meta_of decimals idx p (dp_dex p) (fee_pips div 100) fee_pips tick_spacing None,
                                reg_gate = None\<rparr>))))
        | _ \<Rightarrow> Inr None)"

definition v3_stage ::
    "('w, 'e) hydrate_env \<Rightarrow> (address \<rightharpoonup> u8) \<Rightarrow> discovered_pool list \<Rightarrow> registration list
      \<Rightarrow> ('w, 'e, registration list) hydrating" where
  "v3_stage env decimals discovered regs =
     (let abi = hy_abi env; pools = filter (\<lambda>p. is_v3_family (dp_dex p)) discovered
      in hbind (hcalls env (cl_calls [ha_slot0 abi, ha_liquidity abi, ha_fee abi] pools)) (\<lambda>results.
           hpure (push_regs (v3_registration decimals results) (List.enumerate 0 pools) regs)))"

definition algebra_registration ::
    "hydrate_abi \<Rightarrow> (address \<rightharpoonup> u8) \<Rightarrow> mc_result list \<Rightarrow> pool_idx \<Rightarrow> nat \<times> discovered_pool \<Rightarrow> registration option res" where
  "algebra_registration abi decimals results idx item =
     (case item of (n, p) \<Rightarrow>
        case (get results (n * 3), get results (n * 3 + 1)) of
          (Some gs, Some l) \<Rightarrow>
            if \<not> rs_success gs \<or> \<not> rs_success l then Inr None
            else (case hd_global_price abi (rs_data gs) of
              None \<Rightarrow> Inr None
            | Some price \<Rightarrow>
                if price = 0 then Inr None
                else
                  rbind (decode_u128 (rs_data l)) (\<lambda>liquidity.
                  rbind (viewed_fee (get results (n * 3 + 2))) (\<lambda>fee.
                    let fee_pips = (case fee of Some f \<Rightarrow> f | None \<Rightarrow> 3000);
                        tick_spacing = (case dp_tick_spacing p of Some ts \<Rightarrow> ts | None \<Rightarrow> 60)
                    in Inr (Some \<lparr>reg_meta = pool_meta_of decimals idx p Algebra (fee_pips div 100) fee_pips tick_spacing None,
                                  reg_gate = None\<rparr>))))
        | _ \<Rightarrow> Inr None)"

definition algebra_stage ::
    "('w, 'e) hydrate_env \<Rightarrow> (address \<rightharpoonup> u8) \<Rightarrow> discovered_pool list \<Rightarrow> registration list
      \<Rightarrow> ('w, 'e, registration list) hydrating" where
  "algebra_stage env decimals discovered regs =
     (let abi = hy_abi env; pools = filter (\<lambda>p. is_algebra (dp_dex p)) discovered
      in hbind (hcalls env (cl_calls [ha_global_state abi, ha_algebra_liquidity abi, ha_algebra_fee abi] pools)) (\<lambda>results.
           hpure (push_regs (algebra_registration abi decimals results) (List.enumerate 0 pools) regs)))"

section \<open>Uniswap V4 pools\<close>

definition v4_calls :: "hydrate_abi \<Rightarrow> discovered_pool list \<Rightarrow> mc_call list res" where
  "v4_calls abi pools =
     rbind (rmap (\<lambda>p. rbind (from_option ExpectFailed (dp_pool_id p)) (\<lambda>pid.
        Inr [\<lparr>mc_target = UNIV4_STATE_VIEW, mc_calldata = ha_v4_slot0 abi pid\<rparr>,
             \<lparr>mc_target = UNIV4_STATE_VIEW, mc_calldata = ha_v4_liquidity abi pid\<rparr>])) pools) (\<lambda>cs. Inr (concat cs))"

text \<open>
  A V4 pool is dropped when it is uninitialised, when a protocol fee applies, or when its LP fee is not
  the one of its key.  What remains is its id, price, liquidity, fee and spacing.
\<close>

record v4_state =
  v4s_pool :: discovered_pool
  v4s_id :: b256
  v4s_price :: u256
  v4s_liquidity :: u128
  v4s_fee :: u32
  v4s_spacing :: int

definition v4_pending :: "hydrate_abi \<Rightarrow> mc_result list \<Rightarrow> nat \<times> discovered_pool \<Rightarrow> v4_state option res" where
  "v4_pending abi results item =
     (case item of (n, p) \<Rightarrow>
        rbind (from_option ExpectFailed (dp_pool_id p)) (\<lambda>pid.
        case (get results (n * 2), get results (n * 2 + 1)) of
          (Some s, Some l) \<Rightarrow>
            if \<not> rs_success s \<or> \<not> rs_success l then Inr None
            else (case hd_v4_slot0 abi (rs_data s) of
              None \<Rightarrow> Inr None
            | Some (price, protocol_fee, lp_fee) \<Rightarrow>
                if price = 0 then Inr None
                else if protocol_fee \<noteq> 0 then Inr None
                else rbind (from_option ExpectFailed (dp_fee_pips p)) (\<lambda>fee_pips.
                  if ucast lp_fee \<noteq> fee_pips then Inr None
                  else
                    rbind (decode_u128 (rs_data l)) (\<lambda>liquidity.
                    rbind (from_option ExpectFailed (dp_tick_spacing p)) (\<lambda>spacing.
                      Inr (Some \<lparr>v4s_pool = p, v4s_id = pid, v4s_price = ucast price,
                        v4s_liquidity = (case liquidity of Some v \<Rightarrow> v | None \<Rightarrow> 0), v4s_fee = fee_pips, v4s_spacing = spacing\<rparr>)))))
        | _ \<Rightarrow> Inr None))"

definition virtual_reserves :: "u256 \<Rightarrow> u128 \<Rightarrow> f64 \<times> f64" where
  "virtual_reserves sqrt_price liquidity =
     (let sp = fdiv (u256_to_f64 sqrt_price) (f64_powi (f64_lit 2) 96)
      in if flt (f64_lit 0) sp then
           let l = f64_of_u128 liquidity in (fdiv l sp, fmul l sp)
         else (f64_lit 0, f64_lit 0))"

definition v4_registration ::
    "anchor_config list \<Rightarrow> (address \<rightharpoonup> u8) \<Rightarrow> pool_idx \<Rightarrow> v4_state \<Rightarrow> registration option res" where
  "v4_registration anchors decimals idx st =
     (let p = v4s_pool st
      in rbind (from_option ExpectFailed (dp_currency0_raw p)) (\<lambda>c0.
           let v4 = \<lparr>v4_pool_id = v4s_id st, v4_currency0 = c0, v4_currency1 = dp_token1 p, v4_fee_pips = v4s_fee st,
                     v4_tick_spacing = v4s_spacing st\<rparr>;
               m = pool_meta_of decimals idx p UniV4 (v4s_fee st div 100) (v4s_fee st) (v4s_spacing st) (Some v4);
               (r0, r1) = virtual_reserves (v4s_price st) (v4s_liquidity st);
               gate = map (\<lambda>(t, d). (t, fdiv d (f64_lit 2))) (anchor_sides m r0 r1 anchors)
           in Inr (Some \<lparr>reg_meta = m, reg_gate = Some gate\<rparr>)))"

definition v4_stage ::
    "('w, 'e) hydrate_env \<Rightarrow> anchor_config list \<Rightarrow> (address \<rightharpoonup> u8) \<Rightarrow> discovered_pool list \<Rightarrow> registration list
      \<Rightarrow> ('w, 'e, registration list) hydrating" where
  "v4_stage env anchors decimals discovered regs =
     (let abi = hy_abi env; pools = filter (\<lambda>p. is_v4 (dp_dex p)) discovered
      in hbind (hpure (v4_calls abi pools)) (\<lambda>calls.
         hbind (hcalls env calls) (\<lambda>results.
         hpure (rbind (rmap (v4_pending abi results) (List.enumerate 0 pools)) (\<lambda>pending.
           push_regs (v4_registration anchors decimals) (List.map_filter (\<lambda>x. x) pending) regs)))))"

section \<open>Depth of concentrated-liquidity pools\<close>

definition cl_targets :: "anchor_config list \<Rightarrow> registration list \<Rightarrow> (address \<times> anchor_config) list" where
  "cl_targets anchors regs =
     concat (map (\<lambda>r. map (\<lambda>a. (pm_address (reg_meta r), a))
         (filter (\<lambda>a. pm_token0 (reg_meta r) = an_token a \<or> pm_token1 (reg_meta r) = an_token a) anchors))
       (filter (\<lambda>r. reg_gate r = None) regs))"

fun cl_balances ::
    "((address \<times> anchor_config) \<times> mc_result) list \<Rightarrow> (address \<times> address \<rightharpoonup> f64) \<Rightarrow> (address \<times> address \<rightharpoonup> f64) res" where
  "cl_balances [] m = Inr m"
| "cl_balances (((pool, a), r) # rest) m =
     (if rs_success r then
        rbind (decode_u128 (rs_data r)) (\<lambda>bal.
          case bal of
            None \<Rightarrow> cl_balances rest m
          | Some b \<Rightarrow>
              cl_balances rest (m((pool, an_token a) \<mapsto> fdiv (f64_of_u128 b) (f64_powi (f64_lit 10) (uint (an_decimals a))))))
      else cl_balances rest m)"

definition cl_anchor_bal ::
    "('w, 'e) hydrate_env \<Rightarrow> anchor_config list \<Rightarrow> bool \<Rightarrow> registration list \<Rightarrow> ('w, 'e, address \<times> address \<rightharpoonup> f64) hydrating" where
  "cl_anchor_bal env anchors enforce_liquidity regs =
     (if enforce_liquidity then
        let targets = cl_targets anchors regs
        in hbind (hcalls env (map (\<lambda>(pool, a). \<lparr>mc_target = an_token a, mc_calldata = balance_of_calldata pool\<rparr>) targets)) (\<lambda>results.
             hpure (cl_balances (zip targets results) Map.empty))
      else hpure (Inr Map.empty))"

section \<open>The working-set filter\<close>

definition anchor_liquidity :: "registration \<Rightarrow> (address \<times> address \<rightharpoonup> f64) \<Rightarrow> anchor_config list \<Rightarrow> bool" where
  "anchor_liquidity reg bal anchors =
     (let m = reg_meta reg;
          touched = filter (\<lambda>a. pm_token0 m = an_token a \<or> pm_token1 m = an_token a) anchors
      in touched = [] \<or>
         list_ex (\<lambda>a.
           let depth =
                 (case reg_gate reg of
                    Some sides \<Rightarrow> (case List.find (\<lambda>(t, _). t = an_token a) sides of Some (_, d) \<Rightarrow> d | None \<Rightarrow> f64_lit 0)
                  | None \<Rightarrow> (case bal (pm_address m, an_token a) of Some d \<Rightarrow> d | None \<Rightarrow> f64_lit 0))
           in fle (an_min_liquidity a) depth) touched)"

definition keeps :: "filter_config \<Rightarrow> bool \<Rightarrow> (address \<times> address \<rightharpoonup> f64) \<Rightarrow> anchor_config list \<Rightarrow> registration \<Rightarrow> bool" where
  "keeps flt_cfg enforce_liquidity bal anchors reg =
     (let m = reg_meta reg;
          ok = (\<lambda>t. t \<in> an_token ` set anchors \<or> t \<in> set (token_whitelist flt_cfg))
      in if pm_token0 m \<in> set (token_blacklist flt_cfg) \<or> pm_token1 m \<in> set (token_blacklist flt_cfg) then False
         else if token_whitelist flt_cfg \<noteq> [] \<and> (\<not> ok (pm_token0 m) \<or> \<not> ok (pm_token1 m)) then False
         else \<not> (enforce_liquidity \<and> \<not> anchor_liquidity reg bal anchors))"

definition apply_filter ::
    "registration list \<Rightarrow> filter_config \<Rightarrow> bool \<Rightarrow> (address \<times> address \<rightharpoonup> f64) \<Rightarrow> anchor_config list \<Rightarrow> registration list" where
  "apply_filter regs flt_cfg enforce_liquidity bal anchors = filter (keeps flt_cfg enforce_liquidity bal anchors) regs"

definition reindex :: "registration list \<Rightarrow> registration list" where
  "reindex regs = map (\<lambda>(i, reg). reg\<lparr>reg_meta := (reg_meta reg)\<lparr>pm_idx := of_nat i\<rparr>\<rparr>) (List.enumerate 0 regs)"

section \<open>Hydration\<close>

definition hydrate ::
    "('w, 'e) hydrate_env \<Rightarrow> config \<Rightarrow> discovered_pool list \<Rightarrow> bool \<Rightarrow> fee_cache option
      \<Rightarrow> ('w, 'e, registration list \<times> fee_cache option) hydrating" where
  "hydrate env cfg discovered enforce_liquidity file =
     (let ps = dedupe discovered; anchors = cf_anchors cfg
      in hbind (fetch_decimals env (token_set ps)) (\<lambda>decimals.
         hbind (v2_stage env anchors decimals ps []) (\<lambda>regs1.
         hbind (v3_stage env decimals ps regs1) (\<lambda>regs2.
         hbind (algebra_stage env decimals ps regs2) (\<lambda>regs3.
         hbind (v4_stage env anchors decimals ps regs3) (\<lambda>regs.
         hbind (cl_anchor_bal env anchors enforce_liquidity regs) (\<lambda>bal.
           let (fee_tokens, file') = detect (hy_probe env) ps decimals anchors (hy_cache_written env) file;
               flt_cfg = (cf_filter cfg)\<lparr>token_blacklist := token_blacklist (cf_filter cfg) @ fee_tokens\<rparr>
           in hpure (Inr (reindex (apply_filter regs flt_cfg enforce_liquidity bal anchors), file')))))))))"

section \<open>Where registrations come from\<close>

definition reg_from :: "discovered_pool \<Rightarrow> registration \<Rightarrow> bool" where
  "reg_from p r \<longleftrightarrow>
     pm_address (reg_meta r) = dp_address p \<and> pm_dex (reg_meta r) = dp_dex p \<and>
     pm_token0 (reg_meta r) = dp_token0 p \<and> pm_token1 (reg_meta r) = dp_token1 p \<and>
     (if is_v4 (dp_dex p) then \<exists>v. pm_v4 (reg_meta r) = Some v \<and> dp_pool_id p = Some (v4_pool_id v)
      else pm_v4 (reg_meta r) = None)"

text \<open>A stage appends registrations of some of its pools, in order.\<close>

definition extends :: "discovered_pool list \<Rightarrow> registration list \<Rightarrow> registration list \<Rightarrow> bool" where
  "extends pools regs regs' \<longleftrightarrow> (\<exists>ps new. regs' = regs @ new \<and> subseq ps pools \<and> list_all2 reg_from ps new)"

lemma hbind_ok: "hbind m f w = (Inr (Inr b), w') \<longleftrightarrow> (\<exists>a w1. m w = (Inr (Inr a), w1) \<and> f a w1 = (Inr (Inr b), w'))"
  by (auto simp: hbind_def split: prod.splits sum.splits)

lemma hpure_ok: "hpure r w = (Inr (Inr a), w') \<longleftrightarrow> r = Inr a \<and> w' = w"
  by (cases r) (auto simp: hpure_def eok_def)

lemma extends_refl: "extends pools regs regs"
  unfolding extends_def by (intro exI [of _ "[]"]) simp

lemma extends_step: "reg_from p r \<Longrightarrow> extends ps (regs @ [r]) regs' \<Longrightarrow> extends (p # ps) regs regs'"
proof -
  assume r: "reg_from p r" and "extends ps (regs @ [r]) regs'"
  then obtain qs new where "regs' = (regs @ [r]) @ new" "subseq qs ps" "list_all2 reg_from qs new" unfolding extends_def by blast
  then show ?thesis unfolding extends_def using r by (intro exI [of _ "p # qs"] exI [of _ "r # new"]) simp
qed

lemma extends_skip: "extends ps regs regs' \<Longrightarrow> extends (p # ps) regs regs'"
  unfolding extends_def by (metis list_emb_Cons)

lemma extends_subseq: "extends ps regs regs' \<Longrightarrow> subseq ps qs \<Longrightarrow> extends qs regs regs'"
proof -
  assume "extends ps regs regs'" and q: "subseq ps qs"
  then obtain rs new where "regs' = regs @ new" "subseq rs ps" "list_all2 reg_from rs new" unfolding extends_def by blast
  then show ?thesis unfolding extends_def using subseq_order.order_trans [OF _ q] by blast
qed

lemma push_regs_extends:
  assumes "\<And>idx x r. x \<in> set xs \<Longrightarrow> f idx x = Inr (Some r) \<Longrightarrow> reg_from (g x) r" "push_regs f xs regs = Inr regs'"
  shows "extends (map g xs) regs regs'"
  using assms
proof (induction xs arbitrary: regs)
  case (Cons x xs)
  obtain r where r: "f (of_nat (length regs)) x = Inr r"
    "push_regs f xs (case r of Some reg \<Rightarrow> regs @ [reg] | None \<Rightarrow> regs) = Inr regs'" using Cons.prems(2) by auto
  have "extends (map g xs) (case r of Some reg \<Rightarrow> regs @ [reg] | None \<Rightarrow> regs) regs'"
    by (rule Cons.IH [OF _ r(2)]) (use Cons.prems(1) in auto)
  then show ?case using Cons.prems(1) r(1) by (cases r) (auto intro: extends_skip extends_step)
qed (simp add: extends_refl)

lemma numbered_pools_snd: "map snd (numbered_pools P ds) = filter P ds"
proof -
  have "map snd (filter (\<lambda>(i, p). P p) (List.enumerate n ds)) = filter P ds" for n
    by (induction ds arbitrary: n) auto
  then show ?thesis by (simp add: numbered_pools_def)
qed

lemma enumerate_snd: "x \<in> set (List.enumerate n xs) \<Longrightarrow> snd x \<in> set xs"
  using nth_mem [of "fst x - n" xs] by (auto simp: in_set_enumerate_eq)

lemma v2_pair_from:
  "v2_registration abi anchors decs fees idx ((i, p), res) = Inr (Some r) \<Longrightarrow> reg_from p r"
  by (auto simp: v2_registration_def reg_from_def pool_meta_of_def is_v4_def Let_def
      split: option.splits if_splits prod.splits)

lemma pool_meta_of_from:
  "\<not> is_v4 (dp_dex p) \<Longrightarrow> reg_from p \<lparr>reg_meta = pool_meta_of decs idx p (dp_dex p) fb fp ts None, reg_gate = g\<rparr>"
  by (simp add: reg_from_def pool_meta_of_def)

lemma v3_pair_from:
  assumes "v3_registration decs results idx (n, p) = Inr (Some r)" "is_v3_family (dp_dex p)"
  shows "reg_from p r"
proof -
  obtain s l where sl: "get results (n * 3) = Some s" "get results (n * 3 + 1) = Some l" "rs_success s \<and> rs_success l"
    using assms(1) by (cases "get results (n * 3)"; cases "get results (n * 3 + 1)")
      (auto simp: v3_registration_def simp del: get_Some add_2_eq_Suc' One_nat_def split: if_splits)
  obtain x where x: "decode_slot0 (rs_data s) = Some x"
    using assms(1) sl(3) unfolding v3_registration_def sl(1,2) prod.case option.case by (cases "decode_slot0 (rs_data s)") simp_all
  have "\<exists>fb fp ts. r = \<lparr>reg_meta = pool_meta_of decs idx p (dp_dex p) fb fp ts None, reg_gate = None\<rparr>"
    using assms(1) unfolding v3_registration_def sl(1,2) x prod.case option.case rbind_eq_Inr Let_def
    by (cases x) (use sl(3) in auto)
  moreover have "\<not> is_v4 (dp_dex p)" using assms(2) by (auto simp: dex_defs)
  ultimately show ?thesis using pool_meta_of_from by (elim exE) simp
qed

lemma algebra_pair_from:
  assumes "algebra_registration abi decs results idx (n, p) = Inr (Some r)" "is_algebra (dp_dex p)"
  shows "reg_from p r"
proof -
  obtain s l where sl: "get results (n * 3) = Some s" "get results (n * 3 + 1) = Some l" "rs_success s \<and> rs_success l"
    using assms(1) by (cases "get results (n * 3)"; cases "get results (n * 3 + 1)")
      (auto simp: algebra_registration_def simp del: get_Some add_2_eq_Suc' One_nat_def split: if_splits)
  obtain x where x: "hd_global_price abi (rs_data s) = Some x" "x \<noteq> 0"
    using assms(1) sl(3) unfolding algebra_registration_def sl(1,2) prod.case option.case
    by (cases "hd_global_price abi (rs_data s)") (auto split: if_splits)
  have "\<exists>fb fp ts. r = \<lparr>reg_meta = pool_meta_of decs idx p (dp_dex p) fb fp ts None, reg_gate = None\<rparr>"
    using assms sl(3) x(2) unfolding algebra_registration_def sl(1,2) x(1) prod.case option.case is_algebra_def
    by (auto simp: Let_def)
  moreover have "\<not> is_v4 (dp_dex p)" using assms(2) by (auto simp: dex_defs)
  ultimately show ?thesis using pool_meta_of_from by (elim exE) simp
qed

lemma v2_registration_from:
  "v2_registration abi anchors decs fees idx item = Inr (Some r) \<Longrightarrow> reg_from (snd (fst item)) r"
  using v2_pair_from [of abi anchors decs fees idx "fst (fst item)" "snd (fst item)" "snd item"] by simp

lemma v3_registration_from:
  "v3_registration decs results idx item = Inr (Some r) \<Longrightarrow> is_v3_family (dp_dex (snd item)) \<Longrightarrow> reg_from (snd item) r"
  using v3_pair_from [of decs results idx "fst item" "snd item"] by simp

lemma algebra_registration_from:
  "algebra_registration abi decs results idx item = Inr (Some r) \<Longrightarrow> is_algebra (dp_dex (snd item)) \<Longrightarrow> reg_from (snd item) r"
  using algebra_pair_from [of abi decs results idx "fst item" "snd item"] by simp

lemma v4_registration_from:
  "v4_registration anchors decs idx st = Inr (Some r) \<Longrightarrow> is_v4 (dp_dex (v4s_pool st)) \<Longrightarrow>
     dp_pool_id (v4s_pool st) = Some (v4s_id st) \<Longrightarrow> reg_from (v4s_pool st) r"
proof -
  assume r: "v4_registration anchors decs idx st = Inr (Some r)" and v: "is_v4 (dp_dex (v4s_pool st))"
    and i: "dp_pool_id (v4s_pool st) = Some (v4s_id st)"
  obtain r0 r1 where "virtual_reserves (v4s_price st) (v4s_liquidity st) = (r0, r1)" by fastforce
  then obtain c0 m where "m = pool_meta_of decs idx (v4s_pool st) UniV4 (v4s_fee st div 100) (v4s_fee st) (v4s_spacing st)
      (Some \<lparr>v4_pool_id = v4s_id st, v4_currency0 = c0, v4_currency1 = dp_token1 (v4s_pool st), v4_fee_pips = v4s_fee st,
              v4_tick_spacing = v4s_spacing st\<rparr>)" "reg_meta r = m"
    using r unfolding v4_registration_def Let_def rbind_eq_Inr by auto
  then show ?thesis using v i by (simp add: reg_from_def pool_meta_of_def is_v4_def)
qed

lemma v4_pending_from: "v4_pending abi results (n, p) = Inr (Some st) \<Longrightarrow> v4s_pool st = p \<and> dp_pool_id p = Some (v4s_id st)"
  by (auto simp: v4_pending_def split: option.splits if_splits prod.splits)

lemma v4_pending_subseq:
  "rmap (v4_pending abi results) (List.enumerate n pools) = Inr pend \<Longrightarrow>
     subseq (map v4s_pool (List.map_filter (\<lambda>x. x) pend)) pools \<and>
     (\<forall>st \<in> set (List.map_filter (\<lambda>x. x) pend). dp_pool_id (v4s_pool st) = Some (v4s_id st))"
proof (induction pools arbitrary: n pend)
  case (Cons p pools)
  obtain x xs where x: "v4_pending abi results (n, p) = Inr x" "rmap (v4_pending abi results) (List.enumerate (Suc n) pools) = Inr xs"
    "pend = x # xs" using Cons.prems by auto
  show ?case using Cons.IH [OF x(2)] x(1,3)
    by (cases x) (auto simp: map_filter_simps dest: v4_pending_from)
qed (simp add: map_filter_simps)

section \<open>Stages\<close>

lemma slots_snd: "map (snd \<circ> fst) (map (\<lambda>i. (xs ! i, g i)) [0..<length xs]) = map snd xs"
  by (rule nth_equalityI) simp_all

lemma v2_stage_extends:
  assumes "v2_stage env anchors decs ds regs w = (Inr (Inr regs'), w')"
  shows "extends (filter (\<lambda>p. is_v2_family (dp_dex p) \<or> dp_dex p = AeroStable) ds) regs regs'"
proof -
  let ?pools = "numbered_pools (\<lambda>p. is_v2_family (dp_dex p) \<or> dp_dex p = AeroStable) ds"
  obtain results fees where push: "push_regs (v2_registration (hy_abi env) anchors decs fees)
      (map (\<lambda>slot. (?pools ! slot, get results slot)) [0..<length ?pools]) regs = Inr regs'"
    using assms by (auto simp: v2_stage_def Let_def hbind_ok hpure_ok)
  have "extends (map (snd \<circ> fst) (map (\<lambda>slot. (?pools ! slot, get results slot)) [0..<length ?pools])) regs regs'"
    by (rule push_regs_extends [where g = "snd \<circ> fst", OF _ push]) (unfold comp_apply, rule v2_registration_from)
  moreover have "map (snd \<circ> fst) (map (\<lambda>slot. (?pools ! slot, get results slot)) [0..<length ?pools]) = map snd ?pools"
    by (rule slots_snd)
  ultimately show ?thesis by (simp only: numbered_pools_snd)
qed

lemma v3_stage_extends:
  assumes "v3_stage env decs ds regs w = (Inr (Inr regs'), w')"
  shows "extends (filter (\<lambda>p. is_v3_family (dp_dex p)) ds) regs regs'"
proof -
  let ?pools = "filter (\<lambda>p. is_v3_family (dp_dex p)) ds"
  obtain results where push: "push_regs (v3_registration decs results) (List.enumerate 0 ?pools) regs = Inr regs'"
    using assms by (auto simp: v3_stage_def Let_def hbind_ok hpure_ok)
  have "extends (map snd (List.enumerate 0 ?pools)) regs regs'"
    by (rule push_regs_extends [where g = snd, OF _ push]) (rule v3_registration_from, assumption, drule enumerate_snd, simp)
  then show ?thesis by simp
qed

lemma algebra_stage_extends:
  assumes "algebra_stage env decs ds regs w = (Inr (Inr regs'), w')"
  shows "extends (filter (\<lambda>p. is_algebra (dp_dex p)) ds) regs regs'"
proof -
  let ?pools = "filter (\<lambda>p. is_algebra (dp_dex p)) ds"
  obtain results where push: "push_regs (algebra_registration (hy_abi env) decs results) (List.enumerate 0 ?pools) regs = Inr regs'"
    using assms by (auto simp: algebra_stage_def Let_def hbind_ok hpure_ok)
  have "extends (map snd (List.enumerate 0 ?pools)) regs regs'"
    by (rule push_regs_extends [where g = snd, OF _ push]) (rule algebra_registration_from, assumption, drule enumerate_snd, simp)
  then show ?thesis by simp
qed

lemma v4_stage_extends:
  assumes "v4_stage env anchors decs ds regs w = (Inr (Inr regs'), w')"
  shows "extends (filter (\<lambda>p. is_v4 (dp_dex p)) ds) regs regs'"
proof -
  let ?pools = "filter (\<lambda>p. is_v4 (dp_dex p)) ds"
  obtain results pend where pend: "rmap (v4_pending (hy_abi env) results) (List.enumerate 0 ?pools) = Inr pend"
    and push: "push_regs (v4_registration anchors decs) (List.map_filter (\<lambda>x. x) pend) regs = Inr regs'"
    using assms by (auto simp: v4_stage_def Let_def hbind_ok hpure_ok)
  note sub = v4_pending_subseq [OF pend]
  have "is_v4 (dp_dex (v4s_pool st))" if "st \<in> set (List.map_filter (\<lambda>x. x) pend)" for st
  proof -
    have "v4s_pool st \<in> set (map v4s_pool (List.map_filter (\<lambda>x. x) pend))" using that by simp
    then have "v4s_pool st \<in> set ?pools" using list_emb_set [OF conjunct1 [OF sub]] by blast
    then show ?thesis by simp
  qed
  then have "extends (map v4s_pool (List.map_filter (\<lambda>x. x) pend)) regs regs'"
    by (intro push_regs_extends [OF _ push] v4_registration_from) (use sub in auto)
  then show ?thesis using sub by (blast intro: extends_subseq)
qed

section \<open>Registrations the registry accepts\<close>

lemma dedupe_loop_spec:
  "distinct (map dp_address (dedupe_loop seen ps)) \<and> dp_address ` set (dedupe_loop seen ps) \<inter> seen = {} \<and>
   subseq (dedupe_loop seen ps) ps \<and> dp_address ` set ps \<subseteq> seen \<union> dp_address ` set (dedupe_loop seen ps)"
proof (induction ps arbitrary: seen)
  case (Cons p ps)
  show ?case
  proof (cases "dp_address p \<in> seen")
    case True
    then show ?thesis using Cons.IH [of seen] by (auto intro: list_emb_Cons)
  next
    case False
    then show ?thesis using Cons.IH [of "insert (dp_address p) seen"] by auto
  qed
qed simp

lemma extends_trans:
  assumes "extends ps regs regs1" "extends qs regs1 regs2"
  shows "\<exists>ps' qs' new. regs2 = regs @ new \<and> subseq ps' ps \<and> subseq qs' qs \<and> list_all2 reg_from (ps' @ qs') new"
proof -
  obtain ps' new1 where "regs1 = regs @ new1" "subseq ps' ps" "list_all2 reg_from ps' new1"
    using assms(1) unfolding extends_def by blast
  moreover obtain qs' new2 where "regs2 = regs1 @ new2" "subseq qs' qs" "list_all2 reg_from qs' new2"
    using assms(2) unfolding extends_def by blast
  ultimately show ?thesis by (intro exI [of _ ps'] exI [of _ qs'] exI [of _ "new1 @ new2"]) (simp add: list_all2_appendI)
qed

text \<open>The families are disjoint, so no pool is registered twice.\<close>

lemma four_stages:
  assumes d: "distinct ds"
    and "extends (filter (\<lambda>p. is_v2_family (dp_dex p) \<or> dp_dex p = AeroStable) ds) [] regs1"
    and "extends (filter (\<lambda>p. is_v3_family (dp_dex p)) ds) regs1 regs2"
    and "extends (filter (\<lambda>p. is_algebra (dp_dex p)) ds) regs2 regs3"
    and "extends (filter (\<lambda>p. is_v4 (dp_dex p)) ds) regs3 regs"
  shows "\<exists>ps. list_all2 reg_from ps regs \<and> distinct ps \<and> set ps \<subseteq> set ds"
proof -
  obtain p2 p3 n1 where a: "regs2 = [] @ n1" "list_all2 reg_from (p2 @ p3) n1"
    "subseq p2 (filter (\<lambda>p. is_v2_family (dp_dex p) \<or> dp_dex p = AeroStable) ds)" "subseq p3 (filter (\<lambda>p. is_v3_family (dp_dex p)) ds)"
    using extends_trans [OF assms(2,3)] by blast
  obtain pa p4 n2 where b: "regs = regs2 @ n2" "list_all2 reg_from (pa @ p4) n2"
    "subseq pa (filter (\<lambda>p. is_algebra (dp_dex p)) ds)" "subseq p4 (filter (\<lambda>p. is_v4 (dp_dex p)) ds)"
    using extends_trans [OF assms(4,5)] by blast
  have "list_all2 reg_from ((p2 @ p3) @ (pa @ p4)) regs"
    unfolding a(1) b(1) append_Nil by (rule list_all2_appendI [OF a(2) b(2)])
  moreover have "distinct p2" "distinct p3" "distinct pa" "distinct p4"
    using subseq_distinct a(3,4) b(3,4) d by (blast intro: distinct_filter)+
  moreover note sets = subseq_set [OF a(3)] subseq_set [OF a(4)] subseq_set [OF b(3)] subseq_set [OF b(4)]
  have fam: "x \<in> set p2 \<Longrightarrow> dp_dex x \<in> {UniV2Fork, AeroVolatile, AeroStable}"
      "x \<in> set p3 \<Longrightarrow> dp_dex x \<in> {UniV3Fork, PancakeV3, Slipstream}"
      "x \<in> set pa \<Longrightarrow> dp_dex x = Algebra" "x \<in> set p4 \<Longrightarrow> dp_dex x = UniV4" for x
    using sets by (auto simp: dex_defs)
  have "set p2 \<inter> set p3 = {}" "set p2 \<inter> set pa = {}" "set p2 \<inter> set p4 = {}" "set p3 \<inter> set pa = {}"
    "set p3 \<inter> set p4 = {}" "set pa \<inter> set p4 = {}"
    using fam by fastforce+
  moreover have "set ((p2 @ p3) @ (pa @ p4)) \<subseteq> set ds" using sets by auto
  ultimately show ?thesis by (intro exI [of _ "(p2 @ p3) @ (pa @ p4)"]) auto
qed

lemma v4_ids_distinct:
  "distinct (map (pm_address \<circ> reg_meta) regs) \<Longrightarrow>
   (\<And>r v. r \<in> set regs \<Longrightarrow> pm_v4 (reg_meta r) = Some v \<Longrightarrow> pm_address (reg_meta r) = synthetic_address (v4_pool_id v)) \<Longrightarrow>
   distinct (v4_ids regs)"
proof (induction regs)
  case (Cons r regs)
  have ids: "\<exists>r' \<in> set regs. pm_address (reg_meta r') = synthetic_address i" if i: "i \<in> set (v4_ids regs)" for i
  proof -
    obtain r' v where "r' \<in> set regs" "pm_v4 (reg_meta r') = Some v" "i = v4_pool_id v"
      using i by (auto simp: v4_ids_def split: option.splits) metis
    then show ?thesis using Cons.prems(2) by (metis list.set_intros(2))
  qed
  show ?case
  proof (cases "pm_v4 (reg_meta r)")
    case None
    then show ?thesis using Cons by (simp add: v4_ids_Cons)
  next
    case (Some v)
    then have "pm_address (reg_meta r) = synthetic_address (v4_pool_id v)" using Cons.prems(2) by simp
    then have "v4_pool_id v \<notin> set (v4_ids regs)" using ids Cons.prems(1) by (force simp: comp_def)
    then show ?thesis using Cons Some by (simp add: v4_ids_Cons)
  qed
qed (simp add: v4_ids_def)

lemma reindex_from:
  assumes "r \<in> set (reindex regs)"
  shows "\<exists>r0 \<in> set regs. (\<forall>p. reg_from p r \<longleftrightarrow> reg_from p r0) \<and>
    pm_token0 (reg_meta r) = pm_token0 (reg_meta r0) \<and> pm_token1 (reg_meta r) = pm_token1 (reg_meta r0)"
proof -
  obtain x where "x \<in> set (List.enumerate 0 regs)" "r = (snd x)\<lparr>reg_meta := (reg_meta (snd x))\<lparr>pm_idx := of_nat (fst x)\<rparr>\<rparr>"
    using assms by (auto simp: reindex_def case_prod_beta)
  moreover then have "snd x \<in> set regs" by (intro enumerate_snd)
  ultimately show ?thesis by (intro bexI [of _ "snd x"]) (auto simp: reg_from_def)
qed

lemma regs_ok_filter_reindex:
  assumes "list_all2 reg_from ps regs" "distinct ps" "set ps \<subseteq> set ds" "distinct (map dp_address ds)" "list_all dp_ok ds"
  shows "regs_ok (reindex (filter P regs))"
proof -
  have addr: "map (pm_address \<circ> reg_meta) (reindex rs) = map (pm_address \<circ> reg_meta) rs" for rs
  proof -
    have "map (pm_address \<circ> reg_meta) (map (\<lambda>(i, reg). reg\<lparr>reg_meta := (reg_meta reg)\<lparr>pm_idx := of_nat i\<rparr>\<rparr>) (List.enumerate n rs)) =
        map (pm_address \<circ> reg_meta) rs" for n
      by (induction rs arbitrary: n) auto
    then show ?thesis by (simp add: reindex_def)
  qed
  have "map (pm_address \<circ> reg_meta) regs = map dp_address ps"
    using assms(1) by (induction rule: list_all2_induct) (auto simp: reg_from_def)
  moreover have "distinct (map dp_address ps)"
    using assms(2-4) by (auto simp: distinct_map intro: inj_on_subset)
  ultimately have d: "distinct (map (pm_address \<circ> reg_meta) (reindex (filter P regs)))"
    unfolding addr by (metis distinct_map_filter)
  have from_p: "\<exists>p \<in> set ds. reg_from p r" if "r \<in> set regs" for r
    using assms(1,3) that by (metis in_mono list_all2_iff in_set_conv_nth list_all2_nthD2 nth_mem)
  have ok: "is_v4 (pm_dex (reg_meta r)) = (pm_v4 (reg_meta r) \<noteq> None) \<and>
      (\<forall>v. pm_v4 (reg_meta r) = Some v \<longrightarrow> pm_address (reg_meta r) = synthetic_address (v4_pool_id v))"
    if r: "r \<in> set (reindex (filter P regs))" for r
  proof -
    obtain r0 where r0: "r0 \<in> set regs" "\<forall>p. reg_from p r \<longleftrightarrow> reg_from p r0" using reindex_from [OF r] by auto
    obtain p where p: "p \<in> set ds" "reg_from p r" using from_p [OF r0(1)] r0(2) by blast
    then have "dp_ok p" using assms(5) by (simp add: list_all_iff)
    then show ?thesis using p(2) by (auto simp: reg_from_def dp_ok_def split: if_splits)
  qed
  show ?thesis unfolding regs_ok_def using d ok v4_ids_distinct [OF d] by blast
qed

lemma reindex_idx: "i < length regs \<Longrightarrow> pm_idx (reg_meta (reindex regs ! i)) = of_nat i"
  by (simp add: reindex_def nth_enumerate_eq)

lemma length_reindex [simp]: "length (reindex regs) = length regs"
  by (simp add: reindex_def)

lemma hydrate_ok:
  assumes "hydrate env cfg discovered enforce file w = (Inr (Inr (regs, file')), w')"
  obtains decimals w1 all_regs ps bal where
    "fetch_decimals env (token_set (dedupe discovered)) w = (Inr (Inr decimals), w1)"
    "list_all2 reg_from ps all_regs" "distinct ps" "set ps \<subseteq> set (dedupe discovered)"
    "regs = reindex (apply_filter all_regs ((cf_filter cfg)\<lparr>token_blacklist := token_blacklist (cf_filter cfg) @
       fst (detect (hy_probe env) (dedupe discovered) decimals (cf_anchors cfg) (hy_cache_written env) file)\<rparr>) enforce bal (cf_anchors cfg))"
proof -
  let ?ds = "dedupe discovered" and ?as = "cf_anchors cfg"
  obtain decimals w1 regs1 w2 regs2 w3 regs3 w4 all_regs w5 bal w6 where run:
    "fetch_decimals env (token_set ?ds) w = (Inr (Inr decimals), w1)"
    "v2_stage env ?as decimals ?ds [] w1 = (Inr (Inr regs1), w2)"
    "v3_stage env decimals ?ds regs1 w2 = (Inr (Inr regs2), w3)"
    "algebra_stage env decimals ?ds regs2 w3 = (Inr (Inr regs3), w4)"
    "v4_stage env ?as decimals ?ds regs3 w4 = (Inr (Inr all_regs), w5)"
    "cl_anchor_bal env ?as enforce all_regs w5 = (Inr (Inr bal), w6)"
    "regs = reindex (apply_filter all_regs ((cf_filter cfg)\<lparr>token_blacklist := token_blacklist (cf_filter cfg) @
       fst (detect (hy_probe env) ?ds decimals ?as (hy_cache_written env) file)\<rparr>) enforce bal ?as)"
    using assms unfolding hydrate_def Let_def hbind_ok case_prod_beta hpure_ok by (elim exE conjE) simp
  have "distinct ?ds"
    using dedupe_loop_spec [of "{}" discovered] unfolding dedupe_def by (simp add: distinct_map)
  from four_stages [OF this v2_stage_extends [OF run(2)] v3_stage_extends [OF run(3)] algebra_stage_extends [OF run(4)]
      v4_stage_extends [OF run(5)]]
  obtain ps where "list_all2 reg_from ps all_regs" "distinct ps" "set ps \<subseteq> set ?ds" by blast
  then show ?thesis by (rule that [OF run(1) _ _ _ run(7)])
qed

lemma hydrate_sound:
  assumes "list_all dp_ok discovered" "hydrate env cfg discovered enforce file w = (Inr (Inr (regs, file')), w')"
  shows "(\<exists>e. engine_new regs = Inr e \<and> eng_metas e = map reg_meta regs) \<and>
    (\<forall>i < length regs. pm_idx (reg_meta (regs ! i)) = of_nat i) \<and>
    (\<forall>r \<in> set regs. \<exists>p \<in> set discovered. reg_from p r) \<and>
    (\<exists>decimals w1. fetch_decimals env (token_set (dedupe discovered)) w = (Inr (Inr decimals), w1) \<and>
      (\<forall>r \<in> set regs. {pm_token0 (reg_meta r), pm_token1 (reg_meta r)} \<inter> (set (token_blacklist (cf_filter cfg)) \<union>
         set (fst (detect (hy_probe env) (dedupe discovered) decimals (cf_anchors cfg) (hy_cache_written env) file))) = {}))"
proof -
  obtain decimals w1 all_regs ps bal where run:
    "fetch_decimals env (token_set (dedupe discovered)) w = (Inr (Inr decimals), w1)"
    "list_all2 reg_from ps all_regs" "distinct ps" "set ps \<subseteq> set (dedupe discovered)"
    "regs = reindex (apply_filter all_regs ((cf_filter cfg)\<lparr>token_blacklist := token_blacklist (cf_filter cfg) @
       fst (detect (hy_probe env) (dedupe discovered) decimals (cf_anchors cfg) (hy_cache_written env) file)\<rparr>) enforce bal (cf_anchors cfg))"
    by (rule hydrate_ok [OF assms(2)])
  have ded: "distinct (map dp_address (dedupe discovered))" "set (dedupe discovered) \<subseteq> set discovered"
    using dedupe_loop_spec [of "{}" discovered] subseq_set unfolding dedupe_def by blast+
  then have "list_all dp_ok (dedupe discovered)" using assms(1) by (auto simp: list_all_iff)
  then have "regs_ok regs"
    unfolding run(5) apply_filter_def by (rule regs_ok_filter_reindex [OF run(2,3,4) ded(1)])
  then have e: "\<exists>e. engine_new regs = Inr e \<and> eng_metas e = map reg_meta regs" by (simp add: engine_new_spec)
  have idx: "\<forall>i < length regs. pm_idx (reg_meta (regs ! i)) = of_nat i"
    unfolding run(5) by (simp add: reindex_idx)
  have src: "\<exists>p \<in> set discovered. reg_from p r" if r: "r \<in> set regs" for r
  proof -
    obtain r0 where "r0 \<in> set all_regs" "\<forall>p. reg_from p r \<longleftrightarrow> reg_from p r0"
      using reindex_from [OF r [unfolded run(5)]] by (auto simp: apply_filter_def)
    moreover then obtain p where "p \<in> set ps" "reg_from p r0"
      using run(2) by (metis in_set_conv_nth list_all2_conv_all_nth)
    ultimately show ?thesis using run(4) ded(2) by blast
  qed
  have black: "{pm_token0 (reg_meta r), pm_token1 (reg_meta r)} \<inter> (set (token_blacklist (cf_filter cfg)) \<union>
      set (fst (detect (hy_probe env) (dedupe discovered) decimals (cf_anchors cfg) (hy_cache_written env) file))) = {}"
    if r: "r \<in> set regs" for r
    using reindex_from [OF r [unfolded run(5)]] by (auto simp: apply_filter_def keeps_def Let_def split: if_splits)
  show ?thesis using e idx src run(1) black by blast
qed

section \<open>Properties\<close>

text \<open>C13. Whatever the node answers, registrations that come out of hydration are ones the registry accepts:
  construction does not fail one of its assertions, indices are positions, every registration is of a
  discovered pool, and none touches a blacklisted token or one found short on transfers.\<close>
theorem hydrate_registers:
  assumes "list_all dp_ok discovered" "hydrate env cfg discovered enforce file w = (Inr (Inr (regs, file')), w')"
  shows "(\<exists>e. engine_new regs = Inr e \<and> eng_metas e = map reg_meta regs) \<and>
    (\<forall>i < length regs. pm_idx (reg_meta (regs ! i)) = of_nat i) \<and>
    (\<forall>r \<in> set regs. \<exists>p \<in> set discovered. reg_from p r) \<and>
    (\<exists>decimals w1. fetch_decimals env (token_set (dedupe discovered)) w = (Inr (Inr decimals), w1) \<and>
      (\<forall>r \<in> set regs. {pm_token0 (reg_meta r), pm_token1 (reg_meta r)} \<inter> (set (token_blacklist (cf_filter cfg)) \<union>
         set (fst (detect (hy_probe env) (dedupe discovered) decimals (cf_anchors cfg) (hy_cache_written env) file))) = {}))"
  by (rule hydrate_sound [OF assms])

text \<open>A node that answers every call with the same word, and one pair of fair tokens with six decimals.\<close>

definition word_answer :: "u8 \<Rightarrow> u8 \<Rightarrow> mc_result" where
  "word_answer hi lo = \<lparr>rs_success = True, rs_data = hi # replicate 30 0 @ [lo]\<rparr>"

definition boot_abi :: hydrate_abi where
  "boot_abi =
     \<lparr>ha_uni_reserves = [1], ha_aero_reserves = [2], ha_get_fee = (\<lambda>_ _. [3]), ha_slot0 = [4], ha_liquidity = [5], ha_fee = [6],
      ha_global_state = [7], ha_algebra_liquidity = [8], ha_algebra_fee = [9], ha_v4_slot0 = (\<lambda>_. [10]), ha_v4_liquidity = (\<lambda>_. [11]),
      ha_decimals = [12], hd_uni_reserves = (\<lambda>_. Some (1000, 2000)), hd_aero_reserves = (\<lambda>_. None), hd_u256 = (\<lambda>_. None),
      hd_global_price = (\<lambda>_. None), hd_v4_slot0 = (\<lambda>_. Some (1, 0, 500))\<rparr>"

definition boot_node :: "u8 \<Rightarrow> (nat, mc_call3 list, unit, mc_result list) provider" where
  "boot_node hi q w = (Inr (map (\<lambda>_. word_answer hi 6) q), w + 1)"

definition boot_env :: "u8 \<Rightarrow> (nat, unit) hydrate_env" where
  "boot_env hi =
     \<lparr>hy_node = boot_node hi, hy_abi = boot_abi,
      hy_probe = sample_probes\<lparr>fp_call := (\<lambda>holder token relay recipient amount. Some amount)\<rparr>, hy_cache_written = True\<rparr>"

lemma boot_aggregate:
  assumes "calls \<noteq> []" "length calls \<le> n"
  shows "aggregate3 (boot_node hi) calls n w = (Inr (map (\<lambda>_. word_answer hi 6) calls), w + 1)"
proof -
  have n: "max n 1 = n" "n \<noteq> 0" using assms by (cases calls; simp)+
  then have c: "chunks n calls = [calls]" using assms chunks.simps [of n calls] chunks.simps [of n "[]"] by simp
  have "with_retries (boot_node hi) 5 q w = (Inr (map (\<lambda>_. word_answer hi 6) q), w + 1)" for q
    by (simp add: numeral_eq_Suc boot_node_def)
  then show ?thesis using c n by (simp add: aggregate3_def comp_def)
qed

lemma boot_hcalls:
  "hcalls (boot_env hi) [] w = (eok [], w)"
  "calls \<noteq> [] \<Longrightarrow> length calls \<le> 400 \<Longrightarrow>
    hcalls (boot_env hi) calls w = (eok (map (\<lambda>_. word_answer hi 6) calls), w + 1)"
  by (simp_all add: hcalls_def boot_env_def MC_BATCH_def boot_aggregate eok_def)

lemma foldl_be_zeros: "foldl (\<lambda>w (b :: u8). w * 256 + ucast b) (a :: 'w::len word) (replicate n 0) = a * 256 ^ n"
  by (induction n arbitrary: a) (simp_all add: mult_ac)

lemma be_word_answer: "be_word (take 32 (rs_data (word_answer hi lo))) = (ucast hi * 256 ^ 31 + ucast lo :: u256)"
  by (simp add: word_answer_def be_word_def foldl_be_zeros)

lemma boot_decimals:
  "\<exists>decs. fetch_decimals (boot_env 0) [7, 8] w = (Inr (Inr decs), w + 1) \<and> decs 7 = Some 6"
proof -
  have "decimals_entry (t, word_answer 0 6) = Inr (t, 6)" for t
    unfolding decimals_entry_def prod.case decode_u128_def be_word_answer by (simp add: word_answer_def to_u128_def)
  then show ?thesis
    by (simp add: fetch_decimals_def boot_hcalls hbind_def hpure_def eok_def decimals_of_def)
qed

lemma boot_empty:
  "v3_stage (boot_env 0) decs [sample_pair] regs w = (eok regs, w)"
  "algebra_stage (boot_env 0) decs [sample_pair] regs w = (eok regs, w)"
  "v4_stage (boot_env 0) anchors decs [sample_pair] regs w = (eok regs, w)"
  by (simp_all add: v3_stage_def algebra_stage_def v4_stage_def sample_pair_def dex_defs hcalls_def cl_calls_def v4_calls_def
      hbind_def hpure_def eok_def map_filter_simps)

lemma boot_v2:
  "\<exists>reg w'. v2_stage (boot_env 0) anchors decs [sample_pair] [] w = (Inr (Inr [reg]), w') \<and> reg_gate reg \<noteq> None \<and>
    pm_address (reg_meta reg) = 4 \<and> pm_token0 (reg_meta reg) = 7 \<and> pm_token1 (reg_meta reg) = 8 \<and> pm_dex (reg_meta reg) = UniV2Fork"
proof -
  let ?abi = "hy_abi (boot_env 0)" and ?uni = "\<lambda>p. is_v2_family (dp_dex p) \<or> dp_dex p = AeroStable"
  have uni: "numbered_pools ?uni [sample_pair] = [(0, sample_pair)]" "numbered_pools (\<lambda>p. is_aero (dp_dex p)) [sample_pair] = []"
    by (simp_all add: numbered_pools_def sample_pair_def dex_defs is_aero_def)
  have abi: "hd_uni_reserves ?abi = (\<lambda>_. Some (1000, 2000))" by (simp add: boot_env_def boot_abi_def)
  obtain reg where reg: "v2_registration ?abi anchors decs Map.empty 0 ((0, sample_pair), Some (word_answer 0 6)) = Inr (Some reg)"
    "reg_gate reg \<noteq> None" "pm_address (reg_meta reg) = 4" "pm_token0 (reg_meta reg) = 7" "pm_token1 (reg_meta reg) = 8"
    "pm_dex (reg_meta reg) = UniV2Fork"
    by (simp add: v2_registration_def sample_pair_def word_answer_def decode_reserves_v2ish_def abi pool_meta_of_def Let_def)
  have "v2_stage (boot_env 0) anchors decs [sample_pair] [] w = (Inr (Inr [reg]), w + 1)"
    using reg(1) by (simp add: v2_stage_def Let_def uni aero_fee_calls_def boot_hcalls hbind_def hpure_def eok_def get_def)
  then show ?thesis using reg(2-6) by blast
qed

lemma boot_probe:
  assumes "holders_of (an_token ` set anchors) ps = [(7, [h]), (8, [h])]"
  shows "fst (detect (hy_probe (boot_env 0)) ps decs anchors True None) = []"
proof -
  have v: "probe_token (hy_probe (boot_env 0)) t [h] d = Some False" for t d
  proof -
    have "\<not> amount < min_received amount" for amount
    proof -
      have "amount div 10000 \<le> amount" by (simp add: word_le_nat_alt unat_div)
      then show ?thesis
        by (simp add: min_received_def TOLERANCE_BPS_def not_less word_le_nat_alt unat_sub unat_div)
    qed
    then show ?thesis by (simp add: probe_token_def probe_one_def boot_env_def sample_probes_def Let_def)
  qed
  have env: "fp_order (hy_probe (boot_env 0)) = rev" by (simp add: boot_env_def sample_probes_def)
  have "list_all (\<lambda>(_, b). \<not> b) (foldl (record_verdict (hy_probe (boot_env 0)) decs) [] [(8, [h]), (7, [h])])"
    by (simp add: record_verdict_def v)
  then have "filter (\<lambda>(_, bad). bad) (foldl (record_verdict (hy_probe (boot_env 0)) decs) [] [(8, [h]), (7, [h])]) = []"
    by (auto simp: filter_empty_conv list_all_iff)
  then show ?thesis using assms by (simp add: detect_def probed_cache_def env map_filter_simps)
qed

text \<open>A pool of the tokens 7 and 8 whose registration has a depth estimate passes a filter without lists.\<close>

lemma boot_finish:
  assumes "7 \<notin> an_token ` set (cf_anchors cfg)" "8 \<notin> an_token ` set (cf_anchors cfg)" "cf_filter cfg = default_filter_config"
    and "dp_token0 p = 7" "dp_token1 p = 8" "dedupe ps = [p]"
    and "v2_stage (boot_env 0) (cf_anchors cfg) decs [p] [] (Suc w) = (Inr (Inr regs1), w1)"
    and "v3_stage (boot_env 0) decs [p] regs1 w1 = (Inr (Inr regs1), w1)"
    and "algebra_stage (boot_env 0) decs [p] regs1 w1 = (Inr (Inr regs1), w1)"
    and "v4_stage (boot_env 0) (cf_anchors cfg) decs [p] regs1 w1 = (Inr (Inr [reg]), w2)"
    and "reg_gate reg \<noteq> None" "pm_token0 (reg_meta reg) = 7" "pm_token1 (reg_meta reg) = 8"
    and "fetch_decimals (boot_env 0) [7, 8] w = (Inr (Inr decs), Suc w)"
  shows "\<exists>cached. hydrate (boot_env 0) cfg ps enforce None w = (Inr (Inr (reindex [reg], cached)), w2)"
proof -
  let ?as = "cf_anchors cfg"
  have H: "\<exists>h. holders_of (an_token ` set ?as) [p] = [(7, [h]), (8, [h])]"
    using assms(1,2,4,5)
    by (simp add: holders_of_def touches_def touch_holder.simps push_holder_def MAX_HOLDERS_PER_TOKEN_def)
  have t: "token_set [p] = [7, 8]" using assms(4,5) by (simp add: token_set_def)
  have "cl_targets ?as [reg] = []" using assms(11) by (auto simp: cl_targets_def)
  then have "\<exists>bal. cl_anchor_bal (boot_env 0) ?as enforce [reg] w2 = (Inr (Inr bal), w2)"
    by (simp add: cl_anchor_bal_def boot_hcalls hbind_def hpure_def eok_def)
  then obtain bal where bal: "cl_anchor_bal (boot_env 0) ?as enforce [reg] w2 = (Inr (Inr bal), w2)" by blast
  have "filter (\<lambda>a. an_token a = 7 \<or> an_token a = 8) ?as = []" using assms(1,2) by (auto simp: filter_empty_conv)
  then have deep: "anchor_liquidity reg bal ?as" by (simp add: anchor_liquidity_def assms(12,13) eq_commute [of _ "an_token _"] Let_def)
  have env: "hy_cache_written (boot_env 0)" by (simp add: boot_env_def)
  have "apply_filter [reg] ((cf_filter cfg)\<lparr>token_blacklist := token_blacklist (cf_filter cfg) @ []\<rparr>) enforce bal ?as = [reg]"
    using deep by (simp add: apply_filter_def keeps_def default_filter_config_def assms(3,12,13) Let_def)
  then show ?thesis
    using H boot_probe [of ?as "[p]" _ decs] env
    by (auto simp: hydrate_def assms(6-10,14) t bal hbind_def hpure_def eok_def case_prod_beta Let_def)
qed

lemma boot_run:
  assumes "7 \<notin> an_token ` set (cf_anchors cfg)" "8 \<notin> an_token ` set (cf_anchors cfg)" "cf_filter cfg = default_filter_config"
    and "ps = [sample_pair] \<or> ps = [sample_pair, sample_pair]"
  shows "\<exists>reg cached w'. hydrate (boot_env 0) cfg ps enforce None w = (Inr (Inr ([reg], cached)), w') \<and>
    pm_address (reg_meta reg) = 4 \<and> pm_idx (reg_meta reg) = 0 \<and> pm_dex (reg_meta reg) = UniV2Fork"
proof -
  have d: "dedupe ps = [sample_pair]" using assms(4) by (safe; code_simp)+
  obtain decs where decs: "fetch_decimals (boot_env 0) [7, 8] w = (Inr (Inr decs), Suc w)" using boot_decimals [of w] by auto
  obtain reg w1 where reg: "v2_stage (boot_env 0) (cf_anchors cfg) decs [sample_pair] [] (Suc w) = (Inr (Inr [reg]), w1)"
    "reg_gate reg \<noteq> None" "pm_address (reg_meta reg) = 4" "pm_token0 (reg_meta reg) = 7" "pm_token1 (reg_meta reg) = 8"
    "pm_dex (reg_meta reg) = UniV2Fork"
    using boot_v2 by blast
  have p: "dp_token0 sample_pair = 7" "dp_token1 sample_pair = 8" by (simp_all add: sample_pair_def)
  let ?r = "reg\<lparr>reg_meta := (reg_meta reg)\<lparr>pm_idx := 0\<rparr>\<rparr>"
  obtain cached where "hydrate (boot_env 0) cfg ps enforce None w = (Inr (Inr ([?r], cached)), w1)"
    using boot_finish [OF assms(1-3) p d reg(1) boot_empty [unfolded eok_def] reg(2,4,5) decs, of enforce] by (auto simp: reindex_def)
  then show ?thesis using reg(3,6) by (intro exI [of _ ?r] exI conjI) simp_all
qed

text \<open>The same node's view of a V4 pool: price 1, no protocol fee, the fee of its key.\<close>

definition sample_v4 :: discovered_pool where
  "sample_v4 =
     \<lparr>dp_address = synthetic_address 5, dp_dex = UniV4, dp_factory = UNIV4_POOL_MANAGER, dp_token0 = 7, dp_token1 = 8,
      dp_fee_pips = Some 500, dp_tick_spacing = Some 10, dp_fee_bps = None, dp_pool_id = Some 5, dp_currency0_raw = Some 7\<rparr>"

lemma boot_v4:
  "v2_stage (boot_env 0) anchors decs [sample_v4] [] w = (eok [], w)"
  "v3_stage (boot_env 0) decs [sample_v4] [] w = (eok [], w)"
  "algebra_stage (boot_env 0) decs [sample_v4] [] w = (eok [], w)"
  "\<exists>reg. v4_stage (boot_env 0) anchors decs [sample_v4] [] w = (Inr (Inr [reg]), Suc w) \<and> reg_gate reg \<noteq> None \<and>
    pm_token0 (reg_meta reg) = 7 \<and> pm_token1 (reg_meta reg) = 8 \<and> pm_dex (reg_meta reg) = UniV4"
proof -
  show "v2_stage (boot_env 0) anchors decs [sample_v4] [] w = (eok [], w)"
    "v3_stage (boot_env 0) decs [sample_v4] [] w = (eok [], w)"
    "algebra_stage (boot_env 0) decs [sample_v4] [] w = (eok [], w)"
    by (simp_all add: v2_stage_def v3_stage_def algebra_stage_def sample_v4_def dex_defs numbered_pools_def is_aero_def aero_fee_calls_def
        boot_hcalls cl_calls_def hbind_def hpure_def eok_def)
  have u: "decode_u128 (rs_data (word_answer 0 6)) = Inr (Some 6)"
    unfolding decode_u128_def be_word_answer by (simp add: word_answer_def to_u128_def)
  obtain r0 r1 where vr: "virtual_reserves 1 6 = (r0, r1)" by fastforce
  let ?st = "\<lparr>v4s_pool = sample_v4, v4s_id = 5, v4s_price = 1, v4s_liquidity = 6, v4s_fee = 500, v4s_spacing = 10\<rparr>"
  have "v4_pending (hy_abi (boot_env 0)) [word_answer 0 6, word_answer 0 6] (0, sample_v4) = Inr (Some ?st)"
    using u by (simp add: v4_pending_def sample_v4_def get_def word_answer_def boot_env_def boot_abi_def)
  moreover obtain reg where "v4_registration anchors decs 0 ?st = Inr (Some reg)" "reg_gate reg \<noteq> None"
    "pm_token0 (reg_meta reg) = 7" "pm_token1 (reg_meta reg) = 8" "pm_dex (reg_meta reg) = UniV4"
    by (simp add: v4_registration_def sample_v4_def vr pool_meta_of_def Let_def)
  moreover have "is_v4 (dp_dex sample_v4)" "dp_pool_id sample_v4 = Some 5" by (simp_all add: sample_v4_def is_v4_def)
  ultimately show "\<exists>reg. v4_stage (boot_env 0) anchors decs [sample_v4] [] w = (Inr (Inr [reg]), Suc w) \<and> reg_gate reg \<noteq> None \<and>
    pm_token0 (reg_meta reg) = 7 \<and> pm_token1 (reg_meta reg) = 8 \<and> pm_dex (reg_meta reg) = UniV4"
    by (simp add: v4_stage_def v4_calls_def boot_hcalls hbind_def hpure_def eok_def map_filter_simps Let_def)
qed

lemma boot_v4_run:
  assumes "7 \<notin> an_token ` set (cf_anchors cfg)" "8 \<notin> an_token ` set (cf_anchors cfg)" "cf_filter cfg = default_filter_config"
  shows "\<exists>reg cached w'. hydrate (boot_env 0) cfg [sample_v4] enforce None w = (Inr (Inr ([reg], cached)), w') \<and>
    pm_dex (reg_meta reg) = UniV4"
proof -
  obtain decs where decs: "fetch_decimals (boot_env 0) [7, 8] w = (Inr (Inr decs), Suc w)" using boot_decimals [of w] by auto
  obtain reg where reg: "v4_stage (boot_env 0) (cf_anchors cfg) decs [sample_v4] [] (Suc w) = (Inr (Inr [reg]), Suc (Suc w))"
    "reg_gate reg \<noteq> None" "pm_token0 (reg_meta reg) = 7" "pm_token1 (reg_meta reg) = 8" "pm_dex (reg_meta reg) = UniV4"
    using boot_v4(4) by blast
  have p: "dp_token0 sample_v4 = 7" "dp_token1 sample_v4 = 8" "dedupe [sample_v4] = [sample_v4]"
    by (simp_all add: sample_v4_def dedupe_def)
  let ?r = "reg\<lparr>reg_meta := (reg_meta reg)\<lparr>pm_idx := 0\<rparr>\<rparr>"
  obtain cached where "hydrate (boot_env 0) cfg [sample_v4] enforce None w = (Inr (Inr ([?r], cached)), Suc (Suc w))"
    using boot_finish [OF assms p boot_v4(1-3) [unfolded eok_def] reg(1-4) decs, of enforce] by (auto simp: reindex_def)
  then show ?thesis using reg(5) by (intro exI [of _ ?r] exI conjI) simp_all
qed

lemma sample_config_anchors: "cf_anchors sample_config = []" "cf_filter sample_config = default_filter_config"
  by (simp_all add: sample_config_def)

theorem hydrate_registers_witness:
  "\<exists>regs file' w' e. hydrate (boot_env 0) sample_config [sample_pair, sample_pair] False None 0 = (Inr (Inr (regs, file')), w') \<and>
    map (\<lambda>r. pm_address (reg_meta r)) regs = [4] \<and> engine_new regs = Inr e"
proof -
  obtain reg cached w' where run: "hydrate (boot_env 0) sample_config [sample_pair, sample_pair] False None 0 = (Inr (Inr ([reg], cached)), w')"
    "pm_address (reg_meta reg) = 4"
    using boot_run [of sample_config "[sample_pair, sample_pair]" False 0] unfolding sample_config_anchors by auto
  have "list_all dp_ok [sample_pair, sample_pair]" by (simp add: dp_ok_def sample_pair_def is_v4_def)
  from hydrate_registers [OF this run(1)] obtain e where "engine_new [reg] = Inr e" by (elim conjE exE)
  then show ?thesis using run by (intro exI conjI) (assumption | simp)+
qed

text \<open>One token can keep the whole program from starting: if its decimals view returns a word of 2^128 or
  more, decoding that answer panics, whatever the other pools look like.\<close>
lemma hydrate_panics:
  assumes "hcalls env (map (\<lambda>t. \<lparr>mc_target = t, mc_calldata = ha_decimals (hy_abi env)\<rparr>) (token_set (dedupe discovered))) w =
      (Inr (Inr results), w_read)"
    and "(t, r) \<in> set (zip (token_set (dedupe discovered)) results)" "rs_success r" "32 \<le> length (rs_data r)"
    and "2 ^ 128 \<le> unat (be_word (take 32 (rs_data r)) :: u256)"
  shows "hydrate env cfg discovered enforce file w = (Inl ConversionLoss, w_read)"
proof -
  have one: "decimals_entry x = Inl ConversionLoss \<or> \<not> isl (decimals_entry x)" for x
    by (cases x) (auto simp: decimals_entry_def decode_u128_def to_u128_def rbind_def)
  have "rmap decimals_entry xs = Inl ConversionLoss" if "(t, r) \<in> set xs" for xs
    using that
  proof (induction xs)
    case (Cons x xs)
    have "decimals_entry (t, r) = Inl ConversionLoss"
      using assms(3-5) by (simp add: decimals_entry_def decode_u128_def to_u128_def)
    then show ?case using Cons one [of x] by (auto simp: rbind_def split: sum.split)
  qed simp
  then have "decimals_of (token_set (dedupe discovered)) results = Inl ConversionLoss"
    using assms(2) by (simp add: decimals_of_def)
  then have "fetch_decimals env (token_set (dedupe discovered)) w = (Inl ConversionLoss, w_read)"
    using assms(1) by (simp add: fetch_decimals_def hbind_def hpure_def)
  then show ?thesis by (simp add: hydrate_def Let_def hbind_def)
qed

lemma hydrate_panics_witness:
  "fst (hydrate (boot_env 1) sample_config [sample_pair] False None 0) = Inl ConversionLoss"
proof -
  let ?r = "word_answer 1 6"
  have t: "token_set (dedupe [sample_pair]) = [7, 8]" by code_simp
  have "hcalls (boot_env 1) (map (\<lambda>t. \<lparr>mc_target = t, mc_calldata = ha_decimals (hy_abi (boot_env 1))\<rparr>) [7, 8]) 0 = (Inr (Inr [?r, ?r]), 1)"
    by (simp add: boot_hcalls eok_def)
  moreover have "2 ^ 128 \<le> unat (be_word (take 32 (rs_data ?r)) :: u256)" unfolding be_word_answer by simp
  ultimately have "hydrate (boot_env 1) sample_config [sample_pair] False None 0 = (Inl ConversionLoss, 1)"
    using hydrate_panics [where discovered = "[sample_pair]" and t = 7 and r = ?r and results = "[?r, ?r]" and w_read = "1 :: nat"
        and w = 0 and env = "boot_env 1"] by (simp add: t word_answer_def)
  then show ?thesis by simp
qed

end
