(* ===== verification/Loader.thy ===== *)
theory Loader
  imports Bootstrap
begin

text \<open>
  Pinned pools, \<^verbatim>\<open>src/ingest/loader.rs\<close>: pins with an address are classified by the factory the pool names
  on chain, Uniswap V4 pins by their key or by an id found in the discovery cache, and only V4 pools
  that the chain knows survive.  The node, the ABI coders, keccak and the cache files are parameters.
\<close>

section \<open>Parameters\<close>

definition PIN_MC_BATCH :: nat where
  "PIN_MC_BATCH = 200"

definition CALLS_PER_PIN :: nat where
  "CALLS_PER_PIN = 6"

record pin_abi = hydrate_abi +
  pa_token0 :: "u8 list"
  pa_token1 :: "u8 list"
  pa_tick_spacing :: "u8 list"
  pa_stable :: "u8 list"
  pd_tick_spacing :: "u8 list \<Rightarrow> int option"
  pd_fee :: "u8 list \<Rightarrow> 24 word option"
  pd_stable :: "u8 list \<Rightarrow> bool option"

record ('w, 'e) pin_env =
  pe_node :: "('w, mc_call3 list, 'e, mc_result list) provider"
  pe_abi :: pin_abi
  pe_keccak :: "u8 list \<Rightarrow> b256"
  pe_disk :: disk

datatype 'e pin_error = AmbiguousPin string | MissingAddress string | PinNode 'e

definition pin_calls :: "('w, 'e) pin_env \<Rightarrow> mc_call list \<Rightarrow> ('w, 'e pin_error, mc_result list) hydrating" where
  "pin_calls env calls w =
     (case aggregate3 (pe_node env) calls PIN_MC_BATCH w of
        (Inl e, w1) \<Rightarrow> (Inr (Inl (PinNode e)), w1)
      | (Inr rs, w1) \<Rightarrow> (eok rs, w1))"

definition hfail :: "'e \<Rightarrow> ('w, 'e, 'a) hydrating" where
  "hfail e w = (Inr (Inl e), w)"

definition factory_calldata :: "u8 list" where
  "factory_calldata = [0xc4, 0x5a, 0x01, 0x55]"

definition decode_addr :: "u8 list \<Rightarrow> address option" where
  "decode_addr data = (if length data < 32 then None else Some (be_word (take 20 (drop 12 data))))"

section \<open>Pins with an address\<close>

definition by_factory :: "dex_config list \<Rightarrow> address \<rightharpoonup> dex_config" where
  "by_factory dexes = foldl (\<lambda>m d. m(dc_factory d \<mapsto> d)) Map.empty dexes"

definition probe_calls :: "pin_abi \<Rightarrow> pool_pin \<Rightarrow> mc_call list res" where
  "probe_calls abi pin =
     rbind (from_option ExpectFailed (pin_address pin)) (\<lambda>a.
       Inr (map (\<lambda>cd. \<lparr>mc_target = a, mc_calldata = cd\<rparr>)
         [pa_token0 abi, pa_token1 abi, factory_calldata, pa_tick_spacing abi, ha_fee abi, pa_stable abi]))"

text \<open>The return data of a call that succeeded.\<close>

definition returned :: "mc_result list \<Rightarrow> nat \<Rightarrow> u8 list option" where
  "returned res i = (case get res i of Some r \<Rightarrow> if rs_success r then Some (rs_data r) else None | None \<Rightarrow> None)"

definition pinned_pool ::
    "address \<Rightarrow> dex_tag \<Rightarrow> address \<Rightarrow> address \<Rightarrow> address \<Rightarrow> u32 option \<Rightarrow> int option \<Rightarrow> u32 option \<Rightarrow> discovered_pool" where
  "pinned_pool a tag factory token0 token1 fee_pips tick_spacing fee_bps =
     \<lparr>dp_address = a, dp_dex = tag, dp_factory = factory, dp_token0 = token0, dp_token1 = token1, dp_fee_pips = fee_pips,
      dp_tick_spacing = tick_spacing, dp_fee_bps = fee_bps, dp_pool_id = None, dp_currency0_raw = None\<rparr>"

definition classify ::
    "dex_config \<Rightarrow> address \<Rightarrow> address \<Rightarrow> address \<Rightarrow> address \<Rightarrow> int option \<Rightarrow> u32 option \<Rightarrow> bool option \<Rightarrow> discovered_pool option" where
  "classify dex a factory token0 token1 tick_spacing fee_pips is_stable =
     (if dc_kind dex = ''v2'' then Some (pinned_pool a UniV2Fork factory token0 token1 None None (dc_fee_bps dex))
      else if dc_kind dex = ''aero'' then
        Some (pinned_pool a (if (case is_stable of Some b \<Rightarrow> b | None \<Rightarrow> False) then AeroStable else AeroVolatile)
                factory token0 token1 None None None)
      else if dc_kind dex = ''v3'' \<or> dc_kind dex = ''pancake_v3'' \<or> dc_kind dex = ''slipstream'' then
        let tag = (if dc_kind dex = ''pancake_v3'' then PancakeV3 else if dc_kind dex = ''slipstream'' then Slipstream else UniV3Fork)
        in Some (pinned_pool a tag factory token0 token1 fee_pips tick_spacing None)
      else if dc_kind dex = ''algebra'' then Some (pinned_pool a Algebra factory token0 token1 None tick_spacing None)
      else None)"

definition address_pin :: "pin_abi \<Rightarrow> dex_config list \<Rightarrow> mc_result list \<Rightarrow> nat \<times> pool_pin \<Rightarrow> discovered_pool option res" where
  "address_pin abi dexes res item =
     (case item of (i, pin) \<Rightarrow>
        rbind (from_option ExpectFailed (pin_address pin)) (\<lambda>a.
        let base = i * CALLS_PER_PIN;
            token0 = Option.bind (returned res base) decode_addr;
            token1 = Option.bind (returned res (base + 1)) decode_addr;
            factory = Option.bind (returned res (base + 2)) decode_addr;
            tick_spacing = Option.bind (returned res (base + 3)) (pd_tick_spacing abi);
            fee_pips = map_option ucast (Option.bind (returned res (base + 4)) (pd_fee abi));
            is_stable = Option.bind (returned res (base + 5)) (pd_stable abi)
        in Inr (case (token0, token1) of
             (Some t0, Some t1) \<Rightarrow>
               (case factory of
                  None \<Rightarrow> None
                | Some f \<Rightarrow>
                    (case by_factory dexes f of
                       None \<Rightarrow> None
                     | Some dex \<Rightarrow> classify dex a f t0 t1 tick_spacing fee_pips is_stable))
           | _ \<Rightarrow> None)))"

definition load_address_pins ::
    "('w, 'e) pin_env \<Rightarrow> config \<Rightarrow> pool_pin list \<Rightarrow> ('w, 'e pin_error, discovered_pool list) hydrating" where
  "load_address_pins env cfg pins =
     (if pins = [] then hpure (Inr [])
      else
        hbind (hpure (rmap (probe_calls (pe_abi env)) pins)) (\<lambda>calls.
        hbind (pin_calls env (concat calls)) (\<lambda>res.
        hbind (hpure (rmap (address_pin (pe_abi env) (cf_dexes cfg) res) (List.enumerate 0 pins))) (\<lambda>found.
          hpure (Inr (List.map_filter (\<lambda>x. x) found))))))"

section \<open>Uniswap V4 pins\<close>

text \<open>
  The id index of a protocol's cache file.  The source keeps the index of each file it has read for the
  rest of the call; the files do not change meanwhile, so the model reads them where they are used.
\<close>

definition cached_by_id :: "disk \<Rightarrow> string \<Rightarrow> b256 \<rightharpoonup> discovered_pool" where
  "cached_by_id disk name =
     foldl (\<lambda>m dp. case dp_pool_id dp of Some pid \<Rightarrow> m(pid \<mapsto> dp) | None \<Rightarrow> m) Map.empty (cached_pools disk name)"

definition v4_pin :: "('w, 'e) pin_env \<Rightarrow> dex_config list \<Rightarrow> pool_pin \<Rightarrow> ('e pin_error, discovered_pool option) eres" where
  "v4_pin env dexes pin =
     (case List.find (\<lambda>d. dc_name d = pin_dex pin) dexes of
        None \<Rightarrow> eok None
      | Some dex \<Rightarrow>
          if dc_kind dex \<noteq> ''v4'' then Inr (Inl (MissingAddress (pin_dex pin)))
          else (case (pin_currency0 pin, pin_currency1 pin, pin_fee pin, pin_tick_spacing pin) of
            (Some c0, Some c1, Some fee, Some ts) \<Rightarrow>
              if \<not> (- 8388608 \<le> ts \<and> ts \<le> 8388607) \<or> UNIV4_MAX_LP_FEE < fee then eok None
              else rbind (pool_id_of (pe_keccak env) c0 c1 fee ts) (\<lambda>pid.
                     eok (v4_pool_from_key (dc_factory dex) pid c0 c1 fee ts 0))
          | _ \<Rightarrow>
              (case pin_pool_id pin of
                 Some pid \<Rightarrow> eok (cached_by_id (pe_disk env) (dc_name dex) pid)
               | None \<Rightarrow> eok None)))"

fun v4_candidates :: "('w, 'e) pin_env \<Rightarrow> dex_config list \<Rightarrow> pool_pin list \<Rightarrow> ('e pin_error, discovered_pool list) eres" where
  "v4_candidates env dexes [] = eok []"
| "v4_candidates env dexes (pin # pins) =
     ebind (v4_pin env dexes pin) (\<lambda>dp.
     ebind (v4_candidates env dexes pins) (\<lambda>dps. eok (case dp of Some p \<Rightarrow> p # dps | None \<Rightarrow> dps)))"

definition live_probe :: "pin_abi \<Rightarrow> discovered_pool \<Rightarrow> mc_call res" where
  "live_probe abi dp =
     rbind (from_option ExpectFailed (dp_pool_id dp)) (\<lambda>pid.
       Inr \<lparr>mc_target = UNIV4_STATE_VIEW, mc_calldata = ha_v4_slot0 abi pid\<rparr>)"

definition v4_live :: "pin_abi \<Rightarrow> mc_result \<Rightarrow> bool" where
  "v4_live abi r \<longleftrightarrow> rs_success r \<and> (case hd_v4_slot0 abi (rs_data r) of Some (price, _, _) \<Rightarrow> price \<noteq> 0 | None \<Rightarrow> False)"

definition load_v4_pins ::
    "('w, 'e) pin_env \<Rightarrow> config \<Rightarrow> pool_pin list \<Rightarrow> ('w, 'e pin_error, discovered_pool list) hydrating" where
  "load_v4_pins env cfg pins =
     (if pins = [] then hpure (Inr [])
      else
        hbind (\<lambda>w. (v4_candidates env (cf_dexes cfg) pins, w)) (\<lambda>candidates.
        hbind (hpure (rmap (live_probe (pe_abi env)) candidates)) (\<lambda>calls.
        hbind (pin_calls env calls) (\<lambda>res.
          hpure (Inr (map fst (filter (\<lambda>(dp, r). v4_live (pe_abi env) r) (zip candidates res))))))))"

section \<open>All pins\<close>

definition ambiguous :: "pool_pin \<Rightarrow> bool" where
  "ambiguous p \<longleftrightarrow> pin_address p \<noteq> None \<and> (pin_pool_id p \<noteq> None \<or> pin_currency0 p \<noteq> None \<or> pin_currency1 p \<noteq> None)"

definition load_pinned_pools ::
    "('w, 'e) pin_env \<Rightarrow> config \<Rightarrow> pool_pin list \<Rightarrow> ('w, 'e pin_error, discovered_pool list) hydrating" where
  "load_pinned_pools env cfg pins =
     (case List.find ambiguous pins of
        Some p \<Rightarrow> hfail (AmbiguousPin (pin_dex p))
      | None \<Rightarrow>
          (case List.partition (\<lambda>p. pin_address p \<noteq> None) pins of (addr_pins, v4_pins) \<Rightarrow>
             hbind (load_address_pins env cfg addr_pins) (\<lambda>out1.
             hbind (load_v4_pins env cfg v4_pins) (\<lambda>out2.
               hpure (Inr (out1 @ out2))))))"

section \<open>What comes out\<close>

lemma hbind_total:
  assumes "\<not> isl (fst (m w))" "\<And>a w1. m w = (Inr (Inr a), w1) \<Longrightarrow> \<not> isl (fst (f a w1))"
  shows "\<not> isl (fst (hbind m f w))"
  using assms by (auto simp: hbind_def split: prod.splits sum.splits)

lemma hpure_total: "\<not> isl (fst (hpure (Inr a) w))" "\<exists>a. r = Inr a \<Longrightarrow> \<not> isl (fst (hpure r w))"
  by (auto simp: hpure_def eok_def)

lemma pin_calls_total: "\<not> isl (fst (pin_calls env calls w))"
  by (simp add: pin_calls_def eok_def split: prod.split sum.split)

lemma by_factory_key: "by_factory dexes f = Some d \<Longrightarrow> d \<in> set dexes \<and> dc_factory d = f"
proof -
  have "foldl (\<lambda>m d. m(dc_factory d \<mapsto> d)) m ds f = Some d \<Longrightarrow> m f = Some d \<or> d \<in> set ds \<and> dc_factory d = f" for m ds
  proof (induction ds arbitrary: m)
    case (Cons a ds)
    from Cons.IH [OF Cons.prems [unfolded foldl_Cons]] show ?case by (auto split: if_splits)
  qed simp
  then show "by_factory dexes f = Some d \<Longrightarrow> d \<in> set dexes \<and> dc_factory d = f"
    unfolding by_factory_def by fastforce
qed

lemma cached_by_id_Some: "cached_by_id disk name pid = Some dp \<Longrightarrow> dp \<in> set (cached_pools disk name) \<and> dp_pool_id dp = Some pid"
proof -
  have "foldl (\<lambda>m dp. case dp_pool_id dp of Some pid \<Rightarrow> m(pid \<mapsto> dp) | None \<Rightarrow> m) m ds pid = Some dp \<Longrightarrow>
      m pid = Some dp \<or> dp \<in> set ds \<and> dp_pool_id dp = Some pid" for m ds
  proof (induction ds arbitrary: m)
    case (Cons a ds)
    from Cons.IH [OF Cons.prems [unfolded foldl_Cons]] show ?case by (auto split: if_splits option.splits)
  qed simp
  then show "cached_by_id disk name pid = Some dp \<Longrightarrow> dp \<in> set (cached_pools disk name) \<and> dp_pool_id dp = Some pid"
    unfolding cached_by_id_def by fastforce
qed

text \<open>The tags a protocol kind may give a pinned pool, and what a pool has to do with its pin.\<close>

definition tags_of :: "string \<Rightarrow> dex_tag list" where
  "tags_of kind =
     (if kind = ''v2'' then [UniV2Fork] else if kind = ''aero'' then [AeroVolatile, AeroStable]
      else if kind = ''v3'' then [UniV3Fork] else if kind = ''pancake_v3'' then [PancakeV3]
      else if kind = ''slipstream'' then [Slipstream] else if kind = ''algebra'' then [Algebra]
      else if kind = ''v4'' then [UniV4] else [])"

definition pin_origin :: "dex_config list \<Rightarrow> pool_pin \<Rightarrow> discovered_pool \<Rightarrow> bool" where
  "pin_origin dexes pin dp \<longleftrightarrow>
     (\<exists>d \<in> set dexes. dp_dex dp \<in> set (tags_of (dc_kind d)) \<and>
        (case pin_address pin of
           Some a \<Rightarrow> dp_address dp = a \<and> dp_factory dp = dc_factory d
         | None \<Rightarrow> dc_kind d = ''v4'' \<and> dc_name d = pin_dex pin))"

lemma classify_Some:
  assumes "classify dex a f t0 t1 ts fee st = Some dp"
  shows "dp_ok dp \<and> dp_address dp = a \<and> dp_factory dp = f \<and> dp_dex dp \<in> set (tags_of (dc_kind dex))"
  using assms
  by (auto simp: classify_def pinned_pool_def dp_ok_def is_v4_def tags_of_def Let_def split: if_splits option.splits)

lemma address_pin_Some:
  assumes "address_pin abi dexes res (i, pin) = Inr (Some dp)"
  shows "dp_ok dp \<and> pin_origin dexes pin dp"
proof -
  obtain a f dex t0 t1 ts fee st where c: "pin_address pin = Some a" "by_factory dexes f = Some dex"
    "classify dex a f t0 t1 ts fee st = Some dp"
    using assms unfolding address_pin_def prod.case
    by (auto simp: Let_def rbind_eq_Inr from_option_def split: option.splits)
  then show ?thesis
    using classify_Some [OF c(3)] by_factory_key [OF c(2)] by (auto simp: pin_origin_def)
qed

lemma probe_calls_total: "pin_address pin \<noteq> None \<Longrightarrow> \<exists>cs. probe_calls abi pin = Inr cs"
  by (auto simp: probe_calls_def)

lemma address_pin_total: "pin_address pin \<noteq> None \<Longrightarrow> \<exists>dp. address_pin abi dexes res (i, pin) = Inr dp"
  by (auto simp: address_pin_def Let_def)

lemma rmap_total: "(\<And>x. x \<in> set xs \<Longrightarrow> \<exists>y. f x = Inr y) \<Longrightarrow> \<exists>ys. rmap f xs = Inr ys"
  by (induction xs) (fastforce simp: rbind_eq_Inr)+

lemma v4_pin_total: "\<exists>r. v4_pin env dexes pin = Inr r"
proof -
  have "\<exists>pid. pool_id_of k c0 c1 fee ts = Inr pid" if h: "- 8388608 \<le> ts \<and> ts \<le> 8388607" "\<not> UNIV4_MAX_LP_FEE < fee" for k c0 c1 fee ts
  proof -
    have "unat fee \<le> 1000000" using h(2) by (simp add: UNIV4_MAX_LP_FEE_def not_less word_le_nat_alt)
    then show ?thesis using h(1) by (simp add: pool_id_of_def)
  qed
  then show ?thesis by (fastforce simp: v4_pin_def eok_def split: option.split prod.split)
qed

lemma v4_pin_Some:
  assumes "v4_pin env dexes pin = Inr (Inr (Some dp))" "pin_address pin = None"
    and "\<forall>d \<in> set dexes. list_all dp_ok (cached_pools (pe_disk env) (dc_name d))"
  shows "dp_ok dp \<and> is_v4 (dp_dex dp) \<and> pin_origin dexes pin dp"
proof -
  obtain dex where d: "List.find (\<lambda>d. dc_name d = pin_dex pin) dexes = Some dex" "dc_kind dex = ''v4''"
    using assms(1) by (auto simp: v4_pin_def eok_def split: option.splits if_splits)
  then have dex: "dex \<in> set dexes" "dc_name dex = pin_dex pin" by (auto simp: find_Some_iff)
  have "dp_ok dp \<and> is_v4 (dp_dex dp)"
  proof (cases "\<exists>pm pid c0 c1 fee ts. v4_pool_from_key pm pid c0 c1 fee ts 0 = Some dp")
    case True
    then show ?thesis using v4_pool_from_key_ok by blast
  next
    case False
    then obtain pid where "cached_by_id (pe_disk env) (dc_name dex) pid = Some dp"
      using assms(1) d by (auto simp: v4_pin_def eok_def rbind_eq_Inr split: option.splits if_splits)
    then have "dp \<in> set (cached_pools (pe_disk env) (dc_name dex))" "dp_pool_id dp = Some pid" using cached_by_id_Some by blast+
    moreover from this(1) have "dp_ok dp" using assms(3) dex(1) by (auto simp: list_all_iff)
    ultimately show ?thesis by (auto simp: dp_ok_def split: if_splits)
  qed
  then show ?thesis
    unfolding pin_origin_def using d(2) dex(2) assms(2)
    by (intro conjI bexI [OF _ dex(1)]) (simp_all add: tags_of_def is_v4_def)
qed

lemma v4_candidates_total: "\<exists>r. v4_candidates env dexes pins = Inr r"
proof (induction pins)
  case (Cons pin pins)
  from v4_pin_total [of env dexes pin] Cons.IH show ?case
    by (auto simp: ebind_def eok_def rbind_def split: sum.split)
qed (simp add: eok_def)

lemma v4_candidates_ok:
  assumes "v4_candidates env dexes pins = Inr (Inr dps)" "\<forall>pin \<in> set pins. pin_address pin = None"
    and "\<forall>d \<in> set dexes. list_all dp_ok (cached_pools (pe_disk env) (dc_name d))"
  shows "length dps \<le> length pins \<and> (\<forall>dp \<in> set dps. dp_ok dp \<and> is_v4 (dp_dex dp) \<and> (\<exists>pin \<in> set pins. pin_origin dexes pin dp))"
  using assms(1,2)
proof (induction pins arbitrary: dps)
  case (Cons pin pins)
  obtain dp rest where "v4_pin env dexes pin = Inr (Inr dp)" "v4_candidates env dexes pins = Inr (Inr rest)"
    "dps = (case dp of Some p \<Rightarrow> p # rest | None \<Rightarrow> rest)"
    using Cons.prems(1) by (auto simp: ebind_eq_ok eok_def)
  then show ?case using v4_pin_Some [OF _ _ assms(3)] Cons.IH [of rest] Cons.prems(2) by (fastforce split: option.splits)
qed (simp add: eok_def)

lemma load_v4_total:
  assumes "\<forall>pin \<in> set pins. pin_address pin = None"
    and "\<forall>d \<in> set (cf_dexes cfg). list_all dp_ok (cached_pools (pe_disk env) (dc_name d))"
  shows "\<not> isl (fst (load_v4_pins env cfg pins w))"
proof -
  have calls: "\<exists>cs. rmap (live_probe (pe_abi env)) dps = Inr cs" if dps: "v4_candidates env (cf_dexes cfg) pins = Inr (Inr dps)" for dps
  proof (rule rmap_total)
    fix dp assume "dp \<in> set dps"
    then have "dp_pool_id dp \<noteq> None" using v4_candidates_ok [OF dps assms] by (auto simp: dp_ok_def split: if_splits)
    then show "\<exists>c. live_probe (pe_abi env) dp = Inr c" by (auto simp: live_probe_def)
  qed
  obtain r where r: "v4_candidates env (cf_dexes cfg) pins = Inr r" using v4_candidates_total by blast
  show ?thesis
  proof (cases r)
    case (Inl e)
    then show ?thesis by (simp add: load_v4_pins_def r hpure_total hbind_def)
  next
    case (Inr dps)
    then obtain cs where "rmap (live_probe (pe_abi env)) dps = Inr cs" using calls r by blast
    moreover have "\<not> isl (fst (hbind (pin_calls env cs) (\<lambda>res.
        hpure (Inr (map fst (filter (\<lambda>(dp, r). v4_live (pe_abi env) r) (zip dps res))))) w))"
      by (intro hbind_total pin_calls_total hpure_total(1))
    ultimately show ?thesis by (simp add: load_v4_pins_def r Inr hpure_total hbind_def hpure_def eok_def)
  qed
qed

lemma load_v4_ok:
  assumes "load_v4_pins env cfg pins w = (Inr (Inr out), w')" "\<forall>pin \<in> set pins. pin_address pin = None"
    and "\<forall>d \<in> set (cf_dexes cfg). list_all dp_ok (cached_pools (pe_disk env) (dc_name d))"
  shows "length out \<le> length pins \<and> (\<forall>dp \<in> set out. dp_ok dp \<and> (\<exists>pin \<in> set pins. pin_origin (cf_dexes cfg) pin dp))"
proof (cases "pins = []")
  case True
  then show ?thesis using assms(1) by (simp add: load_v4_pins_def hpure_ok)
next
  case False
  then obtain dps res where c: "v4_candidates env (cf_dexes cfg) pins = Inr (Inr dps)"
    and out: "out = map fst (filter (\<lambda>(dp, r). v4_live (pe_abi env) r) (zip dps res))"
    using assms(1) by (auto simp: load_v4_pins_def hbind_ok hpure_ok)
  have "set out \<subseteq> set dps" unfolding out by (auto dest: set_zip_leftD)
  moreover have "length out \<le> length dps" unfolding out
    by (rule order_trans [OF _ length_filter_le [of "\<lambda>(dp, r). v4_live (pe_abi env) r" "zip dps res", THEN order_trans]]) simp_all
  ultimately show ?thesis using v4_candidates_ok [OF c assms(2,3)] by fastforce
qed

lemma load_address_total:
  assumes "\<forall>pin \<in> set pins. pin_address pin \<noteq> None"
  shows "\<not> isl (fst (load_address_pins env cfg pins w))"
proof -
  have calls: "\<exists>cs. rmap (probe_calls (pe_abi env)) pins = Inr cs" using assms by (intro rmap_total probe_calls_total) blast
  have found: "\<exists>fs. rmap (address_pin (pe_abi env) (cf_dexes cfg) res) (List.enumerate 0 pins) = Inr fs" for res
  proof (rule rmap_total)
    fix x assume "x \<in> set (List.enumerate 0 pins)"
    then have "snd x \<in> set pins" by (metis enumerate_snd image_eqI list.set_map)
    then show "\<exists>y. address_pin (pe_abi env) (cf_dexes cfg) res x = Inr y"
      using assms address_pin_total [of "snd x" _ _ _ "fst x"] by simp
  qed
  have "\<not> isl (fst (hbind (hpure (rmap (probe_calls (pe_abi env)) pins)) (\<lambda>calls.
      hbind (pin_calls env (concat calls)) (\<lambda>res.
      hbind (hpure (rmap (address_pin (pe_abi env) (cf_dexes cfg) res) (List.enumerate 0 pins))) (\<lambda>found.
        hpure (Inr (List.map_filter (\<lambda>x. x) found))))) w))"
    by (intro hbind_total pin_calls_total hpure_total(2) calls found exI) simp
  then show ?thesis by (simp add: load_address_pins_def hpure_total)
qed

lemma load_address_ok:
  assumes "load_address_pins env cfg pins w = (Inr (Inr out), w')"
  shows "length out \<le> length pins \<and> (\<forall>dp \<in> set out. dp_ok dp \<and> (\<exists>pin \<in> set pins. pin_origin (cf_dexes cfg) pin dp))"
proof (cases "pins = []")
  case True
  then show ?thesis using assms(1) by (simp add: load_address_pins_def hpure_ok)
next
  case False
  then obtain res found where f: "rmap (address_pin (pe_abi env) (cf_dexes cfg) res) (List.enumerate 0 pins) = Inr found"
    and out: "out = List.map_filter (\<lambda>x. x) found"
    using assms(1) by (auto simp: load_address_pins_def hbind_ok hpure_ok)
  have "dp_ok dp \<and> (\<exists>pin \<in> set pins. pin_origin (cf_dexes cfg) pin dp)" if "dp \<in> set out" for dp
  proof -
    have "Some dp \<in> set found" using that by (auto simp: out List.map_filter_def)
    from rmap_Inr_set [OF f this] obtain i pin where "(i, pin) \<in> set (List.enumerate 0 pins)"
      "address_pin (pe_abi env) (cf_dexes cfg) res (i, pin) = Inr (Some dp)" by auto
    then show ?thesis using address_pin_Some by (fastforce simp: in_set_enumerate_eq)
  qed
  moreover have "length out \<le> length pins"
    using rmap_Inr_length [OF f] length_filter_le [of "\<lambda>x. x \<noteq> None" found] by (simp add: out List.map_filter_def)
  ultimately show ?thesis by blast
qed

lemma pins_sound:
  assumes "\<forall>d \<in> set (cf_dexes cfg). list_all dp_ok (cached_pools (pe_disk env) (dc_name d))"
  shows "\<not> isl (fst (load_pinned_pools env cfg pins w)) \<and>
    (\<forall>out w'. load_pinned_pools env cfg pins w = (Inr (Inr out), w') \<longrightarrow>
       list_all dp_ok out \<and> length out \<le> length pins \<and> (\<forall>dp \<in> set out. \<exists>pin \<in> set pins. pin_origin (cf_dexes cfg) pin dp))"
proof -
  let ?addr = "filter (\<lambda>p. pin_address p \<noteq> None) pins" and ?v4 = "filter (\<lambda>p. \<not> pin_address p \<noteq> None) pins"
  have sides: "\<forall>pin \<in> set ?addr. pin_address pin \<noteq> None" "\<forall>pin \<in> set ?v4. pin_address pin = None" by simp_all
  have "\<not> isl (fst (hbind (load_address_pins env cfg ?addr) (\<lambda>out1. hbind (load_v4_pins env cfg ?v4) (\<lambda>out2. hpure (Inr (out1 @ out2)))) w))"
    by (intro hbind_total load_address_total load_v4_total hpure_total(1) sides assms)
  then have "\<not> isl (fst (load_pinned_pools env cfg pins w))"
    by (simp add: load_pinned_pools_def hfail_def o_def split: option.split)
  moreover have "list_all dp_ok out \<and> length out \<le> length pins \<and> (\<forall>dp \<in> set out. \<exists>pin \<in> set pins. pin_origin (cf_dexes cfg) pin dp)"
    if run: "load_pinned_pools env cfg pins w = (Inr (Inr out), w')" for out w'
  proof -
    obtain out1 w1 out2 where "load_address_pins env cfg ?addr w = (Inr (Inr out1), w1)"
      "load_v4_pins env cfg ?v4 w1 = (Inr (Inr out2), w')" "out = out1 @ out2"
      using run by (auto simp: load_pinned_pools_def hfail_def partition_filter_conv o_def hbind_ok hpure_ok split: option.splits)
    then show ?thesis
      using load_address_ok load_v4_ok [OF _ sides(2) assms] sum_length_filter_compl [of "\<lambda>p. pin_address p \<noteq> None" pins]
      by (fastforce simp: list_all_iff)
  qed
  ultimately show ?thesis by blast
qed

section \<open>Properties\<close>


text \<open>One pin of a pool whose six answers are all the word 6, which is also its factory.\<close>

definition pin_sample :: "(nat, unit) pin_env" where
  "pin_sample =
     \<lparr>pe_node = boot_node 0,
      pe_abi = hydrate_abi.extend boot_abi
        \<lparr>pa_token0 = [21], pa_token1 = [22], pa_tick_spacing = [23], pa_stable = [24], pd_tick_spacing = (\<lambda>_. Some 60),
         pd_fee = (\<lambda>_. Some 3000), pd_stable = (\<lambda>_. None)\<rparr>,
      pe_keccak = (\<lambda>_. 0), pe_disk = (\<lambda>_. None)\<rparr>"

definition pin_sample_config :: config where
  "pin_sample_config = sample_config\<lparr>cf_dexes := [sample_dex\<lparr>dc_kind := ''v3'', dc_factory := 6\<rparr>]\<rparr>"

definition sample_pin :: pool_pin where
  "sample_pin =
     \<lparr>pin_address = Some 4, pin_dex = ''any'', pin_pool_id = None, pin_currency0 = None, pin_currency1 = None, pin_fee = None,
      pin_tick_spacing = None\<rparr>"

lemma pin_sample_run:
  "\<exists>w'. load_pinned_pools pin_sample pin_sample_config [sample_pin] 0 =
     (Inr (Inr [pinned_pool 4 UniV3Fork 6 6 6 (Some 3000) (Some 60) None]), w')"
proof -
  let ?a = "word_answer 0 6" and ?abi = "pe_abi pin_sample"
  obtain cs where cs: "probe_calls ?abi sample_pin = Inr cs" "length cs = 6"
    by (simp add: probe_calls_def sample_pin_def)
  have "map (\<lambda>_. ?a) cs = [?a, ?a, ?a, ?a, ?a, ?a]" using cs(2) by (simp add: map_replicate_const numeral_eq_Suc)
  moreover have "cs \<noteq> []" using cs(2) by auto
  ultimately have read: "pin_calls pin_sample cs 0 = (eok [?a, ?a, ?a, ?a, ?a, ?a], 1)"
    using cs(2) by (simp add: pin_calls_def PIN_MC_BATCH_def pin_sample_def boot_aggregate)
  have "be_word (replicate 19 0 @ [6 :: u8]) = (6 :: address)" by (simp add: be_word_def foldl_be_zeros)
  then have "decode_addr (rs_data ?a) = Some 6" by (simp add: decode_addr_def word_answer_def)
  moreover have "returned [?a, ?a, ?a, ?a, ?a, ?a] i = Some (rs_data ?a)" if "i < 6" for i
    using that by (auto simp: returned_def get_def word_answer_def less_Suc_eq numeral_eq_Suc)
  ultimately have "address_pin ?abi (cf_dexes pin_sample_config) [?a, ?a, ?a, ?a, ?a, ?a] (0, sample_pin) =
      Inr (Some (pinned_pool 4 UniV3Fork 6 6 6 (Some 3000) (Some 60) None))"
    by (simp add: address_pin_def sample_pin_def CALLS_PER_PIN_def Let_def by_factory_def pin_sample_config_def sample_dex_def
        classify_def pin_sample_def hydrate_abi.extend_def)
  then have "load_address_pins pin_sample pin_sample_config [sample_pin] 0 =
      (Inr (Inr [pinned_pool 4 UniV3Fork 6 6 6 (Some 3000) (Some 60) None]), 1)"
    by (simp add: load_address_pins_def cs hbind_def hpure_def eok_def read [unfolded eok_def] map_filter_simps)
  then show ?thesis
    by (simp add: load_pinned_pools_def ambiguous_def sample_pin_def load_v4_pins_def hbind_def hpure_def eok_def)
qed


end
