(* ===== verification/Fees.thy ===== *)
theory Fees
  imports Bootstrap
begin

text \<open>
  The dynamic-fee tracker, \<^verbatim>\<open>src/ingest/fees.rs\<close>: a task that shares the registry and the chain state with the
  pipeline, polls fees that no storage slot supplies, writes them into the registry and announces
  the pools whose fee moved.  One turn of its endless loop is \<open>fee_round\<close>; what the other tasks do
  to the shared state between two turns is an input of \<open>fee_run\<close>.  The clock, the node, the ABI
  coders and the iteration order of the sets are parameters.
\<close>

section \<open>State\<close>

definition FEES_MC_BATCH :: nat where
  "FEES_MC_BATCH = 400"

record ('w, 'e) fees_env =
  fv_node :: "('w, mc_call3 list, 'e, mc_result list) provider"
  fv_abi :: hydrate_abi
  fv_store :: route_store
  fv_interval :: nat
  fv_order :: "pool_idx set \<Rightarrow> pool_idx list"

record 'r fees_io =
  fi_now :: nat      \<comment> \<open>when the turn asks whether a sweep is due\<close>
  fi_reset :: nat    \<comment> \<open>when it restarts the sweep timer\<close>
  fi_sealed :: nat   \<comment> \<open>when it stamps its batch\<close>
  fi_rpc :: "'r storage_rpc"
  fi_open :: bool    \<comment> \<open>the evaluator's channel is open\<close>

record 'w fee_state =
  ft_engine :: engine
  ft_chain :: chain_state
  ft_world :: 'w
  ft_last_sweep :: int
  ft_cl :: "pool_idx list"
  ft_aero :: "pool_idx list"
  ft_batches :: "changed_batch list"
  ft_done :: bool    \<comment> \<open>the task has returned or panicked\<close>

definition fee_from_word :: "chain_state \<Rightarrow> pool_idx \<Rightarrow> bool" where
  "fee_from_word s i =
     (case cs_plan s i of Some (PCl c) \<Rightarrow> (case cl_fee_src c of FeeWord _ \<Rightarrow> True | FeeMeta \<Rightarrow> False) | _ \<Rightarrow> False)"

definition fees_start :: "('w, 'e) fees_env \<Rightarrow> nat \<Rightarrow> engine \<Rightarrow> chain_state \<Rightarrow> 'w \<Rightarrow> 'w fee_state" where
  "fees_start env now e s w =
     (let cl_pools = filter (\<lambda>i. \<not> fee_from_word s i) (fv_order env (eng_fee_dynamic e));
          aero_pools = map pm_idx (filter (\<lambda>m. is_aero (pm_dex m)) (eng_metas e))
      in \<lparr>ft_engine = e, ft_chain = s, ft_world = w, ft_last_sweep = int now - int (fv_interval env), ft_cl = cl_pools,
          ft_aero = aero_pools, ft_batches = [], ft_done = (cl_pools = [] \<and> aero_pools = [])\<rparr>)"

definition sweep_due :: "('w, 'e) fees_env \<Rightarrow> 'r fees_io \<Rightarrow> 'w fee_state \<Rightarrow> bool" where
  "sweep_due env io st \<longleftrightarrow> int (fv_interval env) \<le> int (fi_now io) - ft_last_sweep st"

section \<open>Writing fees\<close>

text \<open>
  Fees are atomics of the shared metadata, so what was written before a panic stays written: both
  loops return the panic they ended in, if any, beside the registry and the changed pools.
\<close>

definition update_meta :: "(pool_meta \<Rightarrow> pool_meta) \<Rightarrow> pool_idx \<Rightarrow> engine \<Rightarrow> engine" where
  "update_meta f i e = e\<lparr>eng_metas := (eng_metas e)[idx_get i := f (eng_metas e ! idx_get i)]\<rparr>"

definition write_cl_fee :: "u32 \<Rightarrow> pool_meta \<Rightarrow> pool_meta" where
  "write_cl_fee new_fee m = set_fee_bps (new_fee div 100) (set_fee_pips new_fee m)"

definition write_aero_fee :: "u32 \<Rightarrow> pool_meta \<Rightarrow> pool_meta" where
  "write_aero_fee fee_bps m = set_fee_pips (fee_bps * 100) (set_fee_bps fee_bps m)"

definition aero_fee_answer :: "hydrate_abi \<Rightarrow> mc_result \<Rightarrow> u32 option res" where
  "aero_fee_answer abi r =
     (if \<not> rs_success r then Inr None
      else case hd_u256 abi (rs_data r) of
        None \<Rightarrow> Inr None
      | Some fee \<Rightarrow> rbind (to_u32 fee) (\<lambda>f. Inr (Some f)))"

definition cl_fee_answer :: "mc_result \<Rightarrow> u32 option res" where
  "cl_fee_answer r = viewed_fee (Some r)"

fun fee_loop ::
    "(mc_result \<Rightarrow> u32 option res) \<Rightarrow> (pool_meta \<Rightarrow> u32) \<Rightarrow> (u32 \<Rightarrow> pool_meta \<Rightarrow> pool_meta) \<Rightarrow> (pool_idx \<times> mc_result) list
      \<Rightarrow> engine \<Rightarrow> pool_idx list \<Rightarrow> panic option \<times> engine \<times> pool_idx list" where
  "fee_loop answer current write [] e changed = (None, e, changed)"
| "fee_loop answer current write ((i, r) # rest) e changed =
     (case answer r of
        Inl p \<Rightarrow> (Some p, e, changed)
      | Inr None \<Rightarrow> fee_loop answer current write rest e changed
      | Inr (Some v) \<Rightarrow>
          (case eng_meta e i of
             Inl p \<Rightarrow> (Some p, e, changed)
           | Inr m \<Rightarrow>
               if current m \<noteq> v then fee_loop answer current write rest (update_meta (write v) i e) (changed @ [i])
               else fee_loop answer current write rest e changed))"

section \<open>One turn\<close>

text \<open>The pools to poll, and the registry with its recheck flags cleared.\<close>

definition fee_targets :: "('w, 'e) fees_env \<Rightarrow> 'r fees_io \<Rightarrow> 'w fee_state \<Rightarrow> pool_idx list \<times> engine" where
  "fee_targets env io st =
     (let e = ft_engine st
      in if sweep_due env io st then (ft_cl st, e\<lparr>eng_fee_recheck := {}\<rparr>)
         else let flagged = fv_order env (eng_fee_recheck e)
              in (filter (\<lambda>i. \<not> fee_from_word (ft_chain st) i) flagged,
                  e\<lparr>eng_fee_recheck := eng_fee_recheck e - set flagged\<rparr>))"

definition fee_calls :: "('w, 'e) fees_env \<Rightarrow> engine \<Rightarrow> pool_idx list \<Rightarrow> mc_call list res" where
  "fee_calls env e targets =
     rmap (\<lambda>i. rbind (eng_meta e i) (\<lambda>m. Inr \<lparr>mc_target = pm_address m, mc_calldata = ha_fee (fv_abi env)\<rparr>)) targets"

definition get_fee_calls :: "('w, 'e) fees_env \<Rightarrow> engine \<Rightarrow> pool_idx list \<Rightarrow> mc_call list res" where
  "get_fee_calls env e pools =
     rmap (\<lambda>i. rbind (eng_meta e i) (\<lambda>m.
       Inr \<lparr>mc_target = pm_factory m,
             mc_calldata = ha_get_fee (fv_abi env) (pm_address m) (pm_dex m = AeroStable)\<rparr>)) pools"

definition cl_phase ::
    "('w, 'e) fees_env \<Rightarrow> pool_idx list \<Rightarrow> engine \<Rightarrow> 'w \<Rightarrow> (panic option \<times> engine \<times> pool_idx list) \<times> 'w" where
  "cl_phase env targets e w =
     (if targets = [] then ((None, e, []), w)
      else case fee_calls env e targets of
        Inl p \<Rightarrow> ((Some p, e, []), w)
      | Inr calls \<Rightarrow>
          (case aggregate3 (fv_node env) calls FEES_MC_BATCH w of
             (Inr results, w1) \<Rightarrow> (fee_loop cl_fee_answer pm_fee_pips write_cl_fee (zip targets results) e [], w1)
           | (Inl err, w1) \<Rightarrow> ((None, e\<lparr>eng_fee_recheck := eng_fee_recheck e \<union> set targets\<rparr>, []), w1)))"

definition aero_phase ::
    "('w, 'e) fees_env \<Rightarrow> pool_idx list \<Rightarrow> engine \<Rightarrow> pool_idx list \<Rightarrow> 'w
      \<Rightarrow> (panic option \<times> engine \<times> pool_idx list) \<times> 'w" where
  "aero_phase env pools e changed w =
     (if pools = [] then ((None, e, changed), w)
      else case get_fee_calls env e pools of
        Inl p \<Rightarrow> ((Some p, e, changed), w)
      | Inr calls \<Rightarrow>
          (case aggregate3 (fv_node env) calls FEES_MC_BATCH w of
             (Inr results, w1) \<Rightarrow> (fee_loop (aero_fee_answer (fv_abi env)) pm_fee_bps write_aero_fee (zip pools results) e changed, w1)
           | (Inl err, w1) \<Rightarrow> ((None, e, changed), w1)))"

definition polled ::
    "('w, 'e) fees_env \<Rightarrow> 'r fees_io \<Rightarrow> 'w fee_state \<Rightarrow> (panic option \<times> engine \<times> pool_idx list) \<times> 'w" where
  "polled env io st =
     (case fee_targets env io st of (targets, e) \<Rightarrow>
      case cl_phase env targets e (ft_world st) of
        ((Some p, e1, changed), w1) \<Rightarrow> ((Some p, e1, changed), w1)
      | ((None, e1, changed), w1) \<Rightarrow>
          if sweep_due env io st then aero_phase env (ft_aero st) e1 changed w1 else ((None, e1, changed), w1))"

definition announce_fees :: "('w, 'e) fees_env \<Rightarrow> 'r fees_io \<Rightarrow> pool_idx list \<Rightarrow> 'w fee_state \<Rightarrow> 'w fee_state" where
  "announce_fees env io changed st =
     (if changed = [] then st
      else case prefetch_neighborhood (fi_rpc io) (fv_store env) changed (ft_chain st) of
        Inl p \<Rightarrow> st\<lparr>ft_done := True\<rparr>
      | Inr s \<Rightarrow>
          let batch = \<lparr>cb_block = head_block (ft_engine st), cb_pools = changed, cb_ts = fi_sealed io\<rparr>
          in if fi_open io then st\<lparr>ft_chain := s, ft_batches := ft_batches st @ [batch]\<rparr>
             else st\<lparr>ft_chain := s, ft_done := True\<rparr>)"

definition fee_round :: "('w, 'e) fees_env \<Rightarrow> 'r fees_io \<Rightarrow> 'w fee_state \<Rightarrow> 'w fee_state" where
  "fee_round env io st =
     (if ft_done st then st
      else let last_sweep = (if sweep_due env io st then int (fi_reset io) else ft_last_sweep st)
           in case polled env io st of
                ((Some p, e, changed), w) \<Rightarrow>
                  st\<lparr>ft_engine := e, ft_world := w, ft_last_sweep := last_sweep, ft_done := True\<rparr>
              | ((None, e, changed), w) \<Rightarrow>
                  announce_fees env io changed (st\<lparr>ft_engine := e, ft_world := w, ft_last_sweep := last_sweep\<rparr>))"

text \<open>Between two turns the other tasks move the head and read storage.\<close>

datatype 'r fee_input = Turn "'r fees_io" | OtherTasks chain_state u64

fun fee_run :: "('w, 'e) fees_env \<Rightarrow> 'r fee_input list \<Rightarrow> 'w fee_state \<Rightarrow> 'w fee_state" where
  "fee_run env [] st = st"
| "fee_run env (Turn io # inputs) st = fee_run env inputs (fee_round env io st)"
| "fee_run env (OtherTasks s head # inputs) st =
     fee_run env inputs (st\<lparr>ft_chain := s, ft_engine := set_head head (ft_engine st)\<rparr>)"

section \<open>What a pass over the answers does\<close>

lemma write_fees [simp]:
  "pm_fee_pips (write_cl_fee v m) = v" "pm_fee_bps (write_aero_fee v m) = v"
  by (simp_all add: write_cl_fee_def write_aero_fee_def set_fee_bps_def set_fee_pips_def)

lemma eng_meta_recheck [simp]: "eng_meta (e\<lparr>eng_fee_recheck := R\<rparr>) i = eng_meta e i"
  by (simp add: eng_meta_def)

lemma eng_meta_update:
  assumes "eng_meta e i = Inr m"
  shows "eng_meta (update_meta f i e) j = (if j = i then Inr (f m) else eng_meta e j)"
proof -
  have "j = i" if "idx_get j = idx_get i" using that by simp
  then show ?thesis
    using assms by (auto simp: eng_meta_def update_meta_def index_def nth_list_update split: if_splits)
qed

lemma update_meta_frame: "\<exists>ms. update_meta f i e = e\<lparr>eng_metas := ms\<rparr>"
  unfolding update_meta_def by blast

lemma fee_loop_frame:
  assumes "fee_loop answer current write items e changed = (p, e', changed')" "\<And>v m. current (write v m) = v"
  shows "(\<exists>ms. e' = e\<lparr>eng_metas := ms\<rparr>) \<and>
    (\<exists>new. changed' = changed @ new \<and> set new \<subseteq> fst ` set items \<and> (\<forall>i. i \<notin> set new \<longrightarrow> eng_meta e' i = eng_meta e i) \<and>
      (distinct (map fst items) \<longrightarrow> distinct new \<and> (\<forall>i \<in> set new. eng_meta e' i \<noteq> eng_meta e i)))"
  using assms(1)
proof (induction items arbitrary: e changed)
  case (Cons item items)
  obtain i r where item: "item = (i, r)" by (cases item)
  consider (stop) "(p, e', changed') = (p, e, changed)" | (skip) "fee_loop answer current write items e changed = (p, e', changed')"
    | (put) v m where "eng_meta e i = Inr m" "current m \<noteq> v"
        "fee_loop answer current write items (update_meta (write v) i e) (changed @ [i]) = (p, e', changed')"
    using Cons.prems unfolding item by (auto split: sum.splits option.splits if_splits)
  then show ?case
  proof cases
    case stop
    then show ?thesis by (auto intro: exI [of _ "eng_metas e"])
  next
    case skip
    from Cons.IH [OF this] show ?thesis by (auto simp: item)
  next
    case put
    from Cons.IH [OF put(3)] obtain ms new where
      ms: "e' = (update_meta (write v) i e)\<lparr>eng_metas := ms\<rparr>" and new: "changed' = (changed @ [i]) @ new" "set new \<subseteq> fst ` set items"
      "\<forall>j. j \<notin> set new \<longrightarrow> eng_meta e' j = eng_meta (update_meta (write v) i e) j"
      "distinct (map fst items) \<longrightarrow> distinct new \<and> (\<forall>j \<in> set new. eng_meta e' j \<noteq> eng_meta (update_meta (write v) i e) j)" by blast
    note upd = eng_meta_update [OF put(1), of "write v"]
    have "write v m \<noteq> m" using put(2) assms(2) by metis
    have "distinct (i # new) \<and> (\<forall>j \<in> set (i # new). eng_meta e' j \<noteq> eng_meta e j)" if d: "distinct (map fst (item # items))"
    proof -
      have i: "i \<notin> set new" using d new(2) by (auto simp: item)
      then have "eng_meta e' i \<noteq> eng_meta e i" using new(3) upd put(1) \<open>write v m \<noteq> m\<close> by simp
      moreover have "eng_meta e' j \<noteq> eng_meta e j" if j: "j \<in> set new" for j
        using new(4) d j i upd [of j] by (cases "j = i") (auto simp: item)
      ultimately show ?thesis using new(4) d i by (simp add: item)
    qed
    moreover have "\<forall>j. j \<notin> set (i # new) \<longrightarrow> eng_meta e' j = eng_meta e j" using new(3) by (simp add: upd)
    moreover have "\<exists>ms. e' = e\<lparr>eng_metas := ms\<rparr>" using ms by (auto simp: update_meta_def)
    moreover have "changed' = changed @ (i # new)" "set (i # new) \<subseteq> fst ` set (item # items)" using new(1,2) by (auto simp: item)
    ultimately show ?thesis by blast
  qed
next
  case Nil
  then show ?case by (auto intro!: exI [of _ "eng_metas e'"])
qed

text \<open>The metadata a pool has after its answer was processed.\<close>

definition refreshed ::
    "(mc_result \<Rightarrow> u32 option res) \<Rightarrow> (pool_meta \<Rightarrow> u32) \<Rightarrow> (u32 \<Rightarrow> pool_meta \<Rightarrow> pool_meta) \<Rightarrow> (pool_idx \<times> mc_result) list
      \<Rightarrow> pool_idx \<Rightarrow> pool_meta \<Rightarrow> pool_meta" where
  "refreshed answer current write items i m =
     (case map_of items i of
        None \<Rightarrow> m
      | Some r \<Rightarrow> (case answer r of Inr (Some v) \<Rightarrow> if current m \<noteq> v then write v m else m | _ \<Rightarrow> m))"

lemma fee_loop_refreshed:
  assumes "fee_loop answer current write items e changed = (None, e', changed')" "distinct (map fst items)"
  shows "eng_meta e' j = rbind (eng_meta e j) (\<lambda>m. Inr (refreshed answer current write items j m))"
  using assms
proof (induction items arbitrary: e changed)
  case (Cons item items)
  obtain i r where item: "item = (i, r)" by (cases item)
  have tl: "refreshed answer current write items i m = m" for m
    using Cons.prems(2) by (auto simp: refreshed_def item map_of_eq_None_iff [THEN iffD2] split: option.splits)
  have hd: "refreshed answer current write ((i, r) # items) k m =
      (if k = i then (case answer r of Inr (Some v) \<Rightarrow> if current m \<noteq> v then write v m else m | _ \<Rightarrow> m)
       else refreshed answer current write items k m)" for k m
    by (simp add: refreshed_def)
  consider (none) "answer r = Inr None" "fee_loop answer current write items e changed = (None, e', changed')"
    | (same) v m where "answer r = Inr (Some v)" "eng_meta e i = Inr m" "current m = v"
        "fee_loop answer current write items e changed = (None, e', changed')"
    | (put) v m where "answer r = Inr (Some v)" "eng_meta e i = Inr m" "current m \<noteq> v"
        "fee_loop answer current write items (update_meta (write v) i e) (changed @ [i]) = (None, e', changed')"
    using Cons.prems(1) unfolding item by (auto split: sum.splits option.splits if_splits)
  then show ?case
  proof cases
    case none
    then show ?thesis using Cons.IH [OF none(2)] Cons.prems(2) tl by (cases "j = i") (auto simp: hd item)
  next
    case same
    then show ?thesis using Cons.IH [OF same(4)] Cons.prems(2) tl by (cases "j = i") (auto simp: hd item)
  next
    case put
    then show ?thesis
      using Cons.IH [OF put(4)] Cons.prems(2) tl by (cases "j = i") (auto simp: hd item eng_meta_update [OF put(2)])
  qed
qed (cases "eng_meta e' j"; simp add: refreshed_def)

lemma fee_loop_panic:
  assumes "(i, r) \<in> set items" "answer r = Inl p0" "fee_loop answer current write items e changed = (p, e', changed')"
  shows "p \<noteq> None"
  using assms(1,3)
proof (induction items arbitrary: e changed)
  case (Cons item items)
  then show ?case using assms(2) by (cases item) (auto split: sum.splits option.splits if_splits)
qed simp

section \<open>One turn\<close>

text \<open>
  What a turn may do to the registry: it rewrites metadata and recheck flags only, and the pools it
  reports are the ones it rewrote.
\<close>

definition fees_frame :: "engine \<Rightarrow> pool_idx list \<Rightarrow> engine \<Rightarrow> bool" where
  "fees_frame e new e' \<longleftrightarrow> eng_by_address e' = eng_by_address e \<and> eng_fee_dynamic e' = eng_fee_dynamic e \<and>
     eng_head_block e' = eng_head_block e \<and> (\<forall>i. i \<notin> set new \<longrightarrow> eng_meta e' i = eng_meta e i)"

lemma map_fst_zip_distinct: "distinct xs \<Longrightarrow> distinct (map fst (zip xs ys))"
  by (simp add: map_fst_zip_take)

lemma fst_zip_subset: "fst ` set (zip xs ys) \<subseteq> set xs"
  by (auto dest: set_zip_leftD)

lemma fees_frame_refl: "fees_frame e new e" "fees_frame e new (e\<lparr>eng_fee_recheck := R\<rparr>)"
  by (simp_all add: fees_frame_def)

lemma fees_frame_recheck: "fees_frame (e\<lparr>eng_fee_recheck := R\<rparr>) new e' \<longleftrightarrow> fees_frame e new e'"
  by (simp add: fees_frame_def)

lemma fee_loop_fees_frame:
  assumes "fee_loop answer current write (zip targets results) e changed = (p, e', changed')" "\<And>v m. current (write v m) = v"
  shows "eng_fee_recheck e' = eng_fee_recheck e \<and>
    (\<exists>new. changed' = changed @ new \<and> set new \<subseteq> set targets \<and> fees_frame e new e' \<and>
      (distinct targets \<longrightarrow> distinct new \<and> (\<forall>i \<in> set new. eng_meta e' i \<noteq> eng_meta e i)))"
proof -
  obtain ms new where ms: "e' = e\<lparr>eng_metas := ms\<rparr>" and new: "changed' = changed @ new"
    "set new \<subseteq> fst ` set (zip targets results)" "\<forall>i. i \<notin> set new \<longrightarrow> eng_meta e' i = eng_meta e i"
    "distinct (map fst (zip targets results)) \<longrightarrow> distinct new \<and> (\<forall>i \<in> set new. eng_meta e' i \<noteq> eng_meta e i)"
    using fee_loop_frame [OF assms] by blast
  have "fees_frame e new e'" unfolding fees_frame_def using ms new(3) by auto
  then show ?thesis
    using ms new(1,4) subset_trans [OF new(2) fst_zip_subset] map_fst_zip_distinct [of targets results] by auto
qed

lemma cl_phase_frame:
  assumes "cl_phase env targets e w = ((p, e', changed), w')"
  shows "set changed \<subseteq> set targets \<and> fees_frame e changed e' \<and>
    (distinct targets \<longrightarrow> distinct changed \<and> (\<forall>i \<in> set changed. eng_meta e' i \<noteq> eng_meta e i))"
  using assms fee_loop_fees_frame [of cl_fee_answer pm_fee_pips write_cl_fee targets _ e "[]" p e' changed]
  by (auto simp: cl_phase_def fees_frame_refl split: if_splits sum.splits prod.splits)

lemma aero_phase_frame:
  assumes "aero_phase env pools e changed w = ((p, e', changed'), w')"
  shows "eng_fee_recheck e' = eng_fee_recheck e \<and> (\<exists>new. changed' = changed @ new \<and> set new \<subseteq> set pools \<and> fees_frame e new e' \<and>
    (distinct pools \<longrightarrow> distinct new \<and> (\<forall>i \<in> set new. eng_meta e' i \<noteq> eng_meta e i)))"
  using assms fee_loop_fees_frame [of "aero_fee_answer (fv_abi env)" pm_fee_bps write_aero_fee pools _ e changed p e' changed']
  by (auto simp: aero_phase_def fees_frame_refl split: if_splits sum.splits prod.splits)

lemma fees_frame_trans: "fees_frame e new e1 \<Longrightarrow> fees_frame e1 new1 e2 \<Longrightarrow> fees_frame e (new @ new1) e2"
  unfolding fees_frame_def by fastforce

lemma fee_round_live:
  assumes "\<not> ft_done (fee_round env io st)"
  obtains e changed w st1 where "\<not> ft_done st" "polled env io st = ((None, e, changed), w)"
    "st1 = st\<lparr>ft_engine := e, ft_world := w, ft_last_sweep := (if sweep_due env io st then int (fi_reset io) else ft_last_sweep st)\<rparr>"
    "fee_round env io st = announce_fees env io changed st1"
  using assms unfolding fee_round_def
  by (auto simp: Let_def split: if_splits prod.splits option.splits)

lemma announce_fees_engine: "ft_engine (announce_fees env io changed st) = ft_engine st"
  by (simp add: announce_fees_def Let_def split: sum.split)

lemma announce_fees_live:
  assumes "\<not> ft_done (announce_fees env io changed st)"
  shows "if changed = [] then announce_fees env io changed st = st
    else ft_batches (announce_fees env io changed st) = ft_batches st @
        [\<lparr>cb_block = head_block (ft_engine st), cb_pools = changed, cb_ts = fi_sealed io\<rparr>] \<and>
      prefetch_neighborhood (fi_rpc io) (fv_store env) changed (ft_chain st) =
        Inr (ft_chain (announce_fees env io changed st))"
  using assms by (auto simp: announce_fees_def Let_def split: sum.splits if_splits)

text \<open>The pools a sweep polls are pairwise different, and so are the flagged ones.\<close>

definition polls_once :: "('w, 'e) fees_env \<Rightarrow> 'w fee_state \<Rightarrow> bool" where
  "polls_once env st \<longleftrightarrow> distinct (ft_cl st @ ft_aero st) \<and> distinct (fv_order env (eng_fee_recheck (ft_engine st)))"

lemma fee_targets_frame:
  assumes "fee_targets env io st = (targets, e)"
  shows "\<exists>R. e = (ft_engine st)\<lparr>eng_fee_recheck := R\<rparr>" "sweep_due env io st \<Longrightarrow> targets = ft_cl st"
    "polls_once env st \<Longrightarrow> distinct targets"
  using assms by (auto simp: fee_targets_def polls_once_def Let_def split: if_splits)

lemma polled_frame:
  assumes "polled env io st = ((None, e, changed), w)"
  shows "fees_frame (ft_engine st) changed e"
    "polls_once env st \<Longrightarrow> distinct changed \<and> (\<forall>i \<in> set changed. eng_meta e i \<noteq> eng_meta (ft_engine st) i)"
proof -
  obtain targets e0 where t: "fee_targets env io st = (targets, e0)" by fastforce
  then obtain R where R: "e0 = (ft_engine st)\<lparr>eng_fee_recheck := R\<rparr>" using fee_targets_frame(1) by blast
  obtain e1 changed1 w1 where c: "cl_phase env targets e0 (ft_world st) = ((None, e1, changed1), w1)"
    and rest: "if sweep_due env io st then aero_phase env (ft_aero st) e1 changed1 w1 = ((None, e, changed), w)
      else e = e1 \<and> changed = changed1"
    using assms t by (auto simp: polled_def split: prod.splits option.splits if_splits)
  note c = cl_phase_frame [OF c, unfolded R fees_frame_recheck eng_meta_recheck]
  have "fees_frame (ft_engine st) changed e \<and> (polls_once env st \<longrightarrow>
      distinct changed \<and> (\<forall>i \<in> set changed. eng_meta e i \<noteq> eng_meta (ft_engine st) i))"
  proof (cases "sweep_due env io st")
    case False
    then show ?thesis using rest c fee_targets_frame(3) [OF t] by simp
  next
    case True
    then have "aero_phase env (ft_aero st) e1 changed1 w1 = ((None, e, changed), w)" using rest by simp
    from aero_phase_frame [OF this] obtain new where new: "changed = changed1 @ new" "set new \<subseteq> set (ft_aero st)"
      "fees_frame e1 new e" "distinct (ft_aero st) \<longrightarrow> distinct new \<and> (\<forall>i \<in> set new. eng_meta e i \<noteq> eng_meta e1 i)" by blast
    have frame: "fees_frame (ft_engine st) changed e" using fees_frame_trans [of _ changed1 e1 new e] c new(1,3) by simp
    have "distinct changed \<and> (\<forall>i \<in> set changed. eng_meta e i \<noteq> eng_meta (ft_engine st) i)" if once: "polls_once env st"
    proof -
      have d: "set changed1 \<inter> set new = {}" "distinct targets" "distinct (ft_aero st)"
        using once c new(2) fee_targets_frame(2) [OF t True] by (auto simp: polls_once_def)
      have "eng_meta e i = eng_meta e1 i" if "i \<in> set changed1" for i using new(3) d(1) that by (auto simp: fees_frame_def)
      moreover have "eng_meta e1 i = eng_meta (ft_engine st) i" if "i \<in> set new" for i
        using c d(1) that by (auto simp: fees_frame_def)
      ultimately show ?thesis using c new(1,4) d by auto
    qed
    then show ?thesis using frame by blast
  qed
  then show "fees_frame (ft_engine st) changed e"
    "polls_once env st \<Longrightarrow> distinct changed \<and> (\<forall>i \<in> set changed. eng_meta e i \<noteq> eng_meta (ft_engine st) i)" by blast+
qed

section \<open>A sweep the node answers\<close>

lemma aggregate3_Nil: "aggregate3 p [] n w = (Inr [], w)"
  by (simp add: aggregate3_def chunks.simps)

lemma cl_phase_answered:
  assumes "fee_calls env e targets = Inr calls" "aggregate3 (fv_node env) calls FEES_MC_BATCH w = (Inr rs, w1)"
  shows "cl_phase env targets e w = (fee_loop cl_fee_answer pm_fee_pips write_cl_fee (zip targets rs) e [], w1)"
  using assms by (cases "targets = []") (auto simp: cl_phase_def fee_calls_def aggregate3_Nil)

lemma aero_phase_answered:
  assumes "get_fee_calls env e pools = Inr calls" "aggregate3 (fv_node env) calls FEES_MC_BATCH w = (Inr rs, w1)"
  shows "aero_phase env pools e changed w =
    (fee_loop (aero_fee_answer (fv_abi env)) pm_fee_bps write_aero_fee (zip pools rs) e changed, w1)"
  using assms by (cases "pools = []") (auto simp: aero_phase_def get_fee_calls_def aggregate3_Nil)

lemma fee_calls_recheck: "fee_calls env (e\<lparr>eng_fee_recheck := R\<rparr>) targets = fee_calls env e targets"
  by (simp add: fee_calls_def)

text \<open>The calls of the second batch do not depend on the fees the first one wrote.\<close>

lemma refreshed_cl_keeps:
  "pm_factory (refreshed a c write_cl_fee items i m) = pm_factory m"
  "pm_address (refreshed a c write_cl_fee items i m) = pm_address m"
  "pm_dex (refreshed a c write_cl_fee items i m) = pm_dex m"
  by (auto simp: refreshed_def write_cl_fee_def set_fee_bps_def set_fee_pips_def split: option.splits sum.splits)

lemma get_fee_calls_after:
  assumes "\<And>j. eng_meta e' j = rbind (eng_meta e j) (\<lambda>m. Inr (refreshed a c write_cl_fee items j m))"
  shows "get_fee_calls env e' pools = get_fee_calls env e pools"
  unfolding get_fee_calls_def assms by (simp add: rbind_assoc refreshed_cl_keeps)

lemma rmap_meta_Inr: "rmap (\<lambda>i. rbind (eng_meta e i) (f i)) is = Inr xs \<Longrightarrow> i \<in> set is \<Longrightarrow> \<exists>m. eng_meta e i = Inr m"
  by (induction "is" arbitrary: xs) (auto simp: rbind_eq_Inr)

lemma refreshed_miss: "i \<notin> fst ` set items \<Longrightarrow> refreshed answer current write items i m = m"
  by (simp add: refreshed_def map_of_eq_None_iff [THEN iffD2])

lemma refreshed_hit:
  assumes "(i, r) \<in> set items" "distinct (map fst items)"
  shows "refreshed answer current write items i m =
    (case answer r of Inr (Some v) \<Rightarrow> if current m \<noteq> v then write v m else m | _ \<Rightarrow> m)"
  using assms by (simp add: refreshed_def)

lemma sweep_metas:
  assumes "\<not> ft_done (fee_round env io st)" "sweep_due env io st" "distinct (ft_cl st @ ft_aero st)"
    and "fee_calls env (ft_engine st) (ft_cl st) = Inr calls"
    and "aggregate3 (fv_node env) calls FEES_MC_BATCH (ft_world st) = (Inr rs, w1)"
    and "get_fee_calls env (ft_engine st) (ft_aero st) = Inr calls'"
    and "aggregate3 (fv_node env) calls' FEES_MC_BATCH w1 = (Inr rs', w2)"
  shows "eng_meta (ft_engine (fee_round env io st)) i = rbind (eng_meta (ft_engine st) i) (\<lambda>m.
    Inr (refreshed (aero_fee_answer (fv_abi env)) pm_fee_bps write_aero_fee (zip (ft_aero st) rs') i
      (refreshed cl_fee_answer pm_fee_pips write_cl_fee (zip (ft_cl st) rs) i m)))"
proof -
  obtain e changed w st1 where run: "polled env io st = ((None, e, changed), w)"
    "st1 = st\<lparr>ft_engine := e, ft_world := w, ft_last_sweep := (if sweep_due env io st then int (fi_reset io) else ft_last_sweep st)\<rparr>"
    "fee_round env io st = announce_fees env io changed st1"
    by (rule fee_round_live [OF assms(1)])
  let ?e0 = "(ft_engine st)\<lparr>eng_fee_recheck := {}\<rparr>"
  have cl: "cl_phase env (ft_cl st) ?e0 (ft_world st) =
      (fee_loop cl_fee_answer pm_fee_pips write_cl_fee (zip (ft_cl st) rs) ?e0 [], w1)"
    by (rule cl_phase_answered) (use assms(4,5) in \<open>simp_all add: fee_calls_recheck\<close>)
  have t: "fee_targets env io st = (ft_cl st, ?e0)" using assms(2) by (simp add: fee_targets_def)
  obtain e1 ch1 where l1: "fee_loop cl_fee_answer pm_fee_pips write_cl_fee (zip (ft_cl st) rs) ?e0 [] = (None, e1, ch1)"
    and a: "aero_phase env (ft_aero st) e1 ch1 w1 = ((None, e, changed), w)"
    using run(1) assms(2) unfolding polled_def t prod.case cl by (auto split: prod.splits option.splits)
  have m1: "eng_meta e1 j = rbind (eng_meta (ft_engine st) j) (\<lambda>m. Inr (refreshed cl_fee_answer pm_fee_pips write_cl_fee (zip (ft_cl st) rs) j m))" for j
    using fee_loop_refreshed [OF l1 map_fst_zip_distinct] assms(3) by simp
  have "aero_phase env (ft_aero st) e1 ch1 w1 =
      (fee_loop (aero_fee_answer (fv_abi env)) pm_fee_bps write_aero_fee (zip (ft_aero st) rs') e1 ch1, w2)"
    using aero_phase_answered [of env e1, OF _ assms(7)] assms(6) by (simp add: get_fee_calls_after [OF m1])
  then have l2: "fee_loop (aero_fee_answer (fv_abi env)) pm_fee_bps write_aero_fee (zip (ft_aero st) rs') e1 ch1 = (None, e, changed)"
    using a by simp
  have "eng_meta e i = rbind (eng_meta e1 i) (\<lambda>m. Inr (refreshed (aero_fee_answer (fv_abi env)) pm_fee_bps write_aero_fee (zip (ft_aero st) rs') i m))"
    using fee_loop_refreshed [OF l2 map_fst_zip_distinct] assms(3) by simp
  then show ?thesis by (simp add: run(2,3) announce_fees_engine m1 rbind_assoc)
qed

section \<open>A small instance\<close>

text \<open>One CL pool and one Aerodrome pool; the node answers every call with the word 256 hi + 6, and getFee decodes to 9.\<close>

definition fees_sample :: "u8 \<Rightarrow> (nat, unit) fees_env" where
  "fees_sample hi =
     \<lparr>fv_node = boot_node hi, fv_abi = boot_abi\<lparr>hd_u256 := \<lambda>_. Some 9\<rparr>, fv_store = store_build [] 2, fv_interval = 30000,
      fv_order = sorted_list_of_set\<rparr>"

definition fees_sample_state :: "nat fee_state" where
  "fees_sample_state =
     fees_start (fees_sample 0) 5
       \<lparr>eng_metas = [sample_meta 0 7, (sample_meta 1 9)\<lparr>pm_dex := AeroVolatile\<rparr>], eng_by_address = Map.empty,
        eng_fee_dynamic = {0}, eng_fee_recheck = {}, eng_head_block = 0\<rparr> (state_new 0) 0"

definition fees_sample_io :: "unit fees_io" where
  "fees_sample_io = \<lparr>fi_now = 405, fi_reset = 405, fi_sealed = 410, fi_rpc = (\<lambda>a sl. Inr 0), fi_open = True\<rparr>"

lemma fees_sample_start:
  "ft_cl fees_sample_state = [0]" "ft_aero fees_sample_state = [1]" "ft_world fees_sample_state = 0" "\<not> ft_done fees_sample_state"
  "sweep_due (fees_sample hi) fees_sample_io fees_sample_state" "ft_chain fees_sample_state = state_new 0"
  "ft_engine fees_sample_state = \<lparr>eng_metas = [sample_meta 0 7, (sample_meta 1 9)\<lparr>pm_dex := AeroVolatile\<rparr>],
     eng_by_address = Map.empty, eng_fee_dynamic = {0}, eng_fee_recheck = {}, eng_head_block = 0\<rparr>" "ft_batches fees_sample_state = []"
  by (simp_all add: fees_sample_state_def fees_start_def fees_sample_def Let_def sample_meta_def is_aero_def fee_from_word_def
      cs_plan_def get_def state_new_def sweep_due_def fees_sample_io_def)

lemma fees_sample_io: "fi_open fees_sample_io"
  by (simp add: fees_sample_io_def)

lemma fees_sample_calls:
  "\<exists>c. fee_calls (fees_sample hi) (ft_engine fees_sample_state) [0] = Inr [c] \<and>
    aggregate3 (fv_node (fees_sample hi)) [c] FEES_MC_BATCH w = (Inr [word_answer hi 6], w + 1)"
  "\<exists>c. get_fee_calls (fees_sample hi) (ft_engine fees_sample_state) [1] = Inr [c] \<and>
    aggregate3 (fv_node (fees_sample hi)) [c] FEES_MC_BATCH w = (Inr [word_answer hi 6], w + 1)"
  by (simp_all add: fee_calls_def get_fee_calls_def fees_sample_start(7) eng_meta_def idx_get_def index_def FEES_MC_BATCH_def
      fees_sample_def boot_aggregate)

lemma fees_sample_answers:
  "cl_fee_answer (word_answer 0 6) = Inr (Some 6)" "aero_fee_answer (fv_abi (fees_sample hi)) (word_answer hi 6) = Inr (Some 9)"
proof -
  have "decode_u128 (rs_data (word_answer 0 6)) = Inr (Some 6)"
    unfolding decode_u128_def be_word_answer by (simp add: word_answer_def to_u128_def)
  then show "cl_fee_answer (word_answer 0 6) = Inr (Some 6)" by (simp add: cl_fee_answer_def viewed_fee_def word_answer_def)
  show "aero_fee_answer (fv_abi (fees_sample hi)) (word_answer hi 6) = Inr (Some 9)"
    by (simp add: aero_fee_answer_def fees_sample_def word_answer_def to_u32_def)
qed

lemma fees_sample_round:
  "\<not> ft_done (fee_round (fees_sample 0) fees_sample_io fees_sample_state)"
  "\<exists>b. ft_batches (fee_round (fees_sample 0) fees_sample_io fees_sample_state) = [b] \<and> cb_pools b = [0, 1]"
proof -
  let ?e = "(ft_engine fees_sample_state)\<lparr>eng_fee_recheck := {}\<rparr>"
  obtain c where c: "fee_calls (fees_sample 0) ?e [0] = Inr [c]"
    "aggregate3 (fv_node (fees_sample 0)) [c] FEES_MC_BATCH 0 = (Inr [word_answer 0 6], 1)"
    using fees_sample_calls(1) [of 0 0] by (auto simp: fee_calls_recheck)
  let ?e1 = "update_meta (write_cl_fee 6) 0 ?e"
  have m0: "eng_meta (ft_engine fees_sample_state) 0 = Inr (sample_meta 0 7)" "pm_fee_pips (sample_meta 0 7) = 3000"
    by (simp_all add: fees_sample_start(7) eng_meta_def idx_get_def index_def sample_meta_def)
  have cl: "cl_phase (fees_sample 0) [0] ?e 0 = ((None, ?e1, [0]), 1)"
    unfolding cl_phase_answered [OF c] by (simp add: fees_sample_answers m0)
  have m1: "eng_meta ?e1 1 = Inr ((sample_meta 1 9)\<lparr>pm_dex := AeroVolatile\<rparr>)"
    by (simp add: update_meta_def fees_sample_start(7) eng_meta_def idx_get_def index_def)
  obtain c1 where "get_fee_calls (fees_sample 0) ?e1 [1] = Inr [c1]"
    "aggregate3 (fv_node (fees_sample 0)) [c1] FEES_MC_BATCH 1 = (Inr [word_answer 0 6], 2)"
    by (simp add: get_fee_calls_def m1 FEES_MC_BATCH_def fees_sample_def boot_aggregate)
  note aero_phase_answered [OF this]
  then have aero: "aero_phase (fees_sample 0) [1] ?e1 [0] (Suc 0) = ((None, update_meta (write_aero_fee 9) 1 ?e1, [0, 1]), 2)"
    by (simp add: fees_sample_answers m1 sample_meta_def)
  have p: "polled (fees_sample 0) fees_sample_io fees_sample_state = ((None, update_meta (write_aero_fee 9) 1 ?e1, [0, 1]), 2)"
    by (simp add: polled_def fee_targets_def fees_sample_start(1-6) cl aero)
  have "prefetch_neighborhood (fi_rpc fees_sample_io) (fv_store (fees_sample 0)) [0, 1] (state_new 0) = Inr (state_new 0)"
    by (simp add: prefetch_neighborhood_def neighborhood_def routes_for_pool_def fees_sample_def store_build_def get_def idx_get_def
        pool_slots_def cs_plan_def state_new_def Let_def)
  then show "\<not> ft_done (fee_round (fees_sample 0) fees_sample_io fees_sample_state)"
    "\<exists>b. ft_batches (fee_round (fees_sample 0) fees_sample_io fees_sample_state) = [b] \<and> cb_pools b = [0, 1]"
    by (simp_all add: fee_round_def p announce_fees_def fees_sample_start fees_sample_io)
qed

section \<open>Properties\<close>

text \<open>C14. A fee never changes silently: the metadata of a pool is different after a turn exactly when the turn
  announced the pool, and before announcing, it prefetched the storage of every route through the
  announced pools.\<close>
theorem fees_announced:
  assumes "\<not> ft_done (fee_round env io st)" "polls_once env st"
  defines "st' \<equiv> fee_round env io st"
  shows "\<exists>bs. ft_batches st' = ft_batches st @ bs \<and> length bs \<le> 1 \<and>
    (\<forall>i. eng_meta (ft_engine st') i \<noteq> eng_meta (ft_engine st) i \<longleftrightarrow> (\<exists>b \<in> set bs. i \<in> set (cb_pools b))) \<and>
    (\<forall>b \<in> set bs. prefetch_neighborhood (fi_rpc io) (fv_store env) (cb_pools b) (ft_chain st) = Inr (ft_chain st'))"
proof -
  obtain e changed w st1 where run: "polled env io st = ((None, e, changed), w)"
    "st1 = st\<lparr>ft_engine := e, ft_world := w, ft_last_sweep := (if sweep_due env io st then int (fi_reset io) else ft_last_sweep st)\<rparr>"
    "fee_round env io st = announce_fees env io changed st1"
    by (rule fee_round_live [OF assms(1)])
  have e: "ft_engine st' = e" by (simp add: st'_def run(2,3) announce_fees_engine)
  have diff: "eng_meta (ft_engine st') i \<noteq> eng_meta (ft_engine st) i \<longleftrightarrow> i \<in> set changed" for i
    using polled_frame [OF run(1)] assms(2) by (auto simp: e fees_frame_def)
  note live = announce_fees_live [OF assms(1) [unfolded run(3)], folded run(3) st'_def]
  show ?thesis
  proof (cases "changed = []")
    case True
    then show ?thesis using live diff by (intro exI [of _ "[]"]) (simp add: run(2))
  next
    case False
    let ?b = "\<lparr>cb_block = head_block (ft_engine st1), cb_pools = changed, cb_ts = fi_sealed io\<rparr>"
    have "ft_batches st' = ft_batches st @ [?b]"
      "prefetch_neighborhood (fi_rpc io) (fv_store env) changed (ft_chain st) = Inr (ft_chain st')"
      using live False by (simp_all add: run(2))
    then show ?thesis using diff by (intro exI [of _ "[?b]"]) simp
  qed
qed

theorem fees_announced_witness:
  "\<exists>b. ft_batches (fee_round (fees_sample 0) fees_sample_io fees_sample_state) = [b] \<and>
     eng_meta (ft_engine (fee_round (fees_sample 0) fees_sample_io fees_sample_state)) 1 \<noteq> eng_meta (ft_engine fees_sample_state) 1"
proof -
  have "polls_once (fees_sample 0) fees_sample_state" by (simp add: polls_once_def fees_sample_start fees_sample_def)
  from fees_announced [OF fees_sample_round(1) this] fees_sample_round(2) show ?thesis
    by (auto simp: fees_sample_start(8))
qed

text \<open>C28. After a sweep that the node answered, every pool's fee is the one its contract reported, and a pool
  with no usable answer kept its metadata.\<close>
theorem fee_sweep_installs:
  assumes "\<not> ft_done (fee_round env io st)" "sweep_due env io st" "distinct (ft_cl st @ ft_aero st)"
    and "fee_calls env (ft_engine st) (ft_cl st) = Inr calls"
    and "aggregate3 (fv_node env) calls FEES_MC_BATCH (ft_world st) = (Inr rs, w1)"
    and "get_fee_calls env (ft_engine st) (ft_aero st) = Inr calls'"
    and "aggregate3 (fv_node env) calls' FEES_MC_BATCH w1 = (Inr rs', w2)"
  defines "e' \<equiv> ft_engine (fee_round env io st)"
  shows "(\<forall>(i, r) \<in> set (zip (ft_cl st) rs). \<forall>v. cl_fee_answer r = Inr (Some v) \<longrightarrow> (\<exists>m. eng_meta e' i = Inr m \<and> pm_fee_pips m = v)) \<and>
    (\<forall>(i, r) \<in> set (zip (ft_aero st) rs'). \<forall>v. aero_fee_answer (fv_abi env) r = Inr (Some v) \<longrightarrow> (\<exists>m. eng_meta e' i = Inr m \<and> pm_fee_bps m = v)) \<and>
    (\<forall>i. (\<forall>r v. ((i, r) \<in> set (zip (ft_cl st) rs) \<longrightarrow> cl_fee_answer r \<noteq> Inr (Some v)) \<and>
         ((i, r) \<in> set (zip (ft_aero st) rs') \<longrightarrow> aero_fee_answer (fv_abi env) r \<noteq> Inr (Some v))) \<longrightarrow>
       eng_meta e' i = eng_meta (ft_engine st) i)"
proof -
  let ?c = "zip (ft_cl st) rs" and ?a = "zip (ft_aero st) rs'"
  note metas = sweep_metas [OF assms(1-7), folded e'_def]
  have d: "distinct (map fst ?c)" "distinct (map fst ?a)" "fst ` set ?c \<inter> fst ` set ?a = {}"
    using assms(3) fst_zip_subset [of "ft_cl st" rs] fst_zip_subset [of "ft_aero st" rs'] by (auto simp: map_fst_zip_distinct)
  have cl: "\<exists>m. eng_meta e' i = Inr m \<and> pm_fee_pips m = v" if h: "(i, r) \<in> set ?c" "cl_fee_answer r = Inr (Some v)" for i r v
  proof -
    obtain m where "eng_meta (ft_engine st) i = Inr m"
      using rmap_meta_Inr [OF assms(4) [unfolded fee_calls_def]] set_zip_leftD [OF h(1)] by blast
    moreover have "i \<notin> fst ` set ?a" using d(3) h(1) by force
    ultimately show ?thesis by (simp add: metas refreshed_miss refreshed_hit [OF h(1) d(1)] h(2))
  qed
  have aero: "\<exists>m. eng_meta e' i = Inr m \<and> pm_fee_bps m = v"
    if h: "(i, r) \<in> set ?a" "aero_fee_answer (fv_abi env) r = Inr (Some v)" for i r v
  proof -
    obtain m where "eng_meta (ft_engine st) i = Inr m"
      using rmap_meta_Inr [OF assms(6) [unfolded get_fee_calls_def]] set_zip_leftD [OF h(1)] by blast
    then show ?thesis by (simp add: metas refreshed_hit [OF h(1) d(2)] h(2))
  qed
  have keep: "refreshed answer current write items i m = m"
    if "\<forall>r v. (i, r) \<in> set items \<longrightarrow> answer r \<noteq> Inr (Some v)" for answer current "write" and items :: "(pool_idx \<times> mc_result) list" and i m
    using that by (auto simp: refreshed_def dest!: map_of_SomeD split: option.split sum.split)
  show ?thesis using cl aero by (auto simp: metas keep rbind_def split: sum.split)
qed

theorem fee_sweep_installs_witness:
  "\<exists>m. eng_meta (ft_engine (fee_round (fees_sample 0) fees_sample_io fees_sample_state)) 0 = Inr m \<and> pm_fee_pips m = 6"
proof -
  obtain c where c: "fee_calls (fees_sample 0) (ft_engine fees_sample_state) [0] = Inr [c]"
    "aggregate3 (fv_node (fees_sample 0)) [c] FEES_MC_BATCH 0 = (Inr [word_answer 0 6], 1)"
    using fees_sample_calls(1) [of 0 0] by auto
  obtain c1 where c1: "get_fee_calls (fees_sample 0) (ft_engine fees_sample_state) [1] = Inr [c1]"
    "aggregate3 (fv_node (fees_sample 0)) [c1] FEES_MC_BATCH 1 = (Inr [word_answer 0 6], 2)"
    using fees_sample_calls(2) [of 0 1] by auto
  have "distinct (ft_cl fees_sample_state @ ft_aero fees_sample_state)" by (simp add: fees_sample_start)
  from fee_sweep_installs [OF fees_sample_round(1) fees_sample_start(5) this, unfolded fees_sample_start(1-3), OF c c1]
  show ?thesis by (simp add: fees_sample_answers)
qed

text \<open>The fast path is dead code: as long as the node answers, no pool is ever flagged for a recheck, and a turn
  between two sweeps does nothing.\<close>
lemma fast_path_dead:
  fixes inputs :: "'r fee_input list" and w :: 'w and io :: "'r fees_io" and s :: chain_state and now :: nat
  assumes "\<forall>calls w. \<exists>rs w'. aggregate3 (fv_node env) calls FEES_MC_BATCH w = (Inr rs, w')" "fv_order env {} = []"
    and "eng_fee_recheck e = {}"
  defines "st \<equiv> fee_run env inputs (fees_start env now e s w)"
  shows "eng_fee_recheck (ft_engine st) = {} \<and> (\<not> sweep_due env io st \<longrightarrow> fee_round env io st = st)"
proof -
  have cl: "eng_fee_recheck e2 = eng_fee_recheck e1" if run: "cl_phase env targets e1 w1 = ((p, e2, changed), w2)" for targets e1 w1 p e2 changed w2
  proof -
    have "snd (fst (cl_phase env targets e1 w1)) = (e2, changed)" using run by simp
    then show ?thesis
      using fee_loop_fees_frame [of cl_fee_answer pm_fee_pips write_cl_fee targets _ e1 "[]" p e2 changed] run assms(1)
      by (auto simp: cl_phase_def split: if_splits sum.splits prod.splits) (metis Inl_Inr_False prod.inject)+
  qed
  have turn: "eng_fee_recheck (ft_engine (fee_round env io st)) = {}" if empty: "eng_fee_recheck (ft_engine st) = {}" for io :: "'r fees_io" and st :: "'w fee_state"
  proof -
    obtain targets e0 where t: "fee_targets env io st = (targets, e0)" by fastforce
    then have e0: "eng_fee_recheck e0 = {}" using empty by (auto simp: fee_targets_def Let_def split: if_splits)
    obtain p e1 changed w1 where c: "cl_phase env targets e0 (ft_world st) = ((p, e1, changed), w1)" by (metis prod.exhaust)
    obtain q e2 changed2 w2 where a: "aero_phase env (ft_aero st) e1 changed w1 = ((q, e2, changed2), w2)" by (metis prod.exhaust)
    have "eng_fee_recheck e1 = {}" "eng_fee_recheck e2 = {}" using cl [OF c] aero_phase_frame [OF a] e0 by simp_all
    then show ?thesis
      using empty by (auto simp: fee_round_def polled_def t c a announce_fees_engine Let_def split: option.split)
  qed
  have "eng_fee_recheck (ft_engine (fee_run env inputs st0)) = {}" if "eng_fee_recheck (ft_engine st0) = {}" for inputs :: "'r fee_input list" and st0 :: "'w fee_state"
    using that
  proof (induction inputs arbitrary: st0)
    case (Cons input inputs)
    then show ?case by (cases input) (simp_all add: turn set_head_def)
  qed simp
  then have empty: "eng_fee_recheck (ft_engine st) = {}" using assms(3) by (simp add: st_def fees_start_def Let_def)
  have "fee_round env io st = st" if quiet: "\<not> sweep_due env io st"
  proof -
    have "(ft_engine st)\<lparr>eng_fee_recheck := {}\<rparr> = ft_engine st" using empty by (metis engine.surjective engine.update_convs(4))
    then have "fee_targets env io st = ([], ft_engine st)" using quiet empty assms(2) by (simp add: fee_targets_def)
    then show ?thesis using quiet by (simp add: fee_round_def polled_def cl_phase_def announce_fees_def)
  qed
  then show ?thesis using empty by blast
qed

theorem fast_path_dead_witness:
  "eng_fee_recheck (ft_engine (fee_run ((fees_sample 0)\<lparr>fv_node := \<lambda>q w. (Inr [], w)\<rparr>) [Turn fees_sample_io]
     (fees_start ((fees_sample 0)\<lparr>fv_node := \<lambda>q w. (Inr [], w)\<rparr>) 5 empty_engine (state_new 0) 0))) = {}"
proof -
  let ?p = "\<lambda>(q :: mc_call3 list) (w :: nat). (Inr [] :: unit + mc_result list, w)"
  have r: "with_retries ?p 5 q w = (Inr [], w)" for q w by (simp add: numeral_eq_Suc)
  have "aggregate_chunks ?p cs acc w = (Inr acc, w)" for cs acc w by (induction cs arbitrary: acc) (simp_all add: r)
  then have "\<forall>calls w. \<exists>rs w'. aggregate3 (fv_node ((fees_sample 0)\<lparr>fv_node := ?p\<rparr>)) calls FEES_MC_BATCH w = (Inr rs, w')"
    by (simp add: aggregate3_def)
  then show ?thesis by (rule fast_path_dead [THEN conjunct1]) (simp_all add: fees_sample_def empty_engine_def)
qed

lemma fee_run_done:
  assumes "ft_done st"
  shows "ft_done (fee_run env inputs st) \<and> eng_metas (ft_engine (fee_run env inputs st)) = eng_metas (ft_engine st) \<and>
    ft_batches (fee_run env inputs st) = ft_batches st"
  using assms by (induction env inputs st rule: fee_run.induct) (simp_all add: fee_round_def set_head_def)

text \<open>C29. One hostile pool ends the tracker for good: a fee view that returns 2^128 or more makes the task panic, the
  fees it already wrote in that turn are never announced, and no fee is refreshed afterwards.\<close>
theorem fee_tracker_dies:
  assumes "\<not> ft_done st" "fee_targets env io st = (targets, e)" "fee_calls env e targets = Inr calls"
    and "aggregate3 (fv_node env) calls FEES_MC_BATCH (ft_world st) = (Inr rs, w)"
    and "(i, r) \<in> set (zip targets rs)" "rs_success r" "32 \<le> length (rs_data r)" "2 ^ 128 \<le> unat (be_word (take 32 (rs_data r)) :: u256)"
  defines "dead \<equiv> fee_round env io st"
  shows "ft_done dead \<and> ft_done (fee_run env inputs dead) \<and>
    eng_metas (ft_engine (fee_run env inputs dead)) = eng_metas (ft_engine dead) \<and> ft_batches (fee_run env inputs dead) = ft_batches st"
proof -
  have bad: "cl_fee_answer r = Inl ConversionLoss"
    using assms(6-8) by (simp add: cl_fee_answer_def viewed_fee_def decode_u128_def to_u128_def)
  obtain p e1 changed where l: "fee_loop cl_fee_answer pm_fee_pips write_cl_fee (zip targets rs) e [] = (p, e1, changed)"
    by (metis prod.exhaust)
  obtain q where q: "p = Some q" using fee_loop_panic [where answer = cl_fee_answer, OF assms(5) bad l] by blast
  have "polled env io st = ((Some q, e1, changed), w)"
    by (simp add: polled_def assms(2) cl_phase_answered [OF assms(3,4)] l q)
  then have "ft_done dead" "ft_batches dead = ft_batches st" using assms(1) by (simp_all add: dead_def fee_round_def Let_def)
  then show ?thesis using fee_run_done [of dead env inputs] by simp
qed

theorem fee_tracker_dies_witness:
  "ft_done (fee_run (fees_sample 1) [Turn fees_sample_io] (fee_round (fees_sample 1) fees_sample_io fees_sample_state))"
proof -
  let ?e = "(ft_engine fees_sample_state)\<lparr>eng_fee_recheck := {}\<rparr>"
  have t: "fee_targets (fees_sample 1) fees_sample_io fees_sample_state = ([0], ?e)"
    by (simp add: fee_targets_def fees_sample_start)
  obtain c where c: "fee_calls (fees_sample 1) ?e [0] = Inr [c]"
    "aggregate3 (fv_node (fees_sample 1)) [c] FEES_MC_BATCH (ft_world fees_sample_state) = (Inr [word_answer 1 6], 1)"
    using fees_sample_calls(1) [of 1 0] by (auto simp: fee_calls_recheck fees_sample_start)
  have r: "(0, word_answer 1 6) \<in> set (zip [0 :: pool_idx] [word_answer 1 6])" "rs_success (word_answer 1 6)"
    "32 \<le> length (rs_data (word_answer 1 6))" by (simp_all add: word_answer_def)
  have "2 ^ 128 \<le> unat (be_word (take 32 (rs_data (word_answer 1 6))) :: u256)" unfolding be_word_answer by simp
  from fee_tracker_dies [OF fees_sample_start(4) t c r this] show ?thesis by blast
qed

end
