(* ===== verification/Pricing.thy ===== *)
theory Pricing
  imports Config
begin

text \<open>
  Anchor prices, \<^verbatim>\<open>src/pricing.rs\<close>: the WETH value of one unit of every anchor, computed once at start-up from
  two HTTP services whose answers are parameters.
\<close>

section \<open>Sources\<close>

record ('w, 'e) price_env =
  px_client :: "'e option"                          \<comment> \<open>an error of building the client\<close>
  px_binance :: "string \<Rightarrow> 'w \<Rightarrow> ('e + f64) \<times> 'w"    \<comment> \<open>request, response and number parsed\<close>
  px_coingecko :: "string \<Rightarrow> 'w \<Rightarrow> ('e + f64) \<times> 'w"

datatype 'e price_error = Request 'e | NoPriceSource address | BadPrice string | AnchorPrice string "'e price_error"

definition binance_symbol :: "address \<Rightarrow> string option" where
  "binance_symbol token = (if token = WETH then Some ''ETHUSDT'' else None)"

definition coingecko_id :: "address \<Rightarrow> string option" where
  "coingecko_id token = (if token = USDG then Some ''global-dollar'' else None)"

definition price_request :: "(string \<Rightarrow> 'w \<Rightarrow> ('e + f64) \<times> 'w) \<Rightarrow> string \<Rightarrow> 'w \<Rightarrow> ('e price_error + f64) \<times> 'w" where
  "price_request service name w =
     (case service name w of (Inl e, w1) \<Rightarrow> (Inl (Request e), w1) | (Inr p, w1) \<Rightarrow> (Inr p, w1))"

definition fetch_usd_price :: "('w, 'e) price_env \<Rightarrow> address \<Rightarrow> 'w \<Rightarrow> ('e price_error + f64) \<times> 'w" where
  "fetch_usd_price env token w =
     (case binance_symbol token of
        Some symbol \<Rightarrow> price_request (px_binance env) symbol w
      | None \<Rightarrow>
          (case coingecko_id token of
             Some coin \<Rightarrow> price_request (px_coingecko env) coin w
           | None \<Rightarrow> (Inl (NoPriceSource token), w)))"

section \<open>Rates\<close>

text \<open>The loop over the anchors; the WETH price is asked for when the first other anchor comes up.\<close>

fun rate_loop ::
    "('w, 'e) price_env \<Rightarrow> anchor_config list \<Rightarrow> f64 option \<Rightarrow> (address \<rightharpoonup> f64) \<Rightarrow> 'w
      \<Rightarrow> ('e price_error + (address \<rightharpoonup> f64)) \<times> 'w" where
  "rate_loop env [] weth_usd rates w = (Inr rates, w)"
| "rate_loop env (a # anchors) weth_usd rates w =
     (if an_token a = WETH then rate_loop env anchors weth_usd (rates(an_token a \<mapsto> f64_lit 1)) w
      else
        case (case weth_usd of Some p \<Rightarrow> (Inr p, w) | None \<Rightarrow> fetch_usd_price env WETH w) of
          (Inl e, w1) \<Rightarrow> (Inl e, w1)
        | (Inr weth, w1) \<Rightarrow>
            (case fetch_usd_price env (an_token a) w1 of
               (Inl e, w2) \<Rightarrow> (Inl (AnchorPrice (an_symbol a) e), w2)
             | (Inr usd, w2) \<Rightarrow>
                 if flt (f64_lit 0) usd
                 then rate_loop env anchors (Some weth) (rates(an_token a \<mapsto> fdiv usd weth)) w2
                 else (Inl (BadPrice (an_symbol a)), w2)))"

definition fetch_anchor_rates ::
    "('w, 'e) price_env \<Rightarrow> anchor_config list \<Rightarrow> 'w \<Rightarrow> ('e price_error + (address \<rightharpoonup> f64)) \<times> 'w" where
  "fetch_anchor_rates env anchors w =
     (case px_client env of Some e \<Rightarrow> (Inl (Request e), w) | None \<Rightarrow> rate_loop env anchors None Map.empty w)"

section \<open>Every anchor is priced\<close>

text \<open>A rate table: WETH is worth one WETH, another anchor a positive price over the WETH price.\<close>

definition priced :: "f64 \<Rightarrow> (address \<rightharpoonup> f64) \<Rightarrow> bool" where
  "priced weth rates \<longleftrightarrow>
     (\<forall>t r. rates t = Some r \<longrightarrow>
        (if t = WETH then r = f64_lit 1 else t = USDG \<and> (\<exists>usd. flt (f64_lit 0) usd \<and> r = fdiv usd weth)))"

definition rates_ok :: "anchor_config list \<Rightarrow> (address \<rightharpoonup> f64) \<Rightarrow> bool" where
  "rates_ok anchors rates \<longleftrightarrow> dom rates = an_token ` set anchors \<and> (\<exists>weth. priced weth rates)"

lemma priced_WETH: "priced weth rates \<Longrightarrow> priced weth (rates(WETH \<mapsto> f64_lit 1))"
  by (simp add: priced_def)

lemma priced_USDG: "priced weth rates \<Longrightarrow> t = USDG \<Longrightarrow> t \<noteq> WETH \<Longrightarrow> flt (f64_lit 0) usd \<Longrightarrow> priced weth (rates(t \<mapsto> fdiv usd weth))"
  unfolding priced_def by (metis map_upd_Some_unfold)

lemma fetch_usd_price_known: "fetch_usd_price env t w = (Inr p, w') \<Longrightarrow> t = WETH \<or> t = USDG"
  by (auto simp: fetch_usd_price_def binance_symbol_def coingecko_id_def split: if_splits)

lemma rate_loop_known:
  assumes "rate_loop env anchors (Some weth) rates w = (Inr rates', w')" "priced weth rates"
  shows "dom rates' = dom rates \<union> an_token ` set anchors \<and> priced weth rates'"
  using assms
proof (induction anchors arbitrary: rates w)
  case (Cons a anchors)
  show ?case
  proof (cases "an_token a = WETH")
    case True
    then have "rate_loop env anchors (Some weth) (rates(WETH \<mapsto> f64_lit 1)) w = (Inr rates', w')" using Cons.prems(1) by simp
    from Cons.IH [OF this priced_WETH [OF Cons.prems(2)]] True show ?thesis by auto
  next
    case False
    then obtain usd w2 where usd: "fetch_usd_price env (an_token a) w = (Inr usd, w2)" "flt (f64_lit 0) usd"
      "rate_loop env anchors (Some weth) (rates(an_token a \<mapsto> fdiv usd weth)) w2 = (Inr rates', w')"
      using Cons.prems(1) by (auto split: prod.splits sum.splits if_splits)
    have "an_token a = USDG" using fetch_usd_price_known [OF usd(1)] False by blast
    from Cons.IH [OF usd(3) priced_USDG [OF Cons.prems(2) this False usd(2)]] show ?thesis by auto
  qed
qed simp

lemma rate_loop_first:
  assumes "rate_loop env anchors None rates w = (Inr rates', w')" "\<forall>weth. priced weth rates"
  shows "dom rates' = dom rates \<union> an_token ` set anchors \<and> (\<exists>weth. priced weth rates')"
  using assms
proof (induction anchors arbitrary: rates w)
  case (Cons a anchors)
  show ?case
  proof (cases "an_token a = WETH")
    case True
    then have loop: "rate_loop env anchors None (rates(WETH \<mapsto> f64_lit 1)) w = (Inr rates', w')" using Cons.prems(1) by simp
    have "\<forall>weth. priced weth (rates(WETH \<mapsto> f64_lit 1))" using Cons.prems(2) priced_WETH by blast
    from Cons.IH [OF loop this] True show ?thesis by auto
  next
    case False
    then obtain weth w1 where weth: "rate_loop env (a # anchors) (Some weth) rates w1 = (Inr rates', w')"
      using Cons.prems(1) by (auto split: prod.splits sum.splits if_splits)
    from rate_loop_known [OF this] Cons.prems(2) show ?thesis by blast
  qed
qed auto

lemma anchor_rates_ok:
  assumes "fetch_anchor_rates env anchors w = (Inr rates, w')"
  shows "rates_ok anchors rates"
proof -
  have "rate_loop env anchors None Map.empty w = (Inr rates, w')"
    using assms by (simp add: fetch_anchor_rates_def split: option.splits)
  moreover have "\<forall>weth. priced weth Map.empty" by (simp add: priced_def)
  ultimately show ?thesis using rate_loop_first unfolding rates_ok_def by fastforce
qed

text \<open>
  The WETH price itself is not checked: a service that answers zero makes every other rate infinite.
\<close>

lemma zero_weth_price:
  assumes "px_client env = None" "px_binance env ''ETHUSDT'' w = (Inr (f64_lit 0), w1)"
    "px_coingecko env ''global-dollar'' w1 = (Inr (f64_lit 1), w2)" "an_token a = USDG"
  shows "fetch_anchor_rates env [a] w = (Inr [USDG \<mapsto> FInf False], w2)"
proof -
  have t: "USDG \<noteq> WETH" by (simp add: USDG_def WETH_def)
  have "flt (f64_lit 0) (f64_lit 1)" "fdiv (f64_lit 1) (f64_lit 0) = FInf False" by code_simp+
  then show ?thesis using assms t
    by (simp add: fetch_anchor_rates_def fetch_usd_price_def binance_symbol_def coingecko_id_def price_request_def)
qed

end
