(* ===== verification/Pipeline.thy ===== *)
theory Pipeline
  imports Evaluator Rpc_Backend
begin

text \<open>
  The block-batched ingest pipeline, \<^verbatim>\<open>src/ingest/pipeline.rs\<close>: it collects the pools logs touch,
  seals them per block into a changed batch after prefetching their route neighbourhood, keeps the
  tick cache patched, and announces every pool on a resync.  One step handles one input; what the
  environment answers during it (RPC reads, clock, room in the channels) is the step's \<open>io\<close>.
\<close>

section \<open>State\<close>

record 'e pipe_env =
  pv_keccak :: "u8 list \<Rightarrow> b256"
  pv_store :: route_store
  pv_drain :: "pool_idx list \<Rightarrow> pool_idx list"   \<comment> \<open>order in which the hash set drains\<close>

record 'e pipe_io =
  io_rpc :: "'e storage_rpc"        \<comment> \<open>reads of a prefetch, or of a patch's bitmap words\<close>
  io_rpc_ticks :: "'e storage_rpc"  \<comment> \<open>reads of a patch's tick slots\<close>
  io_rpc_seal :: "'e storage_rpc"   \<comment> \<open>reads of the seal an event triggers first\<close>
  io_now :: nat
  io_changed_open :: bool
  io_resync_room :: bool

record pipeline =
  pl_open :: u64
  pl_dirty :: "pool_idx list"
  pl_have :: bool
  pl_state :: chain_state
  pl_engine :: engine
  pl_gas :: gas_station
  pl_batches :: "changed_batch list"
  pl_resync :: "pool_idx list"
  pl_done :: bool

definition pipeline_new :: "engine \<Rightarrow> chain_state \<Rightarrow> gas_station \<Rightarrow> pipeline" where
  "pipeline_new e s g =
     \<lparr>pl_open = 0, pl_dirty = [], pl_have = False, pl_state = s, pl_engine = e, pl_gas = g, pl_batches = [],
      pl_resync = [], pl_done = False\<rparr>"

datatype pipe_input = Event ingest_event | QuietTimeout | IngestClosed

section \<open>Sealing\<close>

definition announce :: "bool \<Rightarrow> changed_batch \<Rightarrow> pipeline \<Rightarrow> pipeline" where
  "announce is_open batch s = (if is_open then s\<lparr>pl_batches := pl_batches s @ [batch]\<rparr> else s)"

definition seal :: "'e pipe_env \<Rightarrow> 'e storage_rpc \<Rightarrow> 'e pipe_io \<Rightarrow> u64 \<Rightarrow> pipeline \<Rightarrow> pipeline res" where
  "seal env rpc io block s =
     (if pl_dirty s = [] then Inr s
      else
        let pools = pv_drain env (pl_dirty s)
        in rbind (advance_and_prefetch rpc (pv_store env) block pools (pl_state s)) (\<lambda>st.
             Inr (announce (io_changed_open io) \<lparr>cb_block = block, cb_pools = pools, cb_ts = io_now io\<rparr>
                    (s\<lparr>pl_dirty := [], pl_state := st\<rparr>))))"

definition prefetch_pools :: "'e storage_rpc \<Rightarrow> pool_idx list \<Rightarrow> chain_state \<Rightarrow> chain_state" where
  "prefetch_pools rpc pools s =
     (let slots = concat (map (pool_slots s) pools) in if slots \<noteq> [] then prefetch rpc slots s else s)"

definition resync_all :: "'e storage_rpc \<Rightarrow> 'e pipe_io \<Rightarrow> u64 \<Rightarrow> pipeline \<Rightarrow> pipeline" where
  "resync_all rpc io block s =
     (let all_pools = map of_nat [0 ..< unat (of_nat (eng_len (pl_engine s)) :: u32)]
      in announce (io_changed_open io) \<lparr>cb_block = block, cb_pools = all_pools, cb_ts = io_now io\<rparr>
           (s\<lparr>pl_state := prefetch_pools rpc all_pools (advance_to block (pl_state s))\<rparr>))"

section \<open>Events\<close>

definition on_head :: "'e pipe_env \<Rightarrow> 'e pipe_io \<Rightarrow> u64 \<Rightarrow> u128 \<Rightarrow> pipeline \<Rightarrow> pipeline res" where
  "on_head env io number base_fee_per_gas s =
     rbind (if pl_have s \<and> pl_open s < number then seal env (io_rpc_seal io) io (pl_open s) s else Inr s) (\<lambda>s1.
       Inr (s1\<lparr>pl_gas := on_new_head base_fee_per_gas (pl_gas s1), pl_engine := set_head number (pl_engine s1),
               pl_open := number, pl_have := True\<rparr>))"

definition open_for :: "'e pipe_env \<Rightarrow> 'e pipe_io \<Rightarrow> u64 \<Rightarrow> pipeline \<Rightarrow> pipeline res" where
  "open_for env io block s =
     (if pl_open s < block then
        rbind (if pl_have s then seal env (io_rpc_seal io) io (pl_open s) s else Inr s) (\<lambda>s1.
          Inr (s1\<lparr>pl_open := block, pl_have := True\<rparr>))
      else Inr s)"

definition patch_touched :: "'e pipe_env \<Rightarrow> 'e pipe_io \<Rightarrow> pool_idx \<Rightarrow> (int \<times> int) option \<Rightarrow> pipeline \<Rightarrow> pipeline res" where
  "patch_touched env io idx touched s =
     (case (touched, cs_plan (pl_state s) idx) of
        (Some (lo, hi), Some (PCl c)) \<Rightarrow>
          rbind (eng_meta (pl_engine s) idx) (\<lambda>m.
          rbind (patch_cl_ticks (pv_keccak env) (io_rpc io) (io_rpc_ticks io) (cl_addr c) (cl_ticks_base c)
                   (cl_bitmap_base c) (pm_tick_spacing m) [lo, hi] (pl_state s)) (\<lambda>st.
            Inr (s\<lparr>pl_state := st\<rparr>)))
      | _ \<Rightarrow> Inr s)"

definition queue_resync :: "'e pipe_io \<Rightarrow> pool_idx \<Rightarrow> pipeline \<Rightarrow> pipeline" where
  "queue_resync io idx s =
     (case cs_plan (pl_state s) idx of
        Some (PCl c) \<Rightarrow> if io_resync_room io then s\<lparr>pl_resync := pl_resync s @ [idx]\<rparr> else s
      | _ \<Rightarrow> s)"

definition on_log :: "'e pipe_env \<Rightarrow> 'e pipe_io \<Rightarrow> u64 \<Rightarrow> pool_idx \<Rightarrow> (int \<times> int) option \<Rightarrow> pipeline \<Rightarrow> pipeline res" where
  "on_log env io block idx touched s =
     rbind (open_for env io block s) (\<lambda>s1.
     rbind (patch_touched env io idx touched (s1\<lparr>pl_dirty := List.insert idx (pl_dirty s1)\<rparr>)) (\<lambda>s2.
       Inr (queue_resync io idx s2)))"

definition pipe_step :: "'e pipe_env \<Rightarrow> 'e pipe_io \<Rightarrow> pipe_input \<Rightarrow> pipeline \<Rightarrow> pipeline res" where
  "pipe_step env io input s =
     (if pl_done s then Inr s
      else case input of
        Event (NewHead number ts fee) \<Rightarrow> on_head env io number fee s
      | Event (PoolLog block idx touched) \<Rightarrow> on_log env io block idx touched s
      | Event ResyncAll \<Rightarrow> Inr (resync_all (io_rpc io) io (max (pl_open s) (head_block (pl_engine s))) s)
      | QuietTimeout \<Rightarrow>
          if pl_have s then rbind (seal env (io_rpc io) io (pl_open s) s) (\<lambda>s1. Inr (s1\<lparr>pl_have := False\<rparr>))
          else Inr s
      | IngestClosed \<Rightarrow>
          rbind (if pl_have s then seal env (io_rpc io) io (pl_open s) s else Inr s) (\<lambda>s1. Inr (s1\<lparr>pl_done := True\<rparr>)))"

fun pipe_run :: "'e pipe_env \<Rightarrow> ('e pipe_io \<times> pipe_input) list \<Rightarrow> pipeline \<Rightarrow> pipeline res" where
  "pipe_run env [] s = Inr s"
| "pipe_run env ((io, input) # rest) s = rbind (pipe_step env io input s) (pipe_run env rest)"

section \<open>Nothing flagged is forgotten\<close>

definition drains :: "'e pipe_env \<Rightarrow> bool" where
  "drains env \<longleftrightarrow> (\<forall>d. set (pv_drain env d) = set d)"

text \<open>A pool is covered when it is still dirty or some batch announced since the \<open>n\<close>-th names it.\<close>

definition covered :: "pool_idx \<Rightarrow> nat \<Rightarrow> pipeline \<Rightarrow> bool" where
  "covered p n s \<longleftrightarrow> p \<in> set (pl_dirty s) \<or> (\<exists>b \<in> set (drop n (pl_batches s)). p \<in> set (cb_pools b))"

lemma covered_announce:
  "n \<le> length (pl_batches s) \<Longrightarrow> covered p n s \<Longrightarrow> covered p n (announce is_open b s) \<and> n \<le> length (pl_batches (announce is_open b s))"
  by (auto simp: covered_def announce_def)

lemma seal_covered:
  assumes "seal env rpc io block s = Inr s'" "drains env" "io_changed_open io" "n \<le> length (pl_batches s)" "covered p n s"
  shows "covered p n s' \<and> n \<le> length (pl_batches s')"
proof (cases "pl_dirty s = []")
  case True
  then show ?thesis using assms by (simp add: seal_def)
next
  case False
  then have "pl_dirty s' = []" "pl_batches s' = pl_batches s @ [\<lparr>cb_block = block, cb_pools = pv_drain env (pl_dirty s), cb_ts = io_now io\<rparr>]"
    using assms(1,3) by (auto simp: seal_def announce_def Let_def)
  then show ?thesis using assms(2,4,5) by (auto simp: covered_def drains_def)
qed

lemma covered_fields:
  "pl_dirty s' = pl_dirty s \<Longrightarrow> pl_batches s' = pl_batches s \<Longrightarrow> covered p n s' = covered p n s"
  by (simp add: covered_def)

lemma patch_frame:
  "patch_touched env io idx t s = Inr s' \<Longrightarrow> pl_dirty s' = pl_dirty s \<and> pl_batches s' = pl_batches s \<and> pl_have s' = pl_have s"
  by (auto simp: patch_touched_def split: option.splits slot_plan.splits prod.splits)

lemma queue_frame [simp]:
  "pl_dirty (queue_resync io i s) = pl_dirty s" "pl_batches (queue_resync io i s) = pl_batches s"
  by (auto simp: queue_resync_def split: option.split slot_plan.split)

lemma open_for_covered:
  assumes "open_for env io block s = Inr s'" "drains env" "io_changed_open io" "n \<le> length (pl_batches s)" "covered p n s"
  shows "covered p n s' \<and> n \<le> length (pl_batches s')"
proof -
  have seal: "covered p n s1 \<and> n \<le> length (pl_batches s1)" if "seal env (io_rpc_seal io) io (pl_open s) s = Inr s1" for s1
    by (rule seal_covered [OF that assms(2-5)])
  then show ?thesis using assms(1,4,5)
    by (auto simp: open_for_def covered_def split: if_splits)
qed

lemma open_for_length: "open_for env io block s = Inr s' \<Longrightarrow> length (pl_batches s) \<le> length (pl_batches s')"
  by (auto simp: open_for_def seal_def announce_def Let_def split: if_splits)

lemma on_log_covers: "on_log env io block idx t s = Inr s' \<Longrightarrow> covered idx (length (pl_batches s)) s'"
  by (auto simp: on_log_def covered_def dest!: patch_frame)

lemma pipe_step_covered:
  assumes "pipe_step env io input s = Inr s'" "drains env" "io_changed_open io" "n \<le> length (pl_batches s)" "covered p n s"
  shows "covered p n s' \<and> n \<le> length (pl_batches s')"
proof -
  have seal: "covered p n s1 \<and> n \<le> length (pl_batches s1)" if "seal env rpc io block s = Inr s1" for rpc block s1
    by (rule seal_covered [OF that assms(2-5)])
  show ?thesis
  proof (cases "pl_done s")
    case False
    show ?thesis
    proof (cases input)
      case (Event ev)
      show ?thesis
      proof (cases ev)
        case (NewHead number ts fee)
        then show ?thesis using assms(1,4,5) False Event
          by (auto simp: pipe_step_def on_head_def covered_def split: if_splits dest!: seal)
      next
        case (PoolLog block idx t)
        then obtain s1 s2 where run: "open_for env io block s = Inr s1"
          "patch_touched env io idx t (s1\<lparr>pl_dirty := List.insert idx (pl_dirty s1)\<rparr>) = Inr s2" "s' = queue_resync io idx s2"
          using assms(1) False Event by (auto simp: pipe_step_def on_log_def)
        have "covered p n s1 \<and> n \<le> length (pl_batches s1)" by (rule open_for_covered [OF run(1) assms(2-5)])
        then show ?thesis using patch_frame [OF run(2)] run(3) by (auto simp: covered_def)
      next
        case ResyncAll
        then show ?thesis using assms(1,4,5) False Event
          by (auto simp: pipe_step_def resync_all_def Let_def announce_def covered_def split: if_splits)
      qed
    next
      case QuietTimeout
      then show ?thesis using assms(1,4,5) False
        by (auto simp: pipe_step_def covered_def split: if_splits dest!: seal)
    next
      case IngestClosed
      then show ?thesis using assms(1,4,5) False
        by (auto simp: pipe_step_def covered_def split: if_splits dest!: seal)
    qed
  qed (use assms in \<open>simp add: pipe_step_def\<close>)
qed

lemma pipe_run_covered:
  "pipe_run env rest s = Inr s' \<Longrightarrow> drains env \<Longrightarrow> \<forall>(io, _) \<in> set rest. io_changed_open io \<Longrightarrow>
     n \<le> length (pl_batches s) \<Longrightarrow> covered p n s \<Longrightarrow> covered p n s'"
proof (induction env rest s rule: pipe_run.induct)
  case (2 env io input rest s)
  obtain s1 where s1: "pipe_step env io input s = Inr s1" "pipe_run env rest s1 = Inr s'" using 2(2) by auto
  have "covered p n s1 \<and> n \<le> length (pl_batches s1)" by (rule pipe_step_covered [OF s1(1)]) (use 2(3-) in auto)
  then show ?case using 2(1) [OF s1] 2(3,4) by auto
qed simp

section \<open>No step panics on a numbered store\<close>

definition input_ok :: "nat \<Rightarrow> pipe_input \<Rightarrow> bool" where
  "input_ok n input \<longleftrightarrow>
     (case input of
        Event (PoolLog block idx touched) \<Rightarrow>
          idx_get idx < n \<and> (case touched of None \<Rightarrow> True | Some (lo, hi) \<Rightarrow> in_i32 lo \<and> in_i32 hi)
      | _ \<Rightarrow> True)"

lemma seal_total:
  assumes "pv_store env = store_build rs n" "numbered rs n"
  shows "\<exists>s'. seal env rpc io block s = Inr s' \<and> eng_metas (pl_engine s') = eng_metas (pl_engine s)"
proof (cases "pl_dirty s = []")
  case False
  obtain st where "advance_and_prefetch rpc (store_build rs n) block (pv_drain env (pl_dirty s)) (pl_state s) = Inr st"
    using advance_memo [OF assms(2), of rpc block "pv_drain env (pl_dirty s)" "pl_state s"]
    by (elim exE conjE) (rule that)
  then show ?thesis using False assms(1) by (simp add: seal_def announce_def Let_def)
qed (simp add: seal_def)

lemma patch_words_total: "in_i32 t \<Longrightarrow> \<exists>ws. patch_words (max spacing 1) t = Inr ws"
  using compress_tick_floor [of t "max spacing 1"] by (simp add: patch_words_def Let_def)

lemma patch_cl_ticks_total:
  "in_i32 lo \<Longrightarrow> in_i32 hi \<Longrightarrow> \<exists>s'. patch_cl_ticks keccak rpc1 rpc2 a tb bb spacing [lo, hi] s = Inr s'"
  using patch_words_total [of lo spacing] patch_words_total [of hi spacing]
  by (auto simp: patch_cl_ticks_def Let_def)

lemma patch_touched_total:
  assumes "idx_get idx < eng_len (pl_engine s)" "\<And>lo hi. touched = Some (lo, hi) \<Longrightarrow> in_i32 lo \<and> in_i32 hi"
  shows "\<exists>s'. patch_touched env io idx touched s = Inr s' \<and> pl_engine s' = pl_engine s"
proof -
  have m: "eng_meta (pl_engine s) idx = Inr (eng_metas (pl_engine s) ! idx_get idx)"
    using assms(1) by (simp add: eng_meta_def eng_len_def index_def)
  show ?thesis
  proof (cases "\<exists>lo hi c. touched = Some (lo, hi) \<and> cs_plan (pl_state s) idx = Some (PCl c)")
    case True
    then obtain lo hi c where t: "touched = Some (lo, hi)" "cs_plan (pl_state s) idx = Some (PCl c)" by blast
    obtain st where "patch_cl_ticks (pv_keccak env) (io_rpc io) (io_rpc_ticks io) (cl_addr c) (cl_ticks_base c)
        (cl_bitmap_base c) (pm_tick_spacing (eng_metas (pl_engine s) ! idx_get idx)) [lo, hi] (pl_state s) = Inr st"
      using patch_cl_ticks_total assms(2) [OF t(1)] by blast
    then show ?thesis using t m by (simp add: patch_touched_def)
  next
    case False
    then have "patch_touched env io idx touched s = Inr s"
      by (auto simp: patch_touched_def split: option.split slot_plan.split)
    then show ?thesis by simp
  qed
qed

lemma pipe_step_total:
  assumes st: "pv_store env = store_build rs n" "numbered rs n" and ok: "input_ok (eng_len (pl_engine s)) input"
  shows "\<exists>s'. pipe_step env io input s = Inr s' \<and> eng_len (pl_engine s') = eng_len (pl_engine s)"
proof -
  note seal = seal_total [OF st]
  show ?thesis
  proof (cases "pl_done s")
    case False
    show ?thesis
    proof (cases input)
      case (Event ev)
      show ?thesis
      proof (cases ev)
        case (NewHead number ts fee)
        then show ?thesis using seal [of "io_rpc_seal io" io "pl_open s" s] Event False
          by (auto simp: pipe_step_def on_head_def set_head_def eng_len_def)
      next
        case (PoolLog block idx t)
        obtain s1 where s1: "open_for env io block s = Inr s1" "eng_metas (pl_engine s1) = eng_metas (pl_engine s)"
        proof (cases "pl_open s < block \<and> pl_have s")
          case True
          then show ?thesis using seal [of "io_rpc_seal io" io "pl_open s" s] that by (auto simp: open_for_def)
        next
          case False
          then show ?thesis using that [of s] that [of "s\<lparr>pl_open := block, pl_have := True\<rparr>"]
            by (cases "pl_open s < block") (simp_all add: open_for_def)
        qed
        have t: "in_i32 lo \<and> in_i32 hi" if "t = Some (lo, hi)" for lo hi
          using ok Event PoolLog that by (simp add: input_ok_def)
        have i: "idx_get idx < eng_len (pl_engine (s1\<lparr>pl_dirty := List.insert idx (pl_dirty s1)\<rparr>))"
          using ok s1(2) Event PoolLog by (simp add: input_ok_def eng_len_def)
        obtain s2 where "patch_touched env io idx t (s1\<lparr>pl_dirty := List.insert idx (pl_dirty s1)\<rparr>) = Inr s2"
          "pl_engine s2 = pl_engine s1"
          using patch_touched_total [OF i, of t] t by force
        then show ?thesis using s1 Event PoolLog False
          by (simp add: pipe_step_def on_log_def queue_resync_def eng_len_def split: option.split slot_plan.split)
      next
        case ResyncAll
        then show ?thesis using Event False by (simp add: pipe_step_def resync_all_def announce_def Let_def)
      qed
    qed (use False seal [of "io_rpc io" io "pl_open s" s] in \<open>auto simp: pipe_step_def eng_len_def\<close>)
  qed (simp add: pipe_step_def)
qed

lemma pipe_run_total:
  assumes st: "pv_store env = store_build rs n" "numbered rs n"
  shows "list_all (input_ok (eng_len (pl_engine s))) (map snd rest) \<Longrightarrow> \<exists>s'. pipe_run env rest s = Inr s'"
proof (induction rest arbitrary: s)
  case (Cons x rest)
  obtain io input where x: "x = (io, input)" by (cases x)
  obtain s1 where "pipe_step env io input s = Inr s1" "eng_len (pl_engine s1) = eng_len (pl_engine s)"
    using pipe_step_total [OF st, of s input io] Cons.prems x by auto
  then show ?case using Cons.IH [of s1] Cons.prems x by simp
qed simp

section \<open>Properties\<close>

text \<open>C7. Over a renumbered store and with the batch channel open, the pipeline processes any sequence of inputs
  after a pool log without panicking, and the pool of that log is never forgotten: at every later
  point it is either still dirty or named by a batch announced since.\<close>
theorem pipeline_no_loss:
  assumes st: "pv_store env = store_build rs n" "numbered rs n" "drains env" and run: "\<not> pl_done s"
    and ok: "list_all (input_ok (eng_len (pl_engine s))) (Event (PoolLog block idx touched) # map snd rest)"
    and ch: "list_all io_changed_open (map fst rest)"
  shows "\<exists>s'. pipe_run env ((io, Event (PoolLog block idx touched)) # rest) s = Inr s' \<and>
    (idx \<in> set (pl_dirty s') \<or> (\<exists>b \<in> set (drop (length (pl_batches s)) (pl_batches s')). idx \<in> set (cb_pools b)))"
proof -
  obtain s' where s': "pipe_run env ((io, Event (PoolLog block idx touched)) # rest) s = Inr s'"
    using pipe_run_total [OF st(1,2), of s "(io, Event (PoolLog block idx touched)) # rest"] ok by auto
  then obtain s1 where s1: "on_log env io block idx touched s = Inr s1" "pipe_run env rest s1 = Inr s'"
    using run by (auto simp: pipe_step_def)
  have "length (pl_batches s) \<le> length (pl_batches s1)"
    using s1(1) by (auto simp: on_log_def dest!: patch_frame open_for_length)
  moreover have "\<forall>(io, _) \<in> set rest. io_changed_open io" using ch by (auto simp: list_all_iff)
  ultimately have "covered idx (length (pl_batches s)) s'"
    using pipe_run_covered [OF s1(2) st(3)] on_log_covers [OF s1(1)] by blast
  then show ?thesis using s' by (auto simp: covered_def)
qed

definition flow_env :: "unit pipe_env" where
  "flow_env = \<lparr>pv_keccak = sample_hash, pv_store = store_build [arb_route] 2, pv_drain = rev\<rparr>"

definition flow_io :: "unit pipe_io" where
  "flow_io =
     \<lparr>io_rpc = (\<lambda>a sl. Inr (sl + 1)), io_rpc_ticks = (\<lambda>a sl. Inr 0), io_rpc_seal = (\<lambda>a sl. Inr sl), io_now = 3,
      io_changed_open = True, io_resync_room = False\<rparr>"

definition flow_pipeline :: pipeline where
  "flow_pipeline = pipeline_new arb_engine arb_state sample_station"

lemma flow_drains: "drains flow_env"
  by (simp add: drains_def flow_env_def)

theorem pipeline_no_loss_witness:
  "\<exists>s'. pipe_run flow_env [(flow_io, Event (PoolLog 5 1 None)), (flow_io, Event (NewHead 6 0 1)), (flow_io, QuietTimeout)]
      flow_pipeline = Inr s' \<and>
    (1 \<in> set (pl_dirty s') \<or> (\<exists>b \<in> set (pl_batches s'). 1 \<in> set (cb_pools b)))"
proof -
  have "eng_len (pl_engine flow_pipeline) = 2"
    by (simp add: flow_pipeline_def pipeline_new_def arb_engine_def eng_len_def)
  then have ok: "list_all (input_ok (eng_len (pl_engine flow_pipeline)))
      (Event (PoolLog 5 1 None) # map snd [(flow_io, Event (NewHead 6 0 1)), (flow_io, QuietTimeout)])"
    by (simp add: input_ok_def idx_get_def)
  have s: "pl_batches flow_pipeline = []" "\<not> pl_done flow_pipeline"
    by (simp_all add: flow_pipeline_def pipeline_new_def)
  have "pv_store flow_env = store_build [arb_route] 2" "list_all io_changed_open (map fst [(flow_io, Event (NewHead 6 0 1)), (flow_io, QuietTimeout)])"
    by (simp_all add: flow_env_def flow_io_def)
  from pipeline_no_loss [OF this(1) arb_numbered flow_drains s(2) ok this(2), of flow_io]
  show ?thesis by (simp add: s(1))
qed

text \<open>C4. Sealing announces exactly the dirty pools at the sealed block, and by then every slot the evaluator
  needs is fresh: for each candidate route of the announced batch, all slots of all its pools hold
  what the storage answered during this seal.\<close>
theorem seal_fresh:
  assumes st: "pv_store env = store_build rs n" "numbered rs n" "drains env"
    and ne: "pl_dirty s \<noteq> []" and ch: "io_changed_open io" and ev: "e_store ev = pv_store env"
  shows "\<exists>s' b. seal env rpc io block s = Inr s' \<and> pl_batches s' = pl_batches s @ [b] \<and> cb_block b = block \<and>
    set (cb_pools b) = set (pl_dirty s) \<and> pl_dirty s' = [] \<and>
    (\<forall>rid \<in> set (candidate_ids ev b). \<exists>r. store_route (e_store ev) rid = Inr r \<and>
       (\<forall>h \<in> set (rt_hops r). \<forall>k \<in> set (pool_slots (pl_state s) (hop_pool h)).
          cs_memo (pl_state s') k = fetched rpc k))"
proof -
  let ?pools = "pv_drain env (pl_dirty s)"
  let ?b = "\<lparr>cb_block = block, cb_pools = ?pools, cb_ts = io_now io\<rparr>"
  obtain st' where st': "advance_and_prefetch rpc (store_build rs n) block ?pools (pl_state s) = Inr st'"
    and fresh: "\<forall>r \<in> set rs. hop_pool ` set (rt_hops r) \<inter> set ?pools \<noteq> {} \<longrightarrow>
       (\<forall>h \<in> set (rt_hops r). \<forall>k \<in> set (pool_slots (pl_state s) (hop_pool h)). cs_memo st' k = fetched rpc k)"
    using advance_memo [OF st(2), of rpc block ?pools "pl_state s"] by (elim exE conjE) (rule that)
  have run: "seal env rpc io block s = Inr (s\<lparr>pl_dirty := [], pl_state := st', pl_batches := pl_batches s @ [?b]\<rparr>)"
    using ne ch st' st(1) by (simp add: seal_def announce_def)
  have "\<exists>r. store_route (e_store ev) rid = Inr r \<and>
      (\<forall>h \<in> set (rt_hops r). \<forall>k \<in> set (pool_slots (pl_state s) (hop_pool h)). cs_memo st' k = fetched rpc k)"
    if rid: "rid \<in> set (candidate_ids ev ?b)" for rid
  proof -
    obtain p where p: "p \<in> set ?pools" "rid \<in> set (routes_for_pool (store_build rs n) p)"
      using rid by (auto simp: set_candidate_ids ev st(1))
    obtain r where r: "r \<in> set rs" "store_route (store_build rs n) rid = Inr r" "p \<in> hop_pool ` set (rt_hops r)"
      using ri.candidate_route [OF st(2) p(2)] by blast
    have "hop_pool ` set (rt_hops r) \<inter> set ?pools \<noteq> {}" using r(3) p(1) by blast
    with fresh r(1) have "\<forall>h \<in> set (rt_hops r). \<forall>k \<in> set (pool_slots (pl_state s) (hop_pool h)). cs_memo st' k = fetched rpc k"
      by (metis (no_types, lifting))
    then show ?thesis using r(2) ev st(1) by auto
  qed
  then show ?thesis using run st(3) by (auto simp: drains_def)
qed

theorem seal_fresh_witness:
  "\<exists>s'. seal flow_env (\<lambda>a sl. Inr (sl + 1) :: unit + u256) flow_io 9 (flow_pipeline\<lparr>pl_dirty := [1]\<rparr>) = Inr s' \<and>
    pl_dirty s' = [] \<and> length (pl_batches s') = 1 \<and> set (cb_pools (pl_batches s' ! 0)) = {1}"
proof -
  have "pv_store flow_env = store_build [arb_route] 2" "io_changed_open flow_io" "e_store arb_ev = pv_store flow_env"
    by (simp_all add: flow_env_def flow_io_def arb_ev_def)
  from seal_fresh [OF this(1) arb_numbered flow_drains _ this(2,3), of "flow_pipeline\<lparr>pl_dirty := [1]\<rparr>" "\<lambda>a sl. Inr (sl + 1)" 9]
  show ?thesis by (auto simp: flow_pipeline_def pipeline_new_def)
qed

text \<open>
  The one way a flagged pool is left behind: a log of an already sealed block that arrives after a
  quiet seal does not reopen the block, so neither the quiet timeout nor the end of the channel
  seals it.  It waits for the next head, and is lost when the channel closes first.
\<close>

lemma late_log_stranded:
  assumes "\<not> pl_done s" "\<not> pl_have s" "block \<le> pl_open s"
  shows "\<exists>s'. pipe_run env [(io, Event (PoolLog block idx None)), (io, QuietTimeout), (io, IngestClosed)] s = Inr s' \<and>
    idx \<in> set (pl_dirty s') \<and> pl_batches s' = pl_batches s \<and> pl_done s'"
proof -
  have q: "pl_have (queue_resync io idx x) = pl_have x" "pl_done (queue_resync io idx x) = pl_done x" for x
    by (auto simp: queue_resync_def split: option.split slot_plan.split)
  have "\<not> pl_open s < block" using assms(3) by (simp add: not_less)
  then have "open_for env io block s = Inr s" by (simp only: open_for_def if_False)
  then have "on_log env io block idx None s = Inr (queue_resync io idx (s\<lparr>pl_dirty := List.insert idx (pl_dirty s)\<rparr>))"
    by (simp add: on_log_def patch_touched_def)
  then show ?thesis using assms(1,2) by (simp add: pipe_step_def q)
qed

end
