(* ===== verification/App.thy ===== *)
theory App
  imports Loader Fees Pricing Pipeline
begin

text \<open>
  Start-up and wiring, \<^verbatim>\<open>src/app.rs\<close>: the order in which the pool set, the registry, the storage recipes, the
  caches, the routes and the prices are built, and the states its concurrent parts start in.  The
  services it reads from are the parameters of the parts it calls.
\<close>

section \<open>Start-up steps\<close>

record 'w app_world =
  aw_disk :: disk
  aw_fees :: "fee_cache option"
  aw_net :: 'w

record ('w, 'l, 'e) app_env =
  ae_pools_file :: "'e + pool_pin list"
  ae_scan :: "('w, 'l, 'e) scan_env"
  ae_head :: "'w \<Rightarrow> ('e + u64) \<times> 'w"
  ae_pins :: "('w, 'e) pin_env"
  ae_hydrate :: "('w, 'e) hydrate_env"
  ae_keccak :: "u8 list \<Rightarrow> b256"
  ae_view :: "'e chain_view"
  ae_rpc :: "'e storage_rpc"          \<comment> \<open>reads of the full prefetch\<close>
  ae_rpc_bitmaps :: "'e storage_rpc"
  ae_rpc_ticks :: "'e storage_rpc"
  ae_order :: "engine \<Rightarrow> (address \<times> pool_idx) list"  \<comment> \<open>iteration order of the address index\<close>
  ae_prices :: "('w, 'e) price_env"

datatype 'e app_error =
    PoolsFile 'e
  | WrongManager string
  | NoPins
  | Discovering "'e scan_error"
  | Pinning "'e pin_error"
  | Hydrating 'e
  | NoPoolsLeft
  | NoLayouts
  | NoTip 'e
  | PriceFetch "'e price_error"

text \<open>A step may not return (a scan that never ends), panic, fail, or go on.\<close>

type_synonym ('w, 'e, 'a) starting = "'w app_world \<Rightarrow> (('e app_error, 'a) eres \<times> 'w app_world) option"

definition abind :: "('w, 'e, 'a) starting \<Rightarrow> ('a \<Rightarrow> ('w, 'e, 'b) starting) \<Rightarrow> ('w, 'e, 'b) starting" where
  "abind m f w =
     (case m w of
        None \<Rightarrow> None
      | Some (Inl p, w1) \<Rightarrow> Some (Inl p, w1)
      | Some (Inr (Inl e), w1) \<Rightarrow> Some (Inr (Inl e), w1)
      | Some (Inr (Inr a), w1) \<Rightarrow> f a w1)"

definition apure :: "('e app_error, 'a) eres \<Rightarrow> ('w, 'e, 'a) starting" where
  "apure r w = Some (r, w)"

definition aensure :: "bool \<Rightarrow> 'e app_error \<Rightarrow> ('w, 'e, unit) starting" where
  "aensure b e w = Some (if b then eok () else Inr (Inl e), w)"

definition map_err :: "('x \<Rightarrow> 'e app_error) \<Rightarrow> ('x, 'a) eres \<Rightarrow> ('e app_error, 'a) eres" where
  "map_err f r = rbind r (\<lambda>x. Inr (case x of Inl e \<Rightarrow> Inl (f e) | Inr a \<Rightarrow> Inr a))"

section \<open>The pool set\<close>

definition manager_check :: "dex_config list \<Rightarrow> 'e app_error option" where
  "manager_check dexes =
     map_option (\<lambda>d. WrongManager (dc_name d))
       (List.find (\<lambda>d. dc_kind d = ''v4'' \<and> dc_factory d \<noteq> UNIV4_POOL_MANAGER) dexes)"

definition find_pools :: "('w, 'l, 'e) app_env \<Rightarrow> config \<Rightarrow> pool_pin list \<Rightarrow> ('w, 'e, discovered_pool list) starting" where
  "find_pools env cfg pins w =
     (if disc_enabled (cf_discovery cfg) then
        (case discover_all (ae_scan env) (ae_head env) cfg (aw_disk w) (aw_net w) of
           None \<Rightarrow> None
         | Some (r, disk, net) \<Rightarrow> Some (map_err Discovering (Inr r), w\<lparr>aw_disk := disk, aw_net := net\<rparr>))
      else if pins = [] then Some (Inr (Inl NoPins), w)
      else
        (case load_pinned_pools ((ae_pins env)\<lparr>pe_disk := aw_disk w\<rparr>) cfg pins (aw_net w) of
           (r, net) \<Rightarrow> Some (map_err Pinning r, w\<lparr>aw_net := net\<rparr>)))"

definition hydrate_pools ::
    "('w, 'l, 'e) app_env \<Rightarrow> config \<Rightarrow> discovered_pool list \<Rightarrow> ('w, 'e, registration list) starting" where
  "hydrate_pools env cfg discovered w =
     (case hydrate (ae_hydrate env) cfg discovered True (aw_fees w) (aw_net w) of
        (Inl p, net) \<Rightarrow> Some (Inl p, w\<lparr>aw_net := net\<rparr>)
      | (Inr (Inl e), net) \<Rightarrow> Some (Inr (Inl (Hydrating e)), w\<lparr>aw_net := net\<rparr>)
      | (Inr (Inr (regs, cached)), net) \<Rightarrow> Some (eok regs, w\<lparr>aw_fees := cached, aw_net := net\<rparr>))"

section \<open>Registry and storage recipes\<close>

text \<open>Pools of a factory configured with dynamic fees, V4 apart.\<close>

definition flag_dynamic :: "dex_config list \<Rightarrow> engine \<Rightarrow> engine" where
  "flag_dynamic dexes e =
     (let dyn = map dc_factory (filter dc_dynamic_fee dexes)
      in e\<lparr>eng_fee_dynamic := eng_fee_dynamic e \<union>
           pm_idx ` set (filter (\<lambda>m. pm_factory m \<in> set dyn \<and> \<not> is_v4 (pm_dex m)) (eng_metas e))\<rparr>)"

definition all_tags :: "dex_tag list" where
  "all_tags = [UniV2Fork, AeroVolatile, AeroStable, UniV3Fork, PancakeV3, Slipstream, Algebra, UniV4]"

definition layouts_of :: "('w, 'l, 'e) app_env \<Rightarrow> engine \<Rightarrow> (dex_tag \<rightharpoonup> slot_layout) res" where
  "layouts_of env e =
     rbind (rmap (\<lambda>t. rbind (discover_layouts (ae_keccak env) (ae_view env) e t) (\<lambda>l. Inr (t, l))) all_tags) (\<lambda>ls.
       Inr (\<lambda>t. Option.bind (map_of ls t) (\<lambda>l. l)))"

definition start_state ::
    "('w, 'l, 'e) app_env \<Rightarrow> engine \<Rightarrow> (dex_tag \<rightharpoonup> slot_layout) \<Rightarrow> u64 \<Rightarrow> chain_state res" where
  "start_state env e layouts tip =
     (let s = prefetch_all (ae_rpc env) e (set_plans (build_slot_plans (ae_keccak env) (ae_view env) e layouts) (state_new tip))
      in hydrate_all_ticks (ae_keccak env) (ae_rpc_bitmaps env) (ae_rpc_ticks env) e s)"

section \<open>The application\<close>

record app =
  app_cfg :: config
  app_engine :: engine
  app_state :: chain_state
  app_store :: route_store
  app_gas :: gas_station
  app_stats :: stats
  app_prices :: "address \<rightharpoonup> f64"

definition graph_config_of :: "config \<Rightarrow> graph_config" where
  "graph_config_of cfg =
     \<lparr>gc_max_hops = rc_max_hops (cf_routing cfg), gc_max_routes = rc_max_routes (cf_routing cfg),
      gc_pair_fanout = rc_pair_fanout (cf_routing cfg)\<rparr>"

text \<open>\<open>App::bootstrap\<close> in three parts: pool set and registry, chain state, routes and rates.\<close>

definition start_registry :: "('w, 'l, 'e) app_env \<Rightarrow> config \<Rightarrow> ('w, 'e, engine) starting" where
  "start_registry env cfg =
     abind (apure (case ae_pools_file env of Inl e \<Rightarrow> Inr (Inl (PoolsFile e)) | Inr pins \<Rightarrow> eok pins)) (\<lambda>pins.
     abind (apure (case manager_check (cf_dexes cfg) of Some e \<Rightarrow> Inr (Inl e) | None \<Rightarrow> eok ())) (\<lambda>_.
     abind (find_pools env cfg pins) (\<lambda>discovered.
     abind (hydrate_pools env cfg discovered) (\<lambda>regs.
     abind (aensure (regs \<noteq> []) NoPoolsLeft) (\<lambda>_.
       apure (rbind (engine_new regs) (\<lambda>e. eok (flag_dynamic (cf_dexes cfg) e))))))))"

definition ask_tip :: "('w, 'l, 'e) app_env \<Rightarrow> ('w, 'e, u64) starting" where
  "ask_tip env w =
     (case ae_head env (aw_net w) of
        (Inl err, net) \<Rightarrow> Some (Inr (Inl (NoTip err)), w\<lparr>aw_net := net\<rparr>)
      | (Inr tip, net) \<Rightarrow> Some (eok tip, w\<lparr>aw_net := net\<rparr>))"

definition start_chain :: "('w, 'l, 'e) app_env \<Rightarrow> engine \<Rightarrow> ('w, 'e, chain_state) starting" where
  "start_chain env e =
     abind (apure (rbind (layouts_of env e) eok)) (\<lambda>layouts.
     abind (aensure (\<exists>t \<in> set all_tags. layouts t \<noteq> None) NoLayouts) (\<lambda>_.
     abind (ask_tip env) (\<lambda>tip.
       apure (rbind (start_state env e layouts tip) eok))))"

definition ask_rates :: "('w, 'l, 'e) app_env \<Rightarrow> config \<Rightarrow> ('w, 'e, address \<rightharpoonup> f64) starting" where
  "ask_rates env cfg w =
     (case fetch_anchor_rates (ae_prices env) (cf_anchors cfg) (aw_net w) of
        (Inl err, net) \<Rightarrow> Some (Inr (Inl (PriceFetch err)), w\<lparr>aw_net := net\<rparr>)
      | (Inr rates, net) \<Rightarrow> Some (eok rates, w\<lparr>aw_net := net\<rparr>))"

definition app_bootstrap :: "('w, 'l, 'e) app_env \<Rightarrow> config \<Rightarrow> ('w, 'e, app) starting" where
  "app_bootstrap env cfg =
     abind (start_registry env cfg) (\<lambda>e.
     abind (start_chain env e) (\<lambda>s.
     abind (apure (rbind (build_routes e s (graph_config_of cfg) (ae_order env e) (map an_token (cf_anchors cfg))) eok)) (\<lambda>routes.
     abind (ask_rates env cfg) (\<lambda>rates.
       apure (eok \<lparr>app_cfg = cfg, app_engine = e, app_state = s, app_store = store_build routes (eng_len e),
         app_gas = gas_new (cf_gas cfg), app_stats = stats_new, app_prices = rates\<rparr>)))))"

section \<open>The parts that run\<close>

definition app_pipeline :: "app \<Rightarrow> pipeline" where
  "app_pipeline a = pipeline_new (app_engine a) (app_state a) (app_gas a)"

definition app_evaluator :: "(u8 list \<Rightarrow> b256) \<Rightarrow> 'x v3lib \<Rightarrow> (string \<Rightarrow> u256 option) \<Rightarrow> app \<Rightarrow> 'x evaluator" where
  "app_evaluator keccak lib parse a =
     \<lparr>e_keccak = keccak, e_lib = lib, e_parse = parse, e_engine = app_engine a, e_state = app_state a, e_store = app_store a,
      e_gas = app_gas a, e_cfg = cf_routing (app_cfg a), e_anchors = cf_anchors (app_cfg a), e_prices = app_prices a\<rparr>"

definition app_fee_tracker :: "('w, 'e) fees_env \<Rightarrow> nat \<Rightarrow> app \<Rightarrow> 'w \<Rightarrow> 'w fee_state" where
  "app_fee_tracker env now a w =
     fees_start (env\<lparr>fv_store := app_store a, fv_interval := 30000\<rparr>) now (app_engine a) (app_state a) w"

definition check_node :: "u64 \<Rightarrow> u64 \<Rightarrow> string option" where
  "check_node chain_id base =
     (if chain_id \<noteq> CHAIN_ID then Some ''chain id'' else if base = 0 then Some ''no base fee'' else None)"

section \<open>What a started application satisfies\<close>

lemma abind_ok: "abind m f w = Some (Inr (Inr b), w') \<longleftrightarrow> (\<exists>a w1. m w = Some (Inr (Inr a), w1) \<and> f a w1 = Some (Inr (Inr b), w'))"
  by (auto simp: abind_def split: option.splits prod.splits sum.splits)

lemma apure_ok: "apure r w = Some (Inr (Inr a), w') \<longleftrightarrow> r = Inr (Inr a) \<and> w' = w"
  by (auto simp: apure_def)

lemma aensure_ok: "aensure b e w = Some (Inr (Inr u), w') \<longleftrightarrow> b \<and> w' = w"
  by (auto simp: aensure_def eok_def)

lemma map_err_ok: "map_err f r = Inr (Inr a) \<longleftrightarrow> r = Inr (Inr a)"
  by (cases r) (auto simp: map_err_def split: sum.splits)

lemma find_pools_ok:
  assumes "find_pools env cfg pins w = Some (Inr (Inr ps), w')" "disk_ok (aw_disk w)"
  shows "list_all dp_ok ps \<and> disk_ok (aw_disk w')"
proof (cases "disc_enabled (cf_discovery cfg)")
  case True
  then obtain disk net where run: "discover_all (ae_scan env) (ae_head env) cfg (aw_disk w) (aw_net w) = Some (Inr ps, disk, net)"
    "w' = w\<lparr>aw_disk := disk, aw_net := net\<rparr>"
    using assms(1) by (auto simp: find_pools_def map_err_ok split: option.splits)
  from discover_all_ok [OF run(1) assms(2)] run(2) show ?thesis by simp
next
  case False
  let ?pe = "(ae_pins env)\<lparr>pe_disk := aw_disk w\<rparr>"
  obtain net where run: "load_pinned_pools ?pe cfg pins (aw_net w) = (Inr (Inr ps), net)" "w' = w\<lparr>aw_net := net\<rparr>"
    using False assms(1) by (auto simp: find_pools_def map_err_ok split: if_splits prod.splits)
  have "\<forall>d \<in> set (cf_dexes cfg). list_all dp_ok (cached_pools (pe_disk ?pe) (dc_name d))"
    using assms(2) by (simp add: disk_ok_def)
  from pins_sound [OF this] run assms(2) show ?thesis by auto
qed

lemma start_state_plans:
  assumes "start_state env e layouts tip = Inr s"
  shows "cs_plans s = build_slot_plans (ae_keccak env) (ae_view env) e layouts"
proof -
  let ?s = "prefetch_all (ae_rpc env) e (set_plans (build_slot_plans (ae_keccak env) (ae_view env) e layouts) (state_new tip))"
  have "hydrate_all_ticks (ae_keccak env) (ae_rpc_bitmaps env) (ae_rpc_ticks env) e ?s = Inr s"
    using assms by (simp add: start_state_def Let_def)
  then have "cs_plans s = cs_plans ?s"
    by (auto simp: hydrate_all_ticks_def prefetch_cl_tick_windows_def Let_def rbind_eq_Inr split: if_splits)
  then show ?thesis by (simp add: prefetch_all_def set_plans_def)
qed

lemma engine_new_fresh: "engine_new regs = Inr e \<Longrightarrow> eng_fee_dynamic e = {}"
  by (auto simp: engine_new_def rbind_eq_Inr)

lemma engine_flagged:
  assumes "engine_new regs = Inr e0" "\<forall>i < length regs. pm_idx (reg_meta (regs ! i)) = of_nat i" "i < length regs"
  shows "eng_metas (flag_dynamic dexes e0) = map reg_meta regs"
    "length regs < 2 ^ 32 \<Longrightarrow> eng_by_address (flag_dynamic dexes e0) (pm_address (reg_meta (regs ! i))) = Some (of_nat i)"
proof -
  show "eng_metas (flag_dynamic dexes e0) = map reg_meta regs"
    using engine_new_Inr(1) [OF assms(1)] by (simp add: flag_dynamic_def Let_def)
  show "eng_by_address (flag_dynamic dexes e0) (pm_address (reg_meta (regs ! i))) = Some (of_nat i)" if "length regs < 2 ^ 32"
    using engine_lookup [OF assms(1,3) that assms(2)] by (simp add: flag_dynamic_def Let_def)
qed

lemma anchor_priced:
  assumes "rates_ok (cf_anchors (app_cfg a)) (app_prices a)" "c \<in> set (cf_anchors (app_cfg a))"
  shows "\<exists>rate. anchor_rate (app_evaluator keccak lib parse a) c = Inr rate"
proof -
  have "an_token c \<in> dom (app_prices a)" using assms by (auto simp: rates_ok_def)
  then show ?thesis by (auto simp: anchor_rate_def app_evaluator_def)
qed

lemma start_registry_ok:
  fixes w :: "'w app_world"
  assumes "start_registry env cfg w = Some (Inr (Inr e), w')" "disk_ok (aw_disk w)"
  obtains discovered regs w2 w3 cached e0 where
    "list_all dp_ok discovered"
    "hydrate (ae_hydrate env) cfg discovered True (aw_fees (w2 :: 'w app_world)) (aw_net w2) = (Inr (Inr (regs, cached)), w3)" "regs \<noteq> []"
    "engine_new regs = Inr e0" "e = flag_dynamic (cf_dexes cfg) e0" "disk_ok (aw_disk w')"
proof -
  obtain pins discovered w2 regs e0 where run:
    "find_pools env cfg pins w = Some (Inr (Inr discovered), w2)"
    "hydrate_pools env cfg discovered w2 = Some (Inr (Inr regs), w')" "regs \<noteq> []" "engine_new regs = Inr e0"
    "e = flag_dynamic (cf_dexes cfg) e0"
    using assms(1) unfolding start_registry_def abind_ok apure_ok aensure_ok rbind_eq_Inr
    by (elim exE conjE) (simp add: eok_def)
  obtain cached net where h: "hydrate (ae_hydrate env) cfg discovered True (aw_fees w2) (aw_net w2) = (Inr (Inr (regs, cached)), net)"
    "w' = w2\<lparr>aw_fees := cached, aw_net := net\<rparr>"
    using run(2) by (auto simp: hydrate_pools_def eok_def split: prod.splits sum.splits)
  show thesis
    by (rule that) (use find_pools_ok [OF run(1) assms(2)] h run(3-5) in simp_all)
qed

lemma start_chain_ok:
  assumes "start_chain env e w = Some (Inr (Inr s), w')"
  shows "length (cs_plans s) = eng_len e \<and> aw_disk w' = aw_disk w"
proof -
  obtain layouts tip where run: "ask_tip env w = Some (Inr (Inr tip), w')" "start_state env e layouts tip = Inr s"
    using assms unfolding start_chain_def abind_ok apure_ok aensure_ok rbind_eq_Inr
    by (elim exE conjE) (simp add: eok_def)
  have "aw_disk w' = aw_disk w" using run(1) by (auto simp: ask_tip_def eok_def split: prod.splits sum.splits)
  then show ?thesis using start_state_plans [OF run(2)] by (simp add: build_slot_plans_def eng_len_def)
qed

lemma ask_rates_ok: "ask_rates env cfg w = Some (Inr (Inr rates), w') \<Longrightarrow> rates_ok (cf_anchors cfg) rates \<and> aw_disk w' = aw_disk w"
  using anchor_rates_ok by (auto simp: ask_rates_def eok_def split: prod.splits sum.splits)

text \<open>C11. A start-up that succeeds leaves a consistent application: the registry holds at least one pool, numbers
  its pools by position and finds each by its address; there is one storage recipe slot per pool; the
  dynamic-fee set is the configured one; every route is an arbitrage cycle of that registry from a
  configured anchor; every anchor has a rate, so the evaluator's price lookups cannot panic.\<close>
theorem app_ready:
  fixes w :: "'w app_world"
  assumes "app_bootstrap env cfg w = Some (Inr (Inr a), w')" "disk_ok (aw_disk w)"
  defines "e \<equiv> app_engine a"
  shows "eng_metas e \<noteq> [] \<and> length (cs_plans (app_state a)) = eng_len e \<and> disk_ok (aw_disk w') \<and>
    (\<forall>i < eng_len e. pm_idx (eng_metas e ! i) = of_nat i \<and>
       (eng_len e < 2 ^ 32 \<longrightarrow> eng_by_address e (pm_address (eng_metas e ! i)) = Some (of_nat i))) \<and>
    eng_fee_dynamic e = pm_idx ` {m \<in> set (eng_metas e). \<not> is_v4 (pm_dex m) \<and>
       (\<exists>d \<in> set (cf_dexes cfg). dc_dynamic_fee d \<and> dc_factory d = pm_factory m)} \<and>
    (\<forall>r \<in> set (st_routes (app_store a)). rt_anchor r \<in> an_token ` set (cf_anchors cfg) \<and>
       arb_cycle e (snd ` set (ae_order env e)) (rc_max_hops (cf_routing cfg)) (rt_anchor r) (rt_hops r)) \<and>
    (\<forall>c \<in> set (cf_anchors cfg). \<exists>rate. anchor_rate (app_evaluator keccak lib parse a) c = Inr rate)"
proof -
  obtain w1 w2 routes where run: "start_registry env cfg w = Some (Inr (Inr e), w1)" "start_chain env e w1 = Some (Inr (Inr (app_state a)), w2)"
    "build_routes e (app_state a) (graph_config_of cfg) (ae_order env e) (map an_token (cf_anchors cfg)) = Inr routes"
    "ask_rates env cfg w2 = Some (Inr (Inr (app_prices a)), w')" "app_store a = store_build routes (eng_len e)" "app_cfg a = cfg"
    using assms(1) unfolding app_bootstrap_def abind_ok apure_ok rbind_eq_Inr e_def
    by (elim exE conjE) (auto simp: eok_def)
  obtain discovered regs w3 w4 cached e0 where reg: "list_all dp_ok discovered"
    "hydrate (ae_hydrate env) cfg discovered True (aw_fees (w3 :: 'w app_world)) (aw_net w3) = (Inr (Inr (regs, cached)), w4)" "regs \<noteq> []"
    "engine_new regs = Inr e0" "e = flag_dynamic (cf_dexes cfg) e0" "disk_ok (aw_disk w1)"
    by (rule start_registry_ok [OF run(1) assms(2)])
  have idx: "\<forall>i < length regs. pm_idx (reg_meta (regs ! i)) = of_nat i" using hydrate_sound [OF reg(1,2)] by blast
  note flagged = engine_flagged [OF reg(4) idx, of _ "cf_dexes cfg", folded reg(5)]
  have metas: "eng_metas e = map reg_meta regs" using flagged(1) [of 0] reg(3) by simp
  have len: "eng_len e = length regs" by (simp add: eng_len_def metas)
  have dyn: "set (filter (\<lambda>m. pm_factory m \<in> set (map dc_factory (filter dc_dynamic_fee (cf_dexes cfg))) \<and> \<not> is_v4 (pm_dex m)) (eng_metas e)) =
      {m \<in> set (eng_metas e). \<not> is_v4 (pm_dex m) \<and> (\<exists>d \<in> set (cf_dexes cfg). dc_dynamic_fee d \<and> dc_factory d = pm_factory m)}"
    by (auto simp: eq_commute [of "dc_factory _"])
  have "eng_metas e = eng_metas e0" by (simp add: reg(5) flag_dynamic_def Let_def)
  then have "eng_fee_dynamic e = pm_idx ` {m \<in> set (eng_metas e). \<not> is_v4 (pm_dex m) \<and>
      (\<exists>d \<in> set (cf_dexes cfg). dc_dynamic_fee d \<and> dc_factory d = pm_factory m)}"
    unfolding dyn [symmetric] using engine_new_fresh [OF reg(4)] by (simp add: reg(5) flag_dynamic_def Let_def)
  moreover have "eng_metas e \<noteq> []" using metas reg(3) by simp
  moreover have "length (cs_plans (app_state a)) = eng_len e \<and> disk_ok (aw_disk w')"
    using start_chain_ok [OF run(2)] ask_rates_ok [OF run(4)] reg(6) by simp
  moreover have "\<forall>i < eng_len e. pm_idx (eng_metas e ! i) = of_nat i \<and>
      (eng_len e < 2 ^ 32 \<longrightarrow> eng_by_address e (pm_address (eng_metas e ! i)) = Some (of_nat i))"
    using flagged(2) idx by (simp add: metas len)
  moreover have "\<forall>r \<in> set (st_routes (app_store a)). rt_anchor r \<in> an_token ` set (cf_anchors cfg) \<and>
      arb_cycle e (snd ` set (ae_order env e)) (rc_max_hops (cf_routing cfg)) (rt_anchor r) (rt_hops r)"
    using build_routes_sound [OF run(3)] by (simp add: run(5) store_build_def graph_config_of_def)
  moreover have "\<forall>c \<in> set (cf_anchors cfg). \<exists>rate. anchor_rate (app_evaluator keccak lib parse a) c = Inr rate"
    using anchor_priced ask_rates_ok [OF run(4)] run(6) by blast
  ultimately show ?thesis by blast
qed

section \<open>A small start-up\<close>

text \<open>One cached pool the node confirms, WETH as the only anchor.\<close>

definition app_sample_view :: "unit chain_view" where
  "app_sample_view =
     \<lparr>cv_head = (\<lambda>_. Inr 1), cv_head_fee = (\<lambda>_. Inr 1), cv_storage = (\<lambda>_ _ _. Inr (pack_v2 1000 2000 0)),
      cv_slot0 = (\<lambda>_ _. Inl ()), cv_liquidity = (\<lambda>_ _. Inl ()), cv_tick_bitmap = (\<lambda>_ _ _. Inl ()), cv_ticks = (\<lambda>_ _ _. Inl ()),
      cv_global_state = (\<lambda>_ _. Inl ()), cv_tick_table = (\<lambda>_ _ _. Inl ()), cv_alg_ticks = (\<lambda>_ _ _. Inl ()), cv_fee = (\<lambda>_ _. Inl ()),
      cv_reserves_v2 = (\<lambda>_ _. Inr (1000, 2000)), cv_reserves_aero = (\<lambda>_ _. Inl ())\<rparr>"

definition app_sample :: "(nat, nat, unit) app_env" where
  "app_sample =
     \<lparr>ae_pools_file = Inr [], ae_scan = sample_scan, ae_head = (\<lambda>w. (Inr 5, w)), ae_pins = pin_sample, ae_hydrate = boot_env 0,
      ae_keccak = (\<lambda>_. 0), ae_view = app_sample_view, ae_rpc = (\<lambda>_ _. Inr 7), ae_rpc_bitmaps = (\<lambda>_ _. Inl ()),
      ae_rpc_ticks = (\<lambda>_ _. Inl ()), ae_order = (\<lambda>_. [(4, 0)]),
      ae_prices = \<lparr>px_client = None, px_binance = (\<lambda>_ w. (Inl (), w)), px_coingecko = (\<lambda>_ w. (Inl (), w))\<rparr>\<rparr>"

definition weth_anchor :: anchor_config where
  "weth_anchor =
     \<lparr>an_symbol = ''WETH'', an_token = WETH, an_decimals = 18, an_min_liquidity = f64_lit 1, an_min_profit = ''0'',
      an_max_trade = f64_lit 1, an_min_trade = f64_lit 0\<rparr>"

definition app_sample_config :: config where
  "app_sample_config = sample_config\<lparr>cf_anchors := [weth_anchor]\<rparr>"

definition app_sample_world :: "discovered_pool \<Rightarrow> nat app_world" where
  "app_sample_world p =
     \<lparr>aw_disk = [''uni'' \<mapsto> \<lparr>ca_last_synced_block = 9, ca_pools = [p]\<rparr>], aw_fees = None, aw_net = 0\<rparr>"

lemma app_sample_ok: "dp_ok sample_pair" "dp_ok sample_v4"
  by (simp_all add: dp_ok_def sample_pair_def sample_v4_def is_v4_def)

lemma app_sample_disk: "dp_ok p \<Longrightarrow> disk_ok (aw_disk (app_sample_world p))"
  by (simp add: app_sample_world_def disk_ok_def cached_pools_def load_cache_def)

lemma app_sample_anchors: "7 \<notin> an_token ` set (cf_anchors app_sample_config)" "8 \<notin> an_token ` set (cf_anchors app_sample_config)"
  "cf_filter app_sample_config = default_filter_config"
  by (simp_all add: app_sample_config_def weth_anchor_def WETH_def sample_config_def)

lemma app_sample_manager: "manager_check (cf_dexes app_sample_config) = None"
  by (simp add: manager_check_def app_sample_config_def sample_config_def sample_dex_def)

lemma app_sample_fields:
  "ae_pools_file app_sample = Inr []" "ae_hydrate app_sample = boot_env 0" "aw_fees (app_sample_world p) = None" "aw_net (app_sample_world p) = 0"
  "ae_head app_sample = (\<lambda>w. (Inr 5, w))" "ae_order app_sample = (\<lambda>_. [(4, 0)])" "ae_view app_sample = app_sample_view"
  "ae_keccak app_sample = (\<lambda>_. 0)"
  by (simp_all add: app_sample_def app_sample_world_def)

lemma app_sample_find: "find_pools app_sample app_sample_config [] (app_sample_world p) = Some (Inr (Inr [p]), app_sample_world p)"
  by (simp add: find_pools_def app_sample_def app_sample_config_def app_sample_world_def sample_config_def sample_dex_def
      default_discovery_config_def discover_all_def load_cache_def scan_start_def map_err_def)

lemma app_sample_registry:
  assumes "hydrate (boot_env 0) app_sample_config [p] True None 0 = (Inr (Inr ([reg], cached)), net)" "dp_ok p"
  shows "\<exists>e w. start_registry app_sample app_sample_config (app_sample_world p) = Some (Inr (Inr e), w) \<and> eng_metas e = [reg_meta reg] \<and>
     reg_from p reg"
proof -
  have "list_all dp_ok [p]" using assms(2) by simp
  from hydrate_sound [OF this assms(1)] obtain e0 where e0: "engine_new [reg] = Inr e0" "eng_metas e0 = [reg_meta reg]" "reg_from p reg"
    by auto
  have "start_registry app_sample app_sample_config (app_sample_world p) =
      Some (eok (flag_dynamic (cf_dexes app_sample_config) e0), (app_sample_world p)\<lparr>aw_fees := cached, aw_net := net\<rparr>)"
    using app_sample_find [of p] assms(1)
    by (simp add: start_registry_def abind_def apure_def aensure_def eok_def hydrate_pools_def app_sample_fields app_sample_manager e0)
  then show ?thesis using e0(2,3) by (simp add: eok_def flag_dynamic_def Let_def)
qed

lemma app_sample_layouts:
  assumes "eng_metas e = [m]" "pm_dex m = UniV2Fork"
  shows "\<exists>ls. layouts_of app_sample e = Inr ls \<and> ls UniV2Fork = Some (LV2Packed 0)"
proof -
  let ?w = "pack_v2 1000 2000 0"
  have "emap (\<lambda>_. Inr ?w :: unit + u256) xs = Inr (replicate (length xs) ?w)" for xs :: "nat list" by (induction xs) simp_all
  then have "read_slots app_sample_view (pm_address m) [0..<SCAN_SLOTS] 1 = Inr (replicate 24 ?w)"
    by (simp add: read_slots_def app_sample_view_def SCAN_SLOTS_def)
  moreover have "first_index P (replicate 24 x) = Some 0" if "P x" for P and x :: u256
  proof -
    have "replicate 24 x = x # replicate 23 x" by (simp add: numeral_eq_Suc)
    then show ?thesis using that by simp
  qed
  moreover have "decode_v2_packed ?w = (1000, 2000)" by (simp add: decode_v2_pack)
  ultimately have "discover_one (\<lambda>_. 0) app_sample_view m = eok (Some (LV2Packed 0))"
    using assms(2) by (simp add: discover_one_def app_sample_view_def elib_def dex_defs)
  then show ?thesis
    using assms by (simp add: layouts_of_def all_tags_def discover_layouts_def layout_samples_def is_v4_def app_sample_fields DISCOVERY_SAMPLES_def eok_def)
qed

lemma app_sample_chain:
  assumes "eng_metas e = [m]" "pm_dex m = UniV2Fork" "pm_v4 m = None" "pm_idx m = 0"
  shows "\<exists>s. start_chain app_sample e w = Some (Inr (Inr s), w)"
proof -
  obtain ls where ls: "layouts_of app_sample e = Inr ls" "ls UniV2Fork = Some (LV2Packed 0)" using app_sample_layouts [OF assms(1,2)] by blast
  let ?s = "prefetch_all (ae_rpc app_sample) e (set_plans (build_slot_plans (ae_keccak app_sample) (ae_view app_sample) e ls) (state_new 5))"
  have "cs_plans ?s = [Some (PV2Packed (pm_address m) 0)]"
    using assms ls(2) by (simp add: prefetch_all_def set_plans_def build_slot_plans_def build_slot_plan_def)
  then have "cl_plans_of e ?s = []" using assms(1,4) by (simp add: cl_plans_of_def cs_plan_def get_def idx_get_def)
  then have "start_state app_sample e ls 5 = Inr ?s"
    by (simp add: start_state_def hydrate_all_ticks_def prefetch_cl_tick_windows_def)
  then show ?thesis
    using ls by (auto simp: start_chain_def abind_def apure_def aensure_def ask_tip_def app_sample_fields eok_def all_tags_def)
qed

lemma app_sample_run: "\<exists>a w. app_bootstrap app_sample app_sample_config (app_sample_world sample_pair) = Some (Inr (Inr a), w)"
proof -
  obtain reg cached net where h: "hydrate (boot_env 0) app_sample_config [sample_pair] True None 0 = (Inr (Inr ([reg], cached)), net)"
    "pm_dex (reg_meta reg) = UniV2Fork" "pm_idx (reg_meta reg) = 0"
    using boot_run [of app_sample_config "[sample_pair]" True 0] app_sample_anchors by auto
  obtain e w where e: "start_registry app_sample app_sample_config (app_sample_world sample_pair) = Some (Inr (Inr e), w)"
    "eng_metas e = [reg_meta reg]" "reg_from sample_pair reg"
    using app_sample_registry [OF h(1) app_sample_ok(1)] by blast
  have "pm_v4 (reg_meta reg) = None" using e(3) by (simp add: reg_from_def sample_pair_def is_v4_def)
  from app_sample_chain [OF e(2) h(2) this h(3)] obtain s where s: "start_chain app_sample e w = Some (Inr (Inr s), w)" by blast
  have "eng_meta e 0 = Inr (reg_meta reg)" using e(2) by (simp add: eng_meta_def idx_get_def index_def)
  then obtain routes where r: "build_routes e s (graph_config_of app_sample_config) [(4, 0)] [WETH] = Inr routes"
    by (simp add: build_routes_def adjacency_of_def Let_def)
  have rates: "ask_rates app_sample app_sample_config w = Some (eok [WETH \<mapsto> f64_lit 1], w)"
    by (simp add: ask_rates_def fetch_anchor_rates_def app_sample_def app_sample_config_def weth_anchor_def)
  have "map an_token (cf_anchors app_sample_config) = [WETH]" by (simp add: app_sample_config_def weth_anchor_def)
  then show ?thesis using e(1) s r rates by (simp add: app_bootstrap_def abind_def apure_def eok_def app_sample_fields)
qed

theorem app_ready_witness:
  "\<exists>a w. app_bootstrap app_sample app_sample_config (app_sample_world sample_pair) = Some (Inr (Inr a), w) \<and> eng_metas (app_engine a) \<noteq> [] \<and>
     (\<exists>rate. anchor_rate (app_evaluator (\<lambda>_. 0) base_lib (\<lambda>_. None) a) weth_anchor = Inr rate)"
proof -
  obtain a w where a: "app_bootstrap app_sample app_sample_config (app_sample_world sample_pair) = Some (Inr (Inr a), w)"
    using app_sample_run by blast
  have "weth_anchor \<in> set (cf_anchors app_sample_config)" by (simp add: app_sample_config_def)
  with app_ready [OF a app_sample_disk [OF app_sample_ok(1)]] a show ?thesis by blast
qed

section \<open>Two ways a start-up goes wrong\<close>

lemma layouts_v4_only:
  assumes "\<forall>m \<in> set (eng_metas e). is_v4 (pm_dex m)"
  shows "layouts_of env e = Inr Map.empty"
proof -
  have "layout_samples (eng_metas e) t = []" for t using assms by (auto simp: layout_samples_def filter_empty_conv)
  then have "discover_layouts (ae_keccak env) (ae_view env) e t = Inr None" for t by (simp add: discover_layouts_def)
  then show ?thesis by (simp add: layouts_of_def all_tags_def fun_eq_iff)
qed

text \<open>A registry of Uniswap V4 pools only is refused at start-up, although every one of its pools gets a complete
  storage recipe without any layout being discovered.\<close>
lemma v4_only_refused:
  assumes "start_registry env cfg w = Some (Inr (Inr e), w1)" "\<forall>m \<in> set (eng_metas e). is_v4 (pm_dex m) \<and> pm_v4 m \<noteq> None"
  shows "app_bootstrap env cfg w = Some (Inr (Inl NoLayouts), w1) \<and>
    None \<notin> set (build_slot_plans (ae_keccak env) (ae_view env) e Map.empty)"
proof -
  have "layouts_of env e = Inr Map.empty" using assms(2) by (intro layouts_v4_only) blast
  then have "start_chain env e w1 = Some (Inr (Inl NoLayouts), w1)"
    by (simp add: start_chain_def abind_def apure_def aensure_def eok_def)
  moreover have "None \<notin> set (build_slot_plans (ae_keccak env) (ae_view env) e Map.empty)"
    using assms(2) by (auto simp: build_slot_plans_def build_slot_plan_def Let_def split: option.splits)
  ultimately show ?thesis using assms(1) by (simp add: app_bootstrap_def abind_def)
qed

lemma v4_only_refused_witness:
  "\<exists>w. app_bootstrap app_sample app_sample_config (app_sample_world sample_v4) = Some (Inr (Inl NoLayouts), w)"
proof -
  obtain reg cached net where h: "hydrate (boot_env 0) app_sample_config [sample_v4] True None 0 = (Inr (Inr ([reg], cached)), net)"
    using boot_v4_run [of app_sample_config True 0] app_sample_anchors by auto
  obtain e w where e: "start_registry app_sample app_sample_config (app_sample_world sample_v4) = Some (Inr (Inr e), w)"
    "eng_metas e = [reg_meta reg]" "reg_from sample_v4 reg"
    using app_sample_registry [OF h app_sample_ok(2)] by blast
  have "\<forall>m \<in> set (eng_metas e). is_v4 (pm_dex m) \<and> pm_v4 m \<noteq> None"
    using e(2,3) by (auto simp: reg_from_def sample_v4_def is_v4_def)
  from v4_only_refused [OF e(1) this] show ?thesis by blast
qed

lemma infinite_rate_free:
  assumes "e_prices ev (an_token a) = Some (FInf False)" "an_decimals a = 6"
  shows "weth_wei_to_anchor ev a wei = Inr 0"
proof -
  have p: "f64_powi (f64_lit 10) 6 = FNum 1000000" by code_simp
  have z: "f64_to_u128 (fmul FNaN (FNum 1000000)) = 0" "f64_to_u128 (fmul (FZero True) (FNum 1000000)) = 0"
    "f64_to_u128 (fmul (FZero False) (FNum 1000000)) = 0" by code_simp+
  have "fdiv x (FInf False) \<in> {FNaN, FZero True, FZero False}" for x by (cases x) auto
  then have "f64_to_u128 (fmul (fdiv x (FInf False)) (FNum 1000000)) = 0" for x
    using z by (metis (no_types, lifting) empty_iff insert_iff)
  then show ?thesis using assms by (simp add: weth_wei_to_anchor_def anchor_rate_def p)
qed

text \<open>C30. The WETH price is never checked: when the price service reports zero, start-up goes on with an infinite
  rate for the other anchor, and every gas cost then converts to nothing in it.\<close>
theorem zero_price_frees_gas:
  assumes "px_client env = None" "px_binance env ''ETHUSDT'' w = (Inr (f64_lit 0), w1)"
    and "px_coingecko env ''global-dollar'' w1 = (Inr (f64_lit 1), w2)" "an_token a = USDG" "an_decimals a = 6"
  shows "\<exists>rates. fetch_anchor_rates env [a] w = (Inr rates, w2) \<and>
    weth_wei_to_anchor (ev\<lparr>e_prices := rates\<rparr>) a wei = Inr 0"
proof -
  have "e_prices (ev\<lparr>e_prices := [USDG \<mapsto> FInf False]\<rparr>) (an_token a) = Some (FInf False)" using assms(4) by simp
  from infinite_rate_free [OF this assms(5), of wei] show ?thesis
    using zero_weth_price [OF assms(1-4)] by auto
qed

theorem zero_price_frees_gas_witness:
  "\<exists>rates. fetch_anchor_rates \<lparr>px_client = None, px_binance = (\<lambda>_ w. (Inr (f64_lit 0) :: unit + f64, w)),
       px_coingecko = (\<lambda>_ w. (Inr (f64_lit 1), w))\<rparr> [weth_anchor\<lparr>an_token := USDG, an_decimals := 6\<rparr>] (0 :: nat) = (Inr rates, 0) \<and>
     weth_wei_to_anchor (arb_ev\<lparr>e_prices := rates\<rparr>) (weth_anchor\<lparr>an_token := USDG, an_decimals := 6\<rparr>) (10 ^ 18) = Inr 0"
  by (rule zero_price_frees_gas) simp_all

end
