(* ===== verification/Verify.thy ===== *)
theory Verify
  imports App
begin

text \<open>
  The verification commands, \<^verbatim>\<open>src/verify.rs\<close>: the decode audit, the replay of model-profitable routes against
  on-chain quotes, the accuracy table per protocol and the scan benchmark, with the values
  they print; timings and formatting are left out.  The node is a parameter that moves on with every request, so two
  requests may be answered differently.
\<close>

section \<open>The node and what a command changes\<close>

record v4_pool_key =
  vk_currency0 :: address
  vk_currency1 :: address
  vk_fee :: "24 word"
  vk_spacing :: int
  vk_hooks :: address

record ('w, 'e) verify_node =
  vn_tip :: "'w \<Rightarrow> ('e + u64) \<times> 'w"
  vn_storage :: "'w \<Rightarrow> 'e storage_rpc \<times> 'w"     \<comment> \<open>the answers to one batch of storage reads\<close>
  vn_sleep :: "u64 \<Rightarrow> 'w \<Rightarrow> 'w"
  vn_limited :: "'e \<Rightarrow> bool"                       \<comment> \<open>the error text mentions 429\<close>
  vn_reserves_v2 :: "('w, address, 'e, 112 word \<times> 112 word) provider"
  vn_reserves_aero :: "('w, address, 'e, u256 \<times> u256) provider"
  vn_slot0 :: "('w, address, 'e, 160 word \<times> int) provider"
  vn_liquidity :: "('w, address, 'e, u128) provider"
  vn_global_state :: "('w, address, 'e, 160 word \<times> int) provider"
  vn_algebra_fee :: "('w, address, 'e, u16) provider"
  vn_fee :: "('w, address, 'e, 24 word) provider"
  vn_v4_slot0 :: "('w, b256, 'e, 160 word \<times> int) provider"
  vn_v4_liquidity :: "('w, b256, 'e, u128) provider"
  vn_aero_out :: "('w, address \<times> u256 \<times> address, 'e, u256) provider"
  vn_pool_quote :: "('w, address \<times> bool \<times> u256, 'e, u256) provider"
  vn_v4_quote :: "('w, v4_pool_key \<times> bool \<times> u128, 'e, u256) provider"

record ('w, 'e, 'x) verify_env =
  ve_node :: "('w, 'e) verify_node"
  ve_keccak :: "u8 list \<Rightarrow> b256"
  ve_lib :: "'x v3lib"

text \<open>The commands share the registry (whose fees are atomics) and the chain state, and change both.\<close>

record 'w verify_world =
  vw_engine :: engine
  vw_chain :: chain_state
  vw_net :: 'w

type_synonym ('w, 'e, 'a) verifying = "('w verify_world, 'e, 'a) hydrating"

definition verify_start :: "app \<Rightarrow> 'w \<Rightarrow> 'w verify_world" where
  "verify_start a net = \<lparr>vw_engine = app_engine a, vw_chain = app_state a, vw_net = net\<rparr>"

definition vask :: "('w \<Rightarrow> ('e + 'a) \<times> 'w) \<Rightarrow> ('w, 'e, 'a) verifying" where
  "vask f w = (case f (vw_net w) of (r, net) \<Rightarrow> (elib r, w\<lparr>vw_net := net\<rparr>))"

text \<open>\<open>unwrap_or\<close> and \<open>ok()\<close>: an error becomes a value, a panic does not.\<close>

definition vcatch :: "('w, 'e, 'a) verifying \<Rightarrow> ('w, 'e, 'a option) verifying" where
  "vcatch m w =
     (case m w of
        (Inl p, w1) \<Rightarrow> (Inl p, w1)
      | (Inr (Inl e), w1) \<Rightarrow> (eok None, w1)
      | (Inr (Inr a), w1) \<Rightarrow> (eok (Some a), w1))"

definition vmeta :: "pool_idx \<Rightarrow> ('w, 'e, pool_meta) verifying" where
  "vmeta i w = (rbind (eng_meta (vw_engine w) i) eok, w)"

definition unwrap_or :: "'a \<Rightarrow> 'a option \<Rightarrow> 'a" where
  "unwrap_or d x = (case x of Some v \<Rightarrow> v | None \<Rightarrow> d)"

section \<open>Retrying under rate limits\<close>

text \<open>Four attempts with a doubling pause after each rate-limited failure, then a last one.\<close>

fun backoff_loop ::
    "(u64 \<Rightarrow> 'w \<Rightarrow> 'w) \<Rightarrow> ('e \<Rightarrow> bool) \<Rightarrow> ('w \<Rightarrow> ('e + 'a) \<times> 'w) \<Rightarrow> nat \<Rightarrow> u64 \<Rightarrow> 'w \<Rightarrow> ('e + 'a) \<times> 'w" where
  "backoff_loop pause limited f 0 backoff w = f w"
| "backoff_loop pause limited f (Suc n) backoff w =
     (case f w of
        (Inr v, w1) \<Rightarrow> (Inr v, w1)
      | (Inl e, w1) \<Rightarrow>
          if limited e then backoff_loop pause limited f n (backoff * 2) (pause backoff w1) else (Inl e, w1))"

definition with_429_backoff :: "('w, 'e) verify_node \<Rightarrow> ('w \<Rightarrow> ('e + 'a) \<times> 'w) \<Rightarrow> 'w \<Rightarrow> ('e + 'a) \<times> 'w" where
  "with_429_backoff node f w = backoff_loop (vn_sleep node) (vn_limited node) f 4 400 w"

section \<open>Synchronising one pool\<close>

definition vtip :: "('w, 'e, 'x) verify_env \<Rightarrow> ('w, 'e, u64) verifying" where
  "vtip env = hbind (vcatch (vask (vn_tip (ve_node env)))) (\<lambda>t. hpure (Inr (unwrap_or 0 t)))"

definition vadvance :: "u64 \<Rightarrow> ('w, 'e, unit) verifying" where
  "vadvance t w = (eok (), w\<lparr>vw_chain := advance_to t (vw_chain w)\<rparr>)"

definition vprefetch :: "('w, 'e, 'x) verify_env \<Rightarrow> slot_key list \<Rightarrow> ('w, 'e, unit) verifying" where
  "vprefetch env slots w =
     (case vn_storage (ve_node env) (vw_net w) of (rpc, net) \<Rightarrow>
        (eok (), w\<lparr>vw_chain := prefetch rpc slots (vw_chain w), vw_net := net\<rparr>))"

definition vhydrate :: "('w, 'e, 'x) verify_env \<Rightarrow> slot_plan \<Rightarrow> int \<Rightarrow> ('w, 'e, unit) verifying" where
  "vhydrate env plan spacing w =
     (case vn_storage (ve_node env) (vw_net w) of (rpc1, net1) \<Rightarrow>
      case vn_storage (ve_node env) net1 of (rpc2, net2) \<Rightarrow>
      case hydrate_cl_ticks_for_pool (ve_keccak env) rpc1 rpc2 plan spacing (vw_chain w) of
        Inl p \<Rightarrow> (Inl p, w\<lparr>vw_net := net2\<rparr>)
      | Inr s \<Rightarrow> (eok (), w\<lparr>vw_chain := s, vw_net := net2\<rparr>))"

text \<open>The step all commands begin with: pin the tip, drop the memo, read the pool's slots again.\<close>

definition sync_pool :: "('w, 'e, 'x) verify_env \<Rightarrow> slot_plan option \<Rightarrow> int \<Rightarrow> ('w, 'e, u64) verifying" where
  "sync_pool env plan spacing =
     hbind (vtip env) (\<lambda>t0.
     hbind (vadvance t0) (\<lambda>_.
       case plan of
         None \<Rightarrow> hpure (Inr t0)
       | Some p \<Rightarrow>
           hbind (vprefetch env (plan_slots p)) (\<lambda>_.
           hbind (vhydrate env p spacing) (\<lambda>_. hpure (Inr t0)))))"

section \<open>The decode audit\<close>

definition verify_v2 :: "('w, 'e) verify_node \<Rightarrow> address \<Rightarrow> u128 \<Rightarrow> u128 \<Rightarrow> ('w, 'e, bool) verifying" where
  "verify_v2 node pool r0 r1 =
     hbind (vask (vn_reserves_v2 node pool)) (\<lambda>(a, b). hpure (Inr (ucast a = r0 \<and> ucast b = r1)))"

definition verify_aero :: "('w, 'e) verify_node \<Rightarrow> address \<Rightarrow> u256 \<Rightarrow> u256 \<Rightarrow> ('w, 'e, bool) verifying" where
  "verify_aero node pool r0 r1 = hbind (vask (vn_reserves_aero node pool)) (\<lambda>(a, b). hpure (Inr (a = r0 \<and> b = r1)))"

definition verify_v3 :: "('w, 'e) verify_node \<Rightarrow> address \<Rightarrow> u256 \<Rightarrow> int \<Rightarrow> u128 \<Rightarrow> ('w, 'e, bool) verifying" where
  "verify_v3 node pool price tick liq =
     hbind (vask (vn_slot0 node pool)) (\<lambda>(p, t).
     hbind (vask (vn_liquidity node pool)) (\<lambda>onchain_liq.
       hpure (Inr (ucast p = price \<and> t = tick \<and> onchain_liq = liq))))"

definition verify_algebra ::
    "('w, 'e) verify_node \<Rightarrow> address \<Rightarrow> u256 \<Rightarrow> int \<Rightarrow> u128 \<Rightarrow> u32 option \<Rightarrow> ('w, 'e, bool) verifying" where
  "verify_algebra node pool price tick liq fee_word =
     hbind (vask (vn_global_state node pool)) (\<lambda>(p, t).
     hbind (vask (vn_liquidity node pool)) (\<lambda>onchain_liq.
       let ok = (ucast p = price \<and> t = tick \<and> onchain_liq = liq)
       in case fee_word of
            None \<Rightarrow> hpure (Inr ok)
          | Some f \<Rightarrow> hbind (vask (vn_algebra_fee node pool)) (\<lambda>fee. hpure (Inr (ok \<and> f = ucast fee)))))"

definition verify_v4 :: "('w, 'e) verify_node \<Rightarrow> b256 \<Rightarrow> u256 \<Rightarrow> int \<Rightarrow> u128 \<Rightarrow> ('w, 'e, bool) verifying" where
  "verify_v4 node pool_id price tick liq =
     hbind (vask (vn_v4_slot0 node pool_id)) (\<lambda>(p, t).
     hbind (vask (vn_v4_liquidity node pool_id)) (\<lambda>onchain_liq.
       hpure (Inr (ucast p = price \<and> t = tick \<and> onchain_liq = liq))))"

definition audit_pool :: "('w, 'e) verify_node \<Rightarrow> pool_meta \<Rightarrow> slot_plan \<Rightarrow> ('w, 'e, bool) verifying" where
  "audit_pool node meta plan w =
     (let s = vw_chain w
      in case plan of
           PV2Packed addr slot \<Rightarrow>
             let (r0, r1) = decode_v2_packed (cs_read s addr slot) in verify_v2 node (pm_address meta) r0 r1 w
         | PV2TwoSlot addr r0 \<Rightarrow> verify_aero node (pm_address meta) (cs_read s addr r0) (cs_read s addr (r0 + 1)) w
         | PCl c \<Rightarrow>
             let word0 = cs_read s (cl_addr c) (cl_slot0 c);
                 (sqrt, tick) = decode_v3_slot0 word0;
                 liq = decode_shifted128 (cs_read s (cl_addr c) (cl_liquidity c)) (cl_liq_shift c)
             in case pm_v4 meta of
                  Some v4 \<Rightarrow> verify_v4 node (v4_pool_id v4) sqrt tick liq w
                | None \<Rightarrow>
                    if is_algebra (pm_dex meta) then
                      verify_algebra node (pm_address meta) sqrt tick liq
                        (case cl_fee_src c of
                           FeeWord shift \<Rightarrow> Some (ucast (drop_bit (unat shift) word0 AND 0xffff))
                         | FeeMeta \<Rightarrow> None) w
                    else verify_v3 node (pm_address meta) sqrt tick liq w)"

text \<open>Up to three tries; a verdict counts when the tip after it is the tip before it.\<close>

fun audit_tries :: "('w, 'e, 'x) verify_env \<Rightarrow> pool_meta \<Rightarrow> slot_plan \<Rightarrow> nat \<Rightarrow> ('w, 'e, bool option) verifying" where
  "audit_tries env meta plan 0 = hpure (Inr None)"
| "audit_tries env meta plan (Suc n) =
     hbind (sync_pool env (Some plan) (pm_tick_spacing meta)) (\<lambda>t0.
     hbind (vcatch (audit_pool (ve_node env) meta plan)) (\<lambda>ok.
     hbind (vtip env) (\<lambda>t1.
       if t1 \<noteq> t0 then audit_tries env meta plan n else hpure (Inr ok))))"

record audit_report =
  ar_checked :: nat
  ar_mismatches :: u64
  ar_skipped :: u64

fun audit_loop :: "('w, 'e, 'x) verify_env \<Rightarrow> nat list \<Rightarrow> audit_report \<Rightarrow> ('w, 'e, audit_report) verifying" where
  "audit_loop env [] rep = hpure (Inr rep)"
| "audit_loop env (i # is) rep =
     hbind (vmeta (of_nat i)) (\<lambda>meta.
     \<lambda>w. case cs_plan (vw_chain w) (of_nat i) of
           None \<Rightarrow> audit_loop env is (rep\<lparr>ar_skipped := ar_skipped rep + 1\<rparr>) w
         | Some plan \<Rightarrow>
             hbind (audit_tries env meta plan 3) (\<lambda>ok.
               audit_loop env is (if ok = Some False then rep\<lparr>ar_mismatches := ar_mismatches rep + 1\<rparr> else rep)) w)"

definition verify_state :: "('w, 'e, 'x) verify_env \<Rightarrow> nat \<Rightarrow> ('w, 'e, audit_report) verifying" where
  "verify_state env sample w =
     (let n = min (eng_len (vw_engine w)) (max sample 1)
      in audit_loop env [0..<n] \<lparr>ar_checked = n, ar_mismatches = 0, ar_skipped = 0\<rparr> w)"

section \<open>Running the steps\<close>

text \<open>A step that leaves the registry and the recipes alone.\<close>

definition keeps :: "'w verify_world \<Rightarrow> 'w verify_world \<Rightarrow> bool" where
  "keeps w w' \<longleftrightarrow> vw_engine w' = vw_engine w \<and> cs_plans (vw_chain w') = cs_plans (vw_chain w)"

lemma keeps_refl [simp]: "keeps w w"
  by (simp add: keeps_def)

lemma keeps_plan: "keeps w w' \<Longrightarrow> cs_plan (vw_chain w') = cs_plan (vw_chain w)"
  by (rule cs_plan_cong) (simp add: keeps_def)

lemma vask_run: "vask f w = (Inr (fst (f (vw_net w))), w\<lparr>vw_net := snd (f (vw_net w))\<rparr>)"
  by (simp add: vask_def elib_def split: prod.split)

lemma vtip_run:
  "\<exists>w'. vtip env w = (Inr (Inr (case fst (vn_tip (ve_node env) (vw_net w)) of Inr t \<Rightarrow> t | Inl _ \<Rightarrow> 0)), w') \<and> keeps w w' \<and>
     vw_chain w' = vw_chain w"
proof (cases "fst (vn_tip (ve_node env) (vw_net w))")
  case (Inl e)
  then show ?thesis by (simp add: vtip_def hbind_def vcatch_def vask_run hpure_def eok_def unwrap_or_def keeps_def)
next
  case (Inr t)
  then show ?thesis by (simp add: vtip_def hbind_def vcatch_def vask_run hpure_def eok_def unwrap_or_def keeps_def)
qed

lemma hydrate_pool_total:
  "\<exists>s'. hydrate_cl_ticks_for_pool keccak rpc1 rpc2 plan spacing s = Inr s' \<and> cs_plans s' = cs_plans s \<and> cs_memo s' = cs_memo s \<and>
     cs_tip s' = cs_tip s \<and> ((\<forall>c. plan \<noteq> PCl c) \<longrightarrow> s' = s)"
proof -
  have "\<exists>x. window_of s rg (plan, spacing) = Inr x" for rg
  proof (cases plan)
    case (PCl c)
    then show ?thesis using window_of_cl [of c s rg spacing] by (cases "cl_codec c") (auto simp: window_of_def)
  qed (simp_all add: window_of_def)
  then obtain x where x: "window_of s BOOTSTRAP_TICK_WORD_RANGE (plan, spacing) = Inr x" by blast
  have "x = None" if "\<forall>c. plan \<noteq> PCl c" using x that by (cases plan) (auto simp: window_of_def)
  then show ?thesis using x by (auto simp: hydrate_cl_ticks_for_pool_def prefetch_cl_tick_windows_def Let_def)
qed

lemma vhydrate_run:
  "\<exists>w'. vhydrate env plan spacing w = (Inr (Inr ()), w') \<and> keeps w w' \<and> cs_memo (vw_chain w') = cs_memo (vw_chain w) \<and>
     ((\<forall>c. plan \<noteq> PCl c) \<longrightarrow> vw_chain w' = vw_chain w)"
proof -
  obtain rpc1 net1 rpc2 net2 where q: "vn_storage (ve_node env) (vw_net w) = (rpc1, net1)" "vn_storage (ve_node env) net1 = (rpc2, net2)"
    by (metis surj_pair)
  obtain s' where "hydrate_cl_ticks_for_pool (ve_keccak env) rpc1 rpc2 plan spacing (vw_chain w) = Inr s'"
    "cs_plans s' = cs_plans (vw_chain w)" "cs_memo s' = cs_memo (vw_chain w)" "(\<forall>c. plan \<noteq> PCl c) \<longrightarrow> s' = vw_chain w"
    using hydrate_pool_total by blast
  then show ?thesis using q by (simp add: vhydrate_def keeps_def eok_def)
qed

text \<open>After the step every slot of the pool's recipe that could be read holds what was read.\<close>

lemma sync_pool_run:
  "\<exists>t w'. sync_pool env plan spacing w = (Inr (Inr t), w') \<and> keeps w w' \<and>
     t = (case fst (vn_tip (ve_node env) (vw_net w)) of Inr t \<Rightarrow> t | Inl _ \<Rightarrow> 0) \<and>
     (\<forall>p. plan = Some p \<longrightarrow> (\<exists>net. \<forall>k. cs_memo (vw_chain w') k =
        (if k \<in> set (plan_slots p) then fetched (fst (vn_storage (ve_node env) net)) k else None))) \<and>
     ((\<forall>c. plan \<noteq> Some (PCl c)) \<longrightarrow> cs_ticks (vw_chain w') = cs_ticks (vw_chain w))"
proof -
  let ?t = "case fst (vn_tip (ve_node env) (vw_net w)) of Inr t \<Rightarrow> t | Inl _ \<Rightarrow> 0"
  obtain w1 where w1: "vtip env w = (Inr (Inr ?t), w1)" "keeps w w1" "vw_chain w1 = vw_chain w" using vtip_run by metis
  let ?w2 = "w1\<lparr>vw_chain := advance_to ?t (vw_chain w1)\<rparr>"
  have k2: "keeps w ?w2" using w1(2) by (simp add: keeps_def advance_to_def)
  show ?thesis
  proof (cases plan)
    case None
    then show ?thesis using w1 k2 by (simp add: advance_to_def sync_pool_def hbind_def w1(1) vadvance_def eok_def hpure_def)
  next
    case (Some p)
    obtain rpc net1 where q: "vn_storage (ve_node env) (vw_net w1) = (rpc, net1)" by (metis surj_pair)
    let ?w3 = "?w2\<lparr>vw_chain := prefetch rpc (plan_slots p) (vw_chain ?w2), vw_net := net1\<rparr>"
    obtain w4 where w4: "vhydrate env p spacing ?w3 = (Inr (Inr ()), w4)" "keeps ?w3 w4" "cs_memo (vw_chain w4) = cs_memo (vw_chain ?w3)"
      "(\<forall>c. p \<noteq> PCl c) \<longrightarrow> vw_chain w4 = vw_chain ?w3"
      using vhydrate_run by blast
    have "sync_pool env plan spacing w = (Inr (Inr ?t), w4)"
      using w4(1) by (simp add: Some sync_pool_def hbind_def w1(1) vadvance_def vprefetch_def q eok_def hpure_def)
    moreover have "keeps w w4" using w4(2) k2 by (simp add: keeps_def)
    moreover have "cs_memo (vw_chain w4) k = (if k \<in> set (plan_slots p) then fetched rpc k else None)" for k
      unfolding w4(3) by (simp add: prefetch_def prefetch_into_maps advance_to_def)
    moreover have "rpc = fst (vn_storage (ve_node env) (vw_net w1))" by (simp add: q)
    moreover have "cs_ticks (vw_chain w4) = cs_ticks (vw_chain w)" if "\<forall>c. p \<noteq> PCl c"
      using w4(4) that w1(3) by (simp add: advance_to_def)
    ultimately show ?thesis using Some by blast
  qed
qed

section \<open>What the audit finds\<close>

text \<open>
  A node at rest: the tip stays, storage answers from one map, and a view call is answered the same at
  any time (possibly with an error).
\<close>

definition fixed :: "('w, 'q, 'e, 'a) provider \<Rightarrow> bool" where
  "fixed p \<longleftrightarrow> (\<forall>q w w'. fst (p q w) = fst (p q w'))"

definition at_rest :: "('w, 'e) verify_node \<Rightarrow> u64 \<Rightarrow> (slot_key \<Rightarrow> u256) \<Rightarrow> bool" where
  "at_rest node tip store \<longleftrightarrow>
     (\<forall>w. fst (vn_tip node w) = Inr tip) \<and> (\<forall>w k. fetched (fst (vn_storage node w)) k = Some (store k)) \<and>
     fixed (vn_reserves_v2 node) \<and> fixed (vn_reserves_aero node) \<and> fixed (vn_slot0 node) \<and> fixed (vn_liquidity node) \<and>
     fixed (vn_global_state node) \<and> fixed (vn_algebra_fee node) \<and> fixed (vn_v4_slot0 node) \<and> fixed (vn_v4_liquidity node)"

text \<open>What a pool's view calls say of its decoded storage words; nothing if one of them fails.\<close>

definition answer :: "('w, 'q, 'e, 'a) provider \<Rightarrow> 'w \<Rightarrow> 'q \<Rightarrow> 'a option" where
  "answer p w q = (case fst (p q w) of Inr a \<Rightarrow> Some a | Inl _ \<Rightarrow> None)"

definition cl_views :: "('w, 'e) verify_node \<Rightarrow> 'w \<Rightarrow> pool_meta \<Rightarrow> ((160 word \<times> int) \<times> u128) option" where
  "cl_views node w meta =
     (let (slot0, liq) =
        (case pm_v4 meta of
           Some v4 \<Rightarrow> (answer (vn_v4_slot0 node) w (v4_pool_id v4), answer (vn_v4_liquidity node) w (v4_pool_id v4))
         | None \<Rightarrow>
             (answer (if is_algebra (pm_dex meta) then vn_global_state node else vn_slot0 node) w (pm_address meta),
              answer (vn_liquidity node) w (pm_address meta)))
      in Option.bind slot0 (\<lambda>a. map_option (Pair a) liq))"

definition fee_view :: "('w, 'e) verify_node \<Rightarrow> 'w \<Rightarrow> pool_meta \<Rightarrow> cl_fee \<Rightarrow> u256 \<Rightarrow> bool option" where
  "fee_view node w meta src word0 =
     (case src of
        FeeWord shift \<Rightarrow>
          if pm_v4 meta = None \<and> is_algebra (pm_dex meta)
          then map_option (\<lambda>fee. (ucast (drop_bit (unat shift) word0 AND 0xffff) :: u32) = ucast fee)
                 (answer (vn_algebra_fee node) w (pm_address meta))
          else Some True
      | FeeMeta \<Rightarrow> Some True)"

definition pool_agrees ::
    "('w, 'e) verify_node \<Rightarrow> 'w \<Rightarrow> (slot_key \<Rightarrow> u256) \<Rightarrow> pool_meta \<Rightarrow> slot_plan \<Rightarrow> bool option" where
  "pool_agrees node w store meta plan =
     (case plan of
        PV2Packed addr slot \<Rightarrow>
          map_option (\<lambda>(a, b). decode_v2_packed (store (addr, slot)) = (ucast a, ucast b))
            (answer (vn_reserves_v2 node) w (pm_address meta))
      | PV2TwoSlot addr r0 \<Rightarrow>
          map_option (\<lambda>r. r = (store (addr, r0), store (addr, r0 + 1))) (answer (vn_reserves_aero node) w (pm_address meta))
      | PCl c \<Rightarrow>
          let word0 = store (cl_addr c, cl_slot0 c)
          in Option.bind (cl_views node w meta) (\<lambda>((p, t), liq).
               map_option (\<lambda>fee_ok. decode_v3_slot0 word0 = (ucast p, t) \<and>
                   decode_shifted128 (store (cl_addr c, cl_liquidity c)) (cl_liq_shift c) = liq \<and> fee_ok)
                 (fee_view node w meta (cl_fee_src c) word0)))"

lemma keeps_net [simp]: "keeps w (w\<lparr>vw_net := net\<rparr>)"
  by (simp add: keeps_def)

lemma fixed_answer: "fixed p \<Longrightarrow> fst (p q w) = (case answer p w0 q of Some a \<Rightarrow> Inr a | None \<Rightarrow> Inl (projl (fst (p q w0))))"
  by (auto simp: fixed_def answer_def split: sum.splits) (metis sum.collapse(1) sum.disc(1))+

text \<open>A call whose outcome is fixed either yields its answer or ends the step with nothing.\<close>

lemma catch_ask:
  assumes "fixed p" "\<And>a w1. \<exists>w'. vcatch (f a) w1 = (Inr (Inr (g a)), w') \<and> keeps w1 w'"
  shows "\<exists>w'. vcatch (hbind (vask (p q)) f) w = (Inr (Inr (Option.bind (answer p w0 q) g)), w') \<and> keeps w w'"
proof (cases "answer p w0 q")
  case None
  then have "\<exists>e. fst (p q (vw_net w)) = Inl e" using fixed_answer [OF assms(1), of q "vw_net w" w0] by simp
  then show ?thesis using None by (auto simp: vcatch_def hbind_def vask_run eok_def)
next
  case (Some a)
  then have "fst (p q (vw_net w)) = Inr a" using fixed_answer [OF assms(1), of q "vw_net w" w0] by simp
  then have "vcatch (hbind (vask (p q)) f) w = vcatch (f a) (w\<lparr>vw_net := snd (p q (vw_net w))\<rparr>)"
    by (simp add: vcatch_def hbind_def vask_run)
  then show ?thesis using assms(2) [of a "w\<lparr>vw_net := snd (p q (vw_net w))\<rparr>"] Some by (auto simp: keeps_def)
qed

lemma catch_pure: "\<exists>w'. vcatch (hpure (Inr x)) w1 = (Inr (Inr (Some x)), w') \<and> keeps w1 w'"
  by (simp add: vcatch_def hpure_def eok_def)

lemma catch_two:
  assumes "fixed p" "fixed pl" "\<And>a t l w1. \<exists>w'. vcatch (f a t l) w1 = (Inr (Inr (g a t l)), w') \<and> keeps w1 w'"
  shows "\<exists>w'. vcatch (hbind (vask (p q)) (\<lambda>(a, t). hbind (vask (pl q2)) (f a t))) w =
    (Inr (Inr (Option.bind (answer p w0 q) (\<lambda>(a, t). Option.bind (answer pl w0 q2) (g a t)))), w') \<and> keeps w w'"
  using assms by (intro catch_ask) (auto intro: catch_ask split: prod.split)

text \<open>Each check of a node whose answers are fixed says what the answers say.\<close>

lemma verify_v2_run:
  assumes "fixed (vn_reserves_v2 node)"
  shows "\<exists>w'. vcatch (verify_v2 node pool r0 r1) w =
    (Inr (Inr (Option.bind (answer (vn_reserves_v2 node) w0 pool) (\<lambda>(a, b). Some (ucast a = r0 \<and> ucast b = r1)))), w') \<and> keeps w w'"
  unfolding verify_v2_def by (rule catch_ask) (use assms catch_pure in \<open>auto split: prod.split\<close>)

lemma verify_aero_run:
  assumes "fixed (vn_reserves_aero node)"
  shows "\<exists>w'. vcatch (verify_aero node pool r0 r1) w =
    (Inr (Inr (Option.bind (answer (vn_reserves_aero node) w0 pool) (\<lambda>(a, b). Some (a = r0 \<and> b = r1)))), w') \<and> keeps w w'"
  unfolding verify_aero_def by (rule catch_ask) (use assms catch_pure in \<open>auto split: prod.split\<close>)

lemma verify_v3_run:
  assumes "fixed (vn_slot0 node)" "fixed (vn_liquidity node)"
  shows "\<exists>w'. vcatch (verify_v3 node pool price tick liq) w =
    (Inr (Inr (Option.bind (answer (vn_slot0 node) w0 pool) (\<lambda>(p, t). Option.bind (answer (vn_liquidity node) w0 pool) (\<lambda>l.
       Some (ucast p = price \<and> t = tick \<and> l = liq))))), w') \<and> keeps w w'"
  unfolding verify_v3_def by (rule catch_two) (use assms catch_pure in auto)

lemma verify_v4_run:
  assumes "fixed (vn_v4_slot0 node)" "fixed (vn_v4_liquidity node)"
  shows "\<exists>w'. vcatch (verify_v4 node pid price tick liq) w =
    (Inr (Inr (Option.bind (answer (vn_v4_slot0 node) w0 pid) (\<lambda>(p, t). Option.bind (answer (vn_v4_liquidity node) w0 pid) (\<lambda>l.
       Some (ucast p = price \<and> t = tick \<and> l = liq))))), w') \<and> keeps w w'"
  unfolding verify_v4_def by (rule catch_two) (use assms catch_pure in auto)

lemma verify_algebra_run:
  assumes "fixed (vn_global_state node)" "fixed (vn_liquidity node)" "fixed (vn_algebra_fee node)"
  shows "\<exists>w'. vcatch (verify_algebra node pool price tick liq fee_word) w =
    (Inr (Inr (Option.bind (answer (vn_global_state node) w0 pool) (\<lambda>(p, t). Option.bind (answer (vn_liquidity node) w0 pool) (\<lambda>l.
       case fee_word of None \<Rightarrow> Some (ucast p = price \<and> t = tick \<and> l = liq)
       | Some f \<Rightarrow> Option.bind (answer (vn_algebra_fee node) w0 pool) (\<lambda>fee. Some ((ucast p = price \<and> t = tick \<and> l = liq) \<and> f = ucast fee)))))), w') \<and>
     keeps w w'"
  unfolding verify_algebra_def Let_def
proof (rule catch_two)
  fix p t l and w1 :: "'a verify_world"
  let ?ok = "ucast p = price \<and> t = tick \<and> l = liq"
  show "\<exists>w'. vcatch (case fee_word of None \<Rightarrow> hpure (Inr ?ok)
      | Some f \<Rightarrow> hbind (vask (vn_algebra_fee node pool)) (\<lambda>fee. hpure (Inr (?ok \<and> f = ucast fee)))) w1 =
      (Inr (Inr (case fee_word of None \<Rightarrow> Some ?ok
       | Some f \<Rightarrow> Option.bind (answer (vn_algebra_fee node) w0 pool) (\<lambda>fee. Some (?ok \<and> f = ucast fee)))), w') \<and> keeps w1 w'"
    using assms(3) by (cases fee_word) (auto intro!: catch_pure catch_ask)
qed (use assms in auto)

lemma vcatch_cong: "m w = m' w \<Longrightarrow> vcatch m w = vcatch m' w"
  by (simp add: vcatch_def)

text \<open>So the audit of a pool whose slots are in the memo says what the view calls say of the storage.\<close>

lemma audit_cl_run:
  assumes rest: "at_rest node tip store"
    and slots: "\<forall>k \<in> set (plan_slots (PCl c)). cs_memo (vw_chain w) k = Some (store k)"
  shows "\<exists>w'. vcatch (audit_pool node meta (PCl c)) w = (Inr (Inr (pool_agrees node w0 store meta (PCl c))), w') \<and> keeps w w'"
proof -
  note fx = rest [unfolded at_rest_def]
  let ?word0 = "store (cl_addr c, cl_slot0 c)" and ?liq = "decode_shifted128 (store (cl_addr c, cl_liquidity c)) (cl_liq_shift c)"
  let ?f = "case cl_fee_src c of FeeWord shift \<Rightarrow> Some (ucast (drop_bit (unat shift) ?word0 AND 0xffff)) | FeeMeta \<Rightarrow> None"
  obtain price tick where d: "decode_v3_slot0 ?word0 = (price, tick)" by fastforce
  have r: "cs_read (vw_chain w) (cl_addr c) (cl_slot0 c) = ?word0" "cs_read (vw_chain w) (cl_addr c) (cl_liquidity c) = store (cl_addr c, cl_liquidity c)"
    using slots by (simp_all add: cs_read_def plan_slots_def)
  have run: "vcatch (audit_pool node meta (PCl c)) w = vcatch
      (case pm_v4 meta of Some v4 \<Rightarrow> verify_v4 node (v4_pool_id v4) price tick ?liq
       | None \<Rightarrow> if is_algebra (pm_dex meta) then verify_algebra node (pm_address meta) price tick ?liq ?f
                 else verify_v3 node (pm_address meta) price tick ?liq) w"
    by (rule vcatch_cong, cases "cl_fee_src c") (simp_all add: audit_pool_def r d split: option.split)
  note agrees = pool_agrees_def cl_views_def fee_view_def d
  show ?thesis
  proof (cases "pm_v4 meta")
    case (Some v)
    then show ?thesis unfolding run using verify_v4_run [of node "v4_pool_id v" price tick ?liq w w0] fx
      by (auto simp: agrees split: prod.split Option.bind_split option.split cl_fee.split)
  next
    case None
    then show ?thesis unfolding run
      using verify_v3_run [of node "pm_address meta" price tick ?liq w w0] verify_algebra_run [of node "pm_address meta" price tick ?liq ?f w w0] fx
      by (cases "is_algebra (pm_dex meta)"; cases "cl_fee_src c") (auto simp: agrees split: prod.split Option.bind_split option.split)
  qed
qed

lemma audit_pool_run:
  assumes rest: "at_rest node tip store"
    and slots: "\<forall>k \<in> set (plan_slots plan). cs_memo (vw_chain w) k = Some (store k)"
  shows "\<exists>w'. vcatch (audit_pool node meta plan) w = (Inr (Inr (pool_agrees node w0 store meta plan)), w') \<and> keeps w w'"
proof (cases plan)
  case (PV2Packed a s)
  obtain r0 r1 where d: "decode_v2_packed (store (a, s)) = (r0, r1)" by fastforce
  have "vcatch (audit_pool node meta plan) w = vcatch (verify_v2 node (pm_address meta) r0 r1) w"
    using slots PV2Packed d by (intro vcatch_cong) (simp add: audit_pool_def plan_slots_def cs_read_def)
  then show ?thesis using verify_v2_run [of node "pm_address meta" r0 r1 w w0] rest PV2Packed d
    by (auto simp: at_rest_def pool_agrees_def split: prod.split Option.bind_split option.split)
next
  case (PV2TwoSlot a r0)
  have "vcatch (audit_pool node meta plan) w = vcatch (verify_aero node (pm_address meta) (store (a, r0)) (store (a, r0 + 1))) w"
    using slots PV2TwoSlot by (intro vcatch_cong) (simp add: audit_pool_def plan_slots_def cs_read_def)
  then show ?thesis using verify_aero_run [of node "pm_address meta" "store (a, r0)" "store (a, r0 + 1)" w w0] rest PV2TwoSlot
    by (auto simp: at_rest_def pool_agrees_def split: prod.split Option.bind_split option.split)
next
  case (PCl c)
  then show ?thesis using audit_cl_run [OF rest] slots by blast
qed

lemma audit_tries_run:
  assumes rest: "at_rest node tip store" and env: "ve_node env = node"
  shows "\<exists>w'. audit_tries env meta plan (Suc n) w = (Inr (Inr (pool_agrees node w0 store meta plan)), w') \<and> keeps w w'"
proof -
  obtain t w1 where s: "sync_pool env (Some plan) (pm_tick_spacing meta) w = (Inr (Inr t), w1)" "keeps w w1"
    "t = (case fst (vn_tip node (vw_net w)) of Inr t \<Rightarrow> t | Inl _ \<Rightarrow> 0)"
    "\<exists>net. \<forall>k. cs_memo (vw_chain w1) k = (if k \<in> set (plan_slots plan) then fetched (fst (vn_storage node net)) k else None)"
    using sync_pool_run [of env "Some plan" "pm_tick_spacing meta" w] unfolding env by metis
  then have "\<forall>k \<in> set (plan_slots plan). cs_memo (vw_chain w1) k = Some (store k)" using rest by (auto simp: at_rest_def)
  then obtain w2 where a: "vcatch (audit_pool node meta plan) w1 = (Inr (Inr (pool_agrees node w0 store meta plan)), w2)" "keeps w1 w2"
    using audit_pool_run [OF rest] by blast
  obtain w3 where t: "vtip env w2 = (Inr (Inr tip), w3)" "keeps w2 w3"
    using vtip_run [of env w2] rest unfolding env at_rest_def by auto
  have "t = tip" using s(3) rest by (simp add: at_rest_def)
  then have "audit_tries env meta plan (Suc n) w = (Inr (Inr (pool_agrees node w0 store meta plan)), w3)"
    by (simp add: hbind_def s(1) env a(1) t(1) hpure_def eok_def)
  then show ?thesis using s(2) a(2) t(2) by (auto simp: keeps_def)
qed

text \<open>The audit as a fold over the pools: what it adds for one of them.\<close>

definition audit_count ::
    "('w, 'e) verify_node \<Rightarrow> 'w \<Rightarrow> (slot_key \<Rightarrow> u256) \<Rightarrow> engine \<Rightarrow> chain_state \<Rightarrow> nat list \<Rightarrow> audit_report \<Rightarrow> audit_report" where
  "audit_count node w0 store e s is rep = rep
     \<lparr>ar_mismatches := ar_mismatches rep + of_nat (length (filter (\<lambda>i. \<exists>plan. cs_plan s (of_nat i) = Some plan \<and>
          pool_agrees node w0 store (eng_metas e ! i) plan = Some False) is)),
      ar_skipped := ar_skipped rep + of_nat (length (filter (\<lambda>i. cs_plan s (of_nat i) = None) is))\<rparr>"

lemma audit_loop_run:
  assumes rest: "at_rest node tip store" and env: "ve_node env = node"
    and small: "\<forall>i \<in> set is. i < eng_len (vw_engine w)" "eng_len (vw_engine w) \<le> 2 ^ 32"
  shows "\<exists>w'. audit_loop env is rep w = (Inr (Inr (audit_count node w0 store (vw_engine w) (vw_chain w) is rep)), w') \<and> keeps w w'"
  using small
proof (induction "is" arbitrary: rep w)
  case Nil
  then show ?case by (simp add: audit_count_def hpure_def eok_def)
next
  case (Cons i "is")
  have "unat (of_nat i :: u32) = i" using Cons.prems by (intro unat_of_nat_u32) auto
  then have m: "vmeta (of_nat i) w = (Inr (Inr (eng_metas (vw_engine w) ! i)), w)" (is "_ = (Inr (Inr ?meta), w)")
    using Cons.prems by (simp add: vmeta_def eng_meta_def index_Inr idx_get_def eng_len_def index_def eok_def)
  show ?case
  proof (cases "cs_plan (vw_chain w) (of_nat i)")
    case None
    then show ?thesis using Cons.IH [of w "rep\<lparr>ar_skipped := ar_skipped rep + 1\<rparr>"] Cons.prems
      by (auto simp: hbind_def m audit_count_def ac_simps)
  next
    case (Some plan)
    obtain w1 where a: "audit_tries env ?meta plan 3 w = (Inr (Inr (pool_agrees node w0 store ?meta plan)), w1)" "keeps w w1"
      using audit_tries_run [OF rest env, of ?meta plan 2 w w0] by (auto simp: eval_nat_numeral simp del: audit_tries.simps)
    let ?rep = "if pool_agrees node w0 store ?meta plan = Some False then rep\<lparr>ar_mismatches := ar_mismatches rep + 1\<rparr> else rep"
    have same: "vw_engine w1 = vw_engine w" "cs_plan (vw_chain w1) = cs_plan (vw_chain w)" using a(2) keeps_plan by (auto simp: keeps_def)
    obtain w2 where "audit_loop env is ?rep w1 = (Inr (Inr (audit_count node w0 store (vw_engine w1) (vw_chain w1) is ?rep)), w2)" "keeps w1 w2"
      using Cons.IH [of w1 ?rep] Cons.prems same by auto
    moreover have "audit_count node w0 store (vw_engine w1) (vw_chain w1) is ?rep = audit_count node w0 store (vw_engine w) (vw_chain w) (i # is) rep"
      using Some by (simp add: audit_count_def same ac_simps)
    ultimately show ?thesis using a Some by (auto simp: hbind_def m keeps_def simp del: audit_tries.simps)
  qed
qed

text \<open>C15. Over a node at rest the decode audit never panics or fails, and its counts are exact whatever the caches
  held before: the mismatches are the sampled pools whose storage words, decoded by the pool's
  recipe, differ from what its view calls answer, and the skipped ones those without a recipe; a
  pool whose view calls fail is neither.\<close>
theorem audit_exact:
  fixes sample :: nat
  assumes "at_rest (ve_node env) tip store" "eng_len (vw_engine w) \<le> 2 ^ 32"
  defines "n \<equiv> min (eng_len (vw_engine w)) (max sample 1)"
  shows "\<exists>w'. verify_state env sample w = (eok \<lparr>ar_checked = n,
      ar_mismatches = of_nat (length (filter (\<lambda>i. \<exists>plan. cs_plan (vw_chain w) (of_nat i) = Some plan \<and>
        pool_agrees (ve_node env) w0 store (eng_metas (vw_engine w) ! i) plan = Some False) [0..<n])),
      ar_skipped = of_nat (length (filter (\<lambda>i. cs_plan (vw_chain w) (of_nat i) = None) [0..<n]))\<rparr>, w')"
  using audit_loop_run [OF assms(1) refl, of "[0..<n]" w "\<lparr>ar_checked = n, ar_mismatches = 0, ar_skipped = 0\<rparr>" w0] assms(2)
  by (auto simp: verify_state_def audit_count_def eok_def n_def Let_def)

text \<open>A tip that cannot be read counts as block 0 on both sides, so no race is noticed and the first verdict stands.\<close>

lemma dead_tip_no_retry:
  assumes "\<forall>w. \<exists>e. fst (vn_tip (ve_node env) w) = Inl e"
  shows "audit_tries env meta plan (Suc n) w = audit_tries env meta plan 1 w"
proof -
  have dead: "\<exists>w'. vtip env w = (Inr (Inr 0), w')" for w
  proof -
    obtain e where "fst (vn_tip (ve_node env) (vw_net w)) = Inl e" using assms by blast
    then show ?thesis using vtip_run [of env w] by auto
  qed
  obtain e where "fst (vn_tip (ve_node env) (vw_net w)) = Inl e" using assms by blast
  then obtain w1 where s: "sync_pool env (Some plan) (pm_tick_spacing meta) w = (Inr (Inr 0), w1)"
    using sync_pool_run [of env "Some plan" "pm_tick_spacing meta" w] by auto
  show ?thesis
  proof (cases "vcatch (audit_pool (ve_node env) meta plan) w1")
    case (Pair r w2)
    obtain w3 where "vtip env w2 = (Inr (Inr 0), w3)" using dead by blast
    then show ?thesis using Pair by (cases r) (auto simp: hbind_def s split: sum.split)
  qed
qed

text \<open>A storage read that fails leaves the slot unread, which decodes as zero: over a pair with reserves the audit
  reports a mismatch of the recipe, although nothing was compared.\<close>

lemma failed_read_is_mismatch:
  assumes "\<forall>w k. fetched (fst (vn_storage (ve_node env) w)) k = None" "\<forall>w. fst (vn_tip (ve_node env) w) = Inr tip"
    and "\<forall>w. fst (vn_reserves_v2 (ve_node env) (pm_address meta) w) = Inr (a, b)" "a \<noteq> 0" "cs_ticks (vw_chain w) (addr, slot) = None"
  shows "\<exists>w'. audit_tries env meta (PV2Packed addr slot) (Suc n) w = (Inr (Inr (Some False)), w')"
proof -
  obtain w1 where s: "sync_pool env (Some (PV2Packed addr slot)) (pm_tick_spacing meta) w = (Inr (Inr tip), w1)"
    "cs_memo (vw_chain w1) (addr, slot) = None" "cs_ticks (vw_chain w1) = cs_ticks (vw_chain w)"
    using sync_pool_run [of env "Some (PV2Packed addr slot)" "pm_tick_spacing meta" w] assms(1,2) by auto
  have "decode_v2_packed (cs_read (vw_chain w1) addr slot) = (0, 0)"
    using s(2,3) assms(5) by (simp add: cs_read_def decode_v2_packed_def)
  moreover have "(ucast a :: u128) \<noteq> 0"
    using assms(4) unat_ucast_up [of a, where 'b = 128] by (auto simp: word_unat_eq_iff)
  ultimately have "\<exists>w2. vcatch (audit_pool (ve_node env) meta (PV2Packed addr slot)) w1 = (Inr (Inr (Some False)), w2)"
    using assms(3) by (simp add: vcatch_def audit_pool_def verify_v2_def hbind_def vask_run hpure_def eok_def)
  then obtain w2 where "vcatch (audit_pool (ve_node env) meta (PV2Packed addr slot)) w1 = (Inr (Inr (Some False)), w2)" by blast
  moreover obtain w3 where "vtip env w2 = (Inr (Inr tip), w3)" using vtip_run [of env w2] assms(2) by auto
  ultimately show ?thesis by (simp add: hbind_def s(1) hpure_def eok_def)
qed

section \<open>A concrete node\<close>

definition quiet_node :: "(unit, unit) verify_node" where
  "quiet_node =
     \<lparr>vn_tip = (\<lambda>w. (Inr 5, w)), vn_storage = (\<lambda>w. ((\<lambda>a s. Inr (if a = 10 then pack_v2 1048576 4194304 99 else 0)), w)),
      vn_sleep = (\<lambda>_ w. w), vn_limited = (\<lambda>_. True), vn_reserves_v2 = (\<lambda>_ w. (Inr (1048576, 4194304), w)),
      vn_reserves_aero = (\<lambda>_ w. (Inl (), w)), vn_slot0 = (\<lambda>_ w. (Inl (), w)), vn_liquidity = (\<lambda>_ w. (Inl (), w)),
      vn_global_state = (\<lambda>_ w. (Inl (), w)), vn_algebra_fee = (\<lambda>_ w. (Inl (), w)), vn_fee = (\<lambda>_ w. (Inl (), w)),
      vn_v4_slot0 = (\<lambda>_ w. (Inl (), w)), vn_v4_liquidity = (\<lambda>_ w. (Inl (), w)), vn_aero_out = (\<lambda>_ w. (Inl (), w)),
      vn_pool_quote = (\<lambda>_ w. (Inl (), w)), vn_v4_quote = (\<lambda>_ w. (Inl (), w))\<rparr>"

definition quiet_env :: "(unit, unit, unit) verify_env" where
  "quiet_env = \<lparr>ve_node = quiet_node, ve_keccak = sample_hash, ve_lib = sample_lib\<rparr>"

definition quiet_store :: "slot_key \<Rightarrow> u256" where
  "quiet_store k = (if fst k = 10 then pack_v2 1048576 4194304 99 else 0)"

definition quiet_world :: "unit verify_world" where
  "quiet_world = \<lparr>vw_engine = arb_engine, vw_chain = arb_state, vw_net = ()\<rparr>"

lemma quiet_at_rest: "at_rest (ve_node quiet_env) 5 quiet_store"
  by (simp add: at_rest_def quiet_env_def quiet_node_def fixed_def fetched_def quiet_store_def)

lemma quiet_plans: "cs_plan arb_state (of_nat i) = Some (PV2Packed (if i = 0 then 10 else 11) 8)" if "i < 2"
  using that by (auto simp: arb_state_def set_plans_def cs_plan_def get_def idx_get_def less_Suc_eq numeral_2_eq_2)

lemma quiet_agreement:
  "pool_agrees quiet_node () quiet_store meta (PV2Packed 10 8) = Some True"
  "pool_agrees quiet_node () quiet_store meta (PV2Packed 11 8) = Some False"
proof -
  have "decode_v2_packed 0 = (0, 0)" by (simp add: decode_v2_packed_def)
  then show "pool_agrees quiet_node () quiet_store meta (PV2Packed 10 8) = Some True"
    "pool_agrees quiet_node () quiet_store meta (PV2Packed 11 8) = Some False"
    by (simp_all add: pool_agrees_def answer_def quiet_node_def quiet_store_def decode_v2_pack)
qed

theorem audit_exact_witness:
  "\<exists>w'. verify_state quiet_env 25 quiet_world = (eok \<lparr>ar_checked = 2, ar_mismatches = 1, ar_skipped = 0\<rparr>, w')"
proof -
  have len: "eng_len (vw_engine quiet_world) = 2" by (simp add: quiet_world_def eng_len_def arb_engine_def)
  have "filter (\<lambda>i. \<exists>plan. cs_plan (vw_chain quiet_world) (of_nat i) = Some plan \<and>
      pool_agrees (ve_node quiet_env) () quiet_store (eng_metas (vw_engine quiet_world) ! i) plan = Some False) [0..<2] =
      filter (\<lambda>i. i = 1) [0..<2]"
    using quiet_plans quiet_agreement by (intro filter_cong) (auto simp: quiet_world_def quiet_env_def)
  then have bad: "filter (\<lambda>i. \<exists>plan. cs_plan (vw_chain quiet_world) (of_nat i) = Some plan \<and>
      pool_agrees (ve_node quiet_env) () quiet_store (eng_metas (vw_engine quiet_world) ! i) plan = Some False) [0..<2] = [1]"
    by (simp add: upt_rec)
  have skip: "filter (\<lambda>i. cs_plan (vw_chain quiet_world) (of_nat i) = None) [0..<2] = []"
    using quiet_plans by (auto simp: quiet_world_def filter_empty_conv)
  show ?thesis
    using audit_exact [OF quiet_at_rest, of quiet_world 25 "()"] unfolding len by (simp add: bad skip)
qed

section \<open>What the retries return\<close>

text \<open>The node before attempt \<open>k\<close>, when all attempts before it failed: each is followed by a pause twice the previous one.\<close>

primrec before_attempt ::
    "(u64 \<Rightarrow> 'w \<Rightarrow> 'w) \<Rightarrow> ('w \<Rightarrow> ('e + 'a) \<times> 'w) \<Rightarrow> u64 \<Rightarrow> nat \<Rightarrow> 'w \<Rightarrow> 'w" where
  "before_attempt pause f b 0 w = w"
| "before_attempt pause f b (Suc k) w = pause (b * 2 ^ k) (snd (f (before_attempt pause f b k w)))"

lemma before_attempt_shift:
  "before_attempt pause f (b * 2) k (pause b (snd (f w))) = before_attempt pause f b (Suc k) w"
  by (induction k) (simp_all add: ac_simps)

definition rate_limited :: "('e \<Rightarrow> bool) \<Rightarrow> 'e + 'a \<Rightarrow> bool" where
  "rate_limited limited r = (case r of Inl e \<Rightarrow> limited e | Inr _ \<Rightarrow> False)"

lemma backoff_loop_spec:
  "\<exists>k \<le> n. backoff_loop pause limited f n b w = f (before_attempt pause f b k w) \<and>
     (\<forall>j < k. rate_limited limited (fst (f (before_attempt pause f b j w)))) \<and>
     (k < n \<longrightarrow> \<not> rate_limited limited (fst (f (before_attempt pause f b k w))))"
proof (induction n arbitrary: b w)
  case 0
  then show ?case by simp
next
  case (Suc n)
  show ?case
  proof (cases "rate_limited limited (fst (f w))")
    case False
    then have "backoff_loop pause limited f (Suc n) b w = f w"
      by (cases "f w") (auto simp: rate_limited_def split: sum.splits)
    then show ?thesis using False by (intro exI [of _ 0]) simp
  next
    case True
    let ?w1 = "pause b (snd (f w))"
    have step: "backoff_loop pause limited f (Suc n) b w = backoff_loop pause limited f n (b * 2) ?w1"
      using True by (cases "f w") (auto simp: rate_limited_def split: sum.splits)
    obtain k where k: "k \<le> n" "backoff_loop pause limited f n (b * 2) ?w1 = f (before_attempt pause f b (Suc k) w)"
      "\<forall>j < k. rate_limited limited (fst (f (before_attempt pause f b (Suc j) w)))"
      "k < n \<longrightarrow> \<not> rate_limited limited (fst (f (before_attempt pause f b (Suc k) w)))"
      using Suc.IH [of "b * 2" ?w1] unfolding before_attempt_shift by blast
    have "rate_limited limited (fst (f (before_attempt pause f b j w)))" if "j < Suc k" for j
      using that True k(3) by (cases j) auto
    then show ?thesis unfolding step using k by (intro exI [of _ "Suc k"]) simp
  qed
qed

text \<open>A retried call returns the outcome of its first attempt that is not rate limited, or of the fifth: the
  pauses are 400, 800, 1600 and 3200 ms, an error of another kind is returned at once, and a
  success is never thrown away.\<close>
lemma backoff_exact:
  "\<exists>k \<le> 4. with_429_backoff node f w = f (before_attempt (vn_sleep node) f 400 k w) \<and>
     (\<forall>j < k. rate_limited (vn_limited node) (fst (f (before_attempt (vn_sleep node) f 400 j w)))) \<and>
     (k < 4 \<longrightarrow> \<not> rate_limited (vn_limited node) (fst (f (before_attempt (vn_sleep node) f 400 k w))))"
  unfolding with_429_backoff_def by (rule backoff_loop_spec)

text \<open>A node that is rate limited three times: the fourth attempt is returned, 2800 ms later.\<close>

definition busy_node :: "(nat \<times> u64, unit) verify_node" where
  "busy_node =
     \<lparr>vn_tip = (\<lambda>w. (Inl (), w)), vn_storage = (\<lambda>w. (\<lambda>_ _. Inl (), w)), vn_sleep = (\<lambda>ms (n, t). (n, t + ms)), vn_limited = (\<lambda>_. True),
           vn_reserves_v2 = (\<lambda>_ w. (Inl (), w)), vn_reserves_aero = (\<lambda>_ w. (Inl (), w)), vn_slot0 = (\<lambda>_ w. (Inl (), w)),
           vn_liquidity = (\<lambda>_ w. (Inl (), w)), vn_global_state = (\<lambda>_ w. (Inl (), w)), vn_algebra_fee = (\<lambda>_ w. (Inl (), w)),
           vn_fee = (\<lambda>_ w. (Inl (), w)), vn_v4_slot0 = (\<lambda>_ w. (Inl (), w)), vn_v4_liquidity = (\<lambda>_ w. (Inl (), w)),
           vn_aero_out = (\<lambda>_ w. (Inl (), w)), vn_pool_quote = (\<lambda>_ w. (Inl (), w)), vn_v4_quote = (\<lambda>_ w. (Inl (), w))\<rparr>"

definition busy_call :: "nat \<times> u64 \<Rightarrow> (unit + u64) \<times> nat \<times> u64" where
  "busy_call w = (case w of (n, t) \<Rightarrow> (if n < 3 then Inl () else Inr t, n + 1, t))"

theorem backoff_exact_witness: "with_429_backoff busy_node busy_call (0, 0) = (Inr 2800, (4, 2800))"
proof -
  let ?w = "\<lambda>k. before_attempt (vn_sleep busy_node) busy_call 400 k (0, 0)"
  have w: "?w 0 = (0, 0)" "?w 1 = (1, 400)" "?w 2 = (2, 1200)" "?w 3 = (3, 2800)"
    by (simp_all add: busy_node_def busy_call_def eval_nat_numeral)
  have lim: "rate_limited (vn_limited busy_node) (fst (busy_call (?w j))) \<longleftrightarrow> j < 3" if "j \<le> 3" for j
  proof -
    have "j \<in> {0, 1, 2, 3}" using that by auto
    then show ?thesis using w by (auto simp: rate_limited_def busy_call_def busy_node_def simp del: before_attempt.simps)
  qed
  obtain k where k: "k \<le> 4" "with_429_backoff busy_node busy_call (0, 0) = busy_call (?w k)"
    "\<forall>j < k. rate_limited (vn_limited busy_node) (fst (busy_call (?w j)))"
    "k < 4 \<longrightarrow> \<not> rate_limited (vn_limited busy_node) (fst (busy_call (?w k)))"
    using backoff_exact [of busy_node busy_call "(0, 0)"] by blast
  have "k = 3" using k(1,3,4) lim [of k] lim [of 3] by (cases "k < 3"; cases "k = 4") auto
  then show ?thesis using k(2) w(4) by (simp add: busy_call_def)
qed

end
