(* ===== verification/Requote.thy ===== *)
theory Requote
  imports Verify
begin

text \<open>
  The second half of \<^verbatim>\<open>src/verify.rs\<close>: on-chain quotes per hop, the replay of model-profitable routes, the
  accuracy table and the scan benchmark, and the command dispatch of \<^verbatim>\<open>src/main.rs\<close>.
\<close>

section \<open>On-chain quotes\<close>

text \<open>The conversions of the pool key panic on a fee beyond 24 bits and on a spacing beyond a signed 24-bit integer.\<close>

definition v4_quote_key :: "v4_meta \<Rightarrow> v4_pool_key res" where
  "v4_quote_key v4 =
     (if unat (v4_fee_pips v4) \<ge> 2 ^ 24 then Inl ConversionLoss
      else if v4_tick_spacing v4 < - (2 ^ 23) \<or> v4_tick_spacing v4 \<ge> 2 ^ 23 then Inl ExpectFailed
      else Inr \<lparr>vk_currency0 = v4_currency0 v4, vk_currency1 = v4_currency1 v4, vk_fee = ucast (v4_fee_pips v4),
                vk_spacing = v4_tick_spacing v4, vk_hooks = 0\<rparr>)"

definition onchain_quote_hop :: "('w, 'e) verify_node \<Rightarrow> hop \<Rightarrow> u256 \<Rightarrow> ('w, 'e, u256 option) verifying" where
  "onchain_quote_hop node h amount_in =
     hbind (vmeta (hop_pool h)) (\<lambda>meta.
       if is_aero (pm_dex meta) then
         hbind (vask (with_429_backoff node (vn_aero_out node (pm_address meta, amount_in, hop_token_in h)))) (\<lambda>out.
           hpure (Inr (Some out)))
       else if pm_dex meta = UniV2Fork then
         hbind (vask (with_429_backoff node (vn_reserves_v2 node (pm_address meta)))) (\<lambda>(r0, r1).
           let (rin, rout) = (if hop_zero_for_one h then (ucast r0, ucast r1) else (ucast r1, ucast r0))
           in hbind (hpure (v2_get_amount_out amount_in rin rout (pm_fee_bps meta))) (\<lambda>out. hpure (Inr (Some out))))
       else if is_v4 (pm_dex meta) then
         (case pm_v4 meta of
            None \<Rightarrow> hpure (Inr None)
          | Some v4 \<Rightarrow>
              if amount_in > 2 ^ 128 - 1 then hpure (Inr None)
              else hbind (hpure (v4_quote_key v4)) (\<lambda>key.
                   vcatch (vask (with_429_backoff node (vn_v4_quote node (key, hop_zero_for_one h, ucast amount_in))))))
       else
         vcatch (vask (with_429_backoff node (vn_pool_quote node (pm_address meta, hop_zero_for_one h, amount_in)))))"

fun dex_name :: "dex_tag \<Rightarrow> string" where
  "dex_name UniV2Fork = ''v2''"
| "dex_name AeroVolatile = ''aero-vol''"
| "dex_name AeroStable = ''aero-stable''"
| "dex_name UniV3Fork = ''univ3''"
| "dex_name PancakeV3 = ''pancakev3''"
| "dex_name Slipstream = ''slipstream''"
| "dex_name UniV4 = ''univ4''"
| "dex_name Algebra = ''algebra''"

definition pct_diff :: "u256 \<Rightarrow> u256 \<Rightarrow> f64" where
  "pct_diff model chain =
     (if chain = 0 then f64_lit 0
      else
        let m = u256_to_f64 model; c = u256_to_f64 chain
        in fmul (fdiv (fsub m c) c) (f64_lit 100))"

text \<open>The sign and the magnitude the profit is printed with.\<close>

definition signed_diff :: "u256 \<Rightarrow> u256 \<Rightarrow> char \<times> u256" where
  "signed_diff out input = (if input \<le> out then (CHR ''+'', out - input) else (CHR ''-'', input - out))"

definition vquote :: "('w, 'e, 'x) verify_env \<Rightarrow> pool_meta \<Rightarrow> u256 \<Rightarrow> bool \<Rightarrow> ('w, 'e, u256) verifying" where
  "vquote env meta amount_in zero_for_one w =
     (rbind (quote (ve_keccak env) (ve_lib env) (vw_chain w) meta amount_in zero_for_one) eok, w)"

text \<open>A pool is synchronised with the recipe it has when the step starts.\<close>

definition vsync :: "('w, 'e, 'x) verify_env \<Rightarrow> pool_idx \<Rightarrow> ('w, 'e, u64) verifying" where
  "vsync env i =
     hbind (vmeta i) (\<lambda>meta. \<lambda>w. sync_pool env (cs_plan (vw_chain w) i) (pm_tick_spacing meta) w)"

section \<open>The sample check\<close>

record sample_report =
  sr_worst :: f64
  sr_checked :: nat

fun sample_loop :: "('w, 'e, 'x) verify_env \<Rightarrow> nat list \<Rightarrow> sample_report \<Rightarrow> ('w, 'e, sample_report) verifying" where
  "sample_loop env [] rep = hpure (Inr rep)"
| "sample_loop env (i # is) rep =
     hbind (vmeta (of_nat i)) (\<lambda>meta.
       let amount_in = 10 ^ unat (pm_dec0 meta) div 100;
           h = \<lparr>hop_pool = of_nat i, hop_zero_for_one = True, hop_token_in = pm_token0 meta\<rparr>
       in hbind (vsync env (of_nat i)) (\<lambda>_.
          hbind (vquote env meta amount_in True) (\<lambda>model.
          hbind (vcatch (onchain_quote_hop (ve_node env) h amount_in)) (\<lambda>chain.
            sample_loop env is
              (case unwrap_or None chain of
                 None \<Rightarrow> rep
               | Some c \<Rightarrow> rep\<lparr>sr_worst := fmax (sr_worst rep) (fabs (pct_diff model c)), sr_checked := sr_checked rep + 1\<rparr>)))))"

definition verify_pool_sample :: "('w, 'e, 'x) verify_env \<Rightarrow> nat \<Rightarrow> ('w, 'e, sample_report) verifying" where
  "verify_pool_sample env n w =
     sample_loop env [0..<min (eng_len (vw_engine w)) n] \<lparr>sr_worst = f64_lit 0, sr_checked = 0\<rparr> w"

section \<open>Replaying profitable routes\<close>

datatype verdict = VUnknown | VReal | VPhantom

record route_report =
  rr_opp :: opportunity
  rr_model :: u256
  rr_chain :: u256
  rr_verdict :: verdict

text \<open>Both chains of quotes start at the input; a hop without an on-chain quote carries the model's output over.\<close>

fun replay_hops ::
    "('w, 'e, 'x) verify_env \<Rightarrow> hop list \<Rightarrow> u256 \<Rightarrow> u256 \<Rightarrow> bool \<Rightarrow> ('w, 'e, u256 \<times> u256 \<times> bool) verifying" where
  "replay_hops env [] amt_model amt_chain verified = hpure (Inr (amt_model, amt_chain, verified))"
| "replay_hops env (h # hs) amt_model amt_chain verified =
     hbind (vmeta (hop_pool h)) (\<lambda>meta.
     hbind (vsync env (hop_pool h)) (\<lambda>_.
     hbind (vquote env meta amt_model (hop_zero_for_one h)) (\<lambda>model_out.
     hbind (onchain_quote_hop (ve_node env) h amt_chain) (\<lambda>chain_out.
       case chain_out of
         Some c \<Rightarrow> replay_hops env hs model_out c verified
       | None \<Rightarrow> replay_hops env hs model_out model_out False))))"

definition verdict_of :: "opportunity \<Rightarrow> u256 \<Rightarrow> bool \<Rightarrow> verdict" where
  "verdict_of opp amt_chain verified =
     (if \<not> verified then VUnknown else if op_amount_in opp < amt_chain then VReal else VPhantom)"

definition replay_route ::
    "('w, 'e, 'x) verify_env \<Rightarrow> route_store \<Rightarrow> opportunity \<Rightarrow> ('w, 'e, route_report) verifying" where
  "replay_route env store opp =
     hbind (hpure (store_route store (op_route_id opp))) (\<lambda>route.
     hbind (replay_hops env (rt_hops route) (op_amount_in opp) (op_amount_in opp) True) (\<lambda>(m, c, verified).
       hpure (Inr \<lparr>rr_opp = opp, rr_model = m, rr_chain = c, rr_verdict = verdict_of opp c verified\<rparr>)))"

fun replay_all :: "('w, 'e, 'x) verify_env \<Rightarrow> route_store \<Rightarrow> opportunity list \<Rightarrow> ('w, 'e, route_report list) verifying" where
  "replay_all env store [] = hpure (Inr [])"
| "replay_all env store (opp # opps) =
     hbind (replay_route env store opp) (\<lambda>r.
     hbind (replay_all env store opps) (\<lambda>rs. hpure (Inr (r # rs))))"

definition trade_range :: "anchor_config list \<Rightarrow> route \<Rightarrow> (f64 \<times> f64) res" where
  "trade_range anchors r =
     rbind (from_option ExpectFailed (anchor_by_token anchors (rt_anchor r))) (\<lambda>a.
       let unit = f64_powi (f64_lit 10) (uint (an_decimals a))
       in Inr (fmul (an_min_trade a) unit, fmul (an_max_trade a) unit))"

definition profitable ::
    "('w, 'e, 'x) verify_env \<Rightarrow> anchor_config list \<Rightarrow> engine \<Rightarrow> chain_state \<Rightarrow> route \<Rightarrow> opportunity option res" where
  "profitable env anchors e s r =
     rbind (trade_range anchors r) (\<lambda>(min_in, max_in). optimize (ve_keccak env) (ve_lib env) e s r min_in max_in)"

definition best_opportunities ::
    "('w, 'e, 'x) verify_env \<Rightarrow> anchor_config list \<Rightarrow> route list \<Rightarrow> nat \<Rightarrow> 'w verify_world \<Rightarrow> opportunity list res" where
  "best_opportunities env anchors routes top_n w =
     rbind (rmap (profitable env anchors (vw_engine w) (vw_chain w)) routes) (\<lambda>found.
       Inr (take (max top_n 1) (sort_by (\<lambda>a b. op_gross_profit b < op_gross_profit a)
              (concat (map (\<lambda>x. case x of None \<Rightarrow> [] | Some o1 \<Rightarrow> [o1]) found)))))"

definition verify_quotes :: "('w, 'e, 'x) verify_env \<Rightarrow> app \<Rightarrow> nat \<Rightarrow> ('w, 'e, route_report list) verifying" where
  "verify_quotes env a top_n w =
     (case best_opportunities env (cf_anchors (app_cfg a)) (st_routes (app_store a)) top_n w of
        Inl p \<Rightarrow> (Inl p, w)
      | Inr opps \<Rightarrow>
          hbind (verify_pool_sample env 12) (\<lambda>_.
            if opps = [] then hpure (Inr []) else replay_all env (app_store a) opps) w)"

section \<open>The accuracy table\<close>

record accuracy =
  ac_pools :: "nat set"
  ac_quotes :: u64
  ac_max_diff :: f64
  ac_sum_diff :: f64
  ac_unverified :: u64

definition accuracy_new :: accuracy where
  "accuracy_new = \<lparr>ac_pools = {}, ac_quotes = 0, ac_max_diff = f64_lit 0, ac_sum_diff = f64_lit 0, ac_unverified = 0\<rparr>"

definition quote_sizes :: "pool_meta \<Rightarrow> u256 list" where
  "quote_sizes meta = (let unit = 10 ^ unat (pm_dec0 meta) in [unit div 1000, unit, unit * 50])"

text \<open>A dynamic-fee pool has its fee read anew first; a failed read keeps the old fee.\<close>

definition refresh_fee :: "('w, 'e) verify_node \<Rightarrow> nat \<Rightarrow> ('w, 'e, unit) verifying" where
  "refresh_fee node i =
     hbind (vmeta (of_nat i)) (\<lambda>meta. \<lambda>w.
       if of_nat i \<notin> eng_fee_dynamic (vw_engine w) then (eok (), w)
       else hbind (vcatch (vask (vn_fee node (pm_address meta)))) (\<lambda>f. \<lambda>w.
         case f of
           None \<Rightarrow> (eok (), w)
         | Some pips \<Rightarrow>
             let e = vw_engine w; j = idx_get (of_nat i);
                 meta' = set_fee_bps (ucast pips div 100) (set_fee_pips (ucast pips) (eng_metas e ! j))
             in (eok (), w\<lparr>vw_engine := e\<lparr>eng_metas := (eng_metas e)[j := meta']\<rparr>\<rparr>)) w)"

text \<open>Up to three tries at one block; the last one counts even if the tip moved under it.\<close>

fun quote_tries ::
    "('w, 'e, 'x) verify_env \<Rightarrow> nat \<Rightarrow> hop \<Rightarrow> u256 \<Rightarrow> u256 \<times> u256 option \<Rightarrow> ('w, 'e, u256 \<times> u256 option) verifying" where
  "quote_tries env 0 h amount out = hpure (Inr out)"
| "quote_tries env (Suc n) h amount out =
     hbind (vsync env (hop_pool h)) (\<lambda>t0.
     hbind (vmeta (hop_pool h)) (\<lambda>meta.
     hbind (vquote env meta amount True) (\<lambda>model.
     hbind (vcatch (onchain_quote_hop (ve_node env) h amount)) (\<lambda>chain.
     hbind (vtip env) (\<lambda>t1.
       if t1 = t0 then hpure (Inr (model, unwrap_or None chain))
       else quote_tries env n h amount (model, unwrap_or None chain))))))"

definition add_quote :: "nat \<Rightarrow> u256 \<times> u256 option \<Rightarrow> accuracy \<Rightarrow> accuracy" where
  "add_quote i out acc =
     (let acc1 = acc\<lparr>ac_pools := insert i (ac_pools acc)\<rparr>
      in case out of
           (model, Some c) \<Rightarrow>
             let d = fabs (pct_diff model c)
             in acc1\<lparr>ac_quotes := ac_quotes acc + 1, ac_sum_diff := fadd (ac_sum_diff acc) d,
                     ac_max_diff := fmax (ac_max_diff acc) d\<rparr>
         | (model, None) \<Rightarrow> acc1\<lparr>ac_unverified := ac_unverified acc + 1\<rparr>)"

type_synonym accuracy_table = "dex_tag \<Rightarrow> accuracy option"

definition add_row :: "dex_tag \<Rightarrow> nat \<Rightarrow> u256 \<times> u256 option \<Rightarrow> accuracy_table \<Rightarrow> accuracy_table" where
  "add_row dex i out table = table(dex \<mapsto> add_quote i out (unwrap_or accuracy_new (table dex)))"

fun size_loop ::
    "('w, 'e, 'x) verify_env \<Rightarrow> nat \<Rightarrow> pool_meta \<Rightarrow> u256 list \<Rightarrow> accuracy_table \<Rightarrow> ('w, 'e, accuracy_table) verifying" where
  "size_loop env i meta [] table = hpure (Inr table)"
| "size_loop env i meta (amount # sizes) table =
     (if amount = 0 then size_loop env i meta sizes table
      else hbind (quote_tries env 3 \<lparr>hop_pool = of_nat i, hop_zero_for_one = True, hop_token_in = pm_token0 meta\<rparr> amount (0, None)) (\<lambda>out.
             size_loop env i meta sizes (add_row (pm_dex meta) i out table)))"

fun math_loop :: "('w, 'e, 'x) verify_env \<Rightarrow> nat list \<Rightarrow> accuracy_table \<Rightarrow> ('w, 'e, accuracy_table) verifying" where
  "math_loop env [] table = hpure (Inr table)"
| "math_loop env (i # is) table =
     hbind (vmeta (of_nat i)) (\<lambda>meta.
     hbind (refresh_fee (ve_node env) i) (\<lambda>_.
     hbind (size_loop env i meta (quote_sizes meta) table) (\<lambda>table1. math_loop env is table1)))"

definition verify_math :: "('w, 'e, 'x) verify_env \<Rightarrow> ('w, 'e, accuracy_table) verifying" where
  "verify_math env w = math_loop env [0..<eng_len (vw_engine w)] Map.empty w"

definition average_diff :: "accuracy \<Rightarrow> f64" where
  "average_diff acc = (if 0 < ac_quotes acc then fdiv (ac_sum_diff acc) (f64_of_u64 (ac_quotes acc)) else f64_lit 0)"

section \<open>The scan benchmark\<close>

record scan_counts =
  sc_passed_serial :: nat
  sc_passed :: "u32 list"
  sc_opps_serial :: nat
  sc_opps_parallel :: nat
  sc_opps_realistic :: nat

definition scan_gate :: "config \<Rightarrow> f64" where
  "scan_gate cfg = fadd (f64_lit 1) (fdiv (rc_spot_gate_bps (cf_routing cfg)) (f64_lit 10000))"

definition spot_passes :: "app \<Rightarrow> route \<Rightarrow> bool res" where
  "spot_passes a r = rbind (spot_product (app_engine a) (app_state a) r) (\<lambda>p. Inr (flt (scan_gate (app_cfg a)) p))"

definition sizes_up :: "('w, 'e, 'x) verify_env \<Rightarrow> app \<Rightarrow> route \<Rightarrow> bool res" where
  "sizes_up env a r =
     rbind (profitable env (cf_anchors (app_cfg a)) (app_engine a) (app_state a) r) (\<lambda>o1. Inr (o1 \<noteq> None))"

definition rfilter :: "('a \<Rightarrow> bool res) \<Rightarrow> 'a list \<Rightarrow> 'a list res" where
  "rfilter f xs = rbind (rmap (\<lambda>x. rbind (f x) (\<lambda>b. Inr (x, b))) xs) (\<lambda>ys. Inr (map fst (filter snd ys)))"

definition bench_route_scan :: "('w, 'e, 'x) verify_env \<Rightarrow> app \<Rightarrow> scan_counts res" where
  "bench_route_scan env a =
     (let routes = st_routes (app_store a)
      in rbind (rfilter (spot_passes a) routes) (\<lambda>serial.
         rbind (rfilter (spot_passes a) routes) (\<lambda>passed.
         rbind (rfilter (sizes_up env a) routes) (\<lambda>all_serial.
         rbind (rfilter (sizes_up env a) routes) (\<lambda>all_parallel.
         rbind (rfilter (\<lambda>rid. rbind (store_route (app_store a) rid) (sizes_up env a)) (map rt_id passed)) (\<lambda>realistic.
           Inr \<lparr>sc_passed_serial = length serial, sc_passed = map rt_id passed, sc_opps_serial = length all_serial,
                sc_opps_parallel = length all_parallel, sc_opps_realistic = length realistic\<rparr>))))))"

section \<open>The benchmark and the evaluator\<close>

lemma rmap_parts: "rmap f xs = Inr ys \<Longrightarrow> ys = map (\<lambda>x. projr (f x)) xs \<and> (\<forall>x \<in> set xs. \<exists>y. f x = Inr y)"
  by (induction xs arbitrary: ys) (auto simp: rbind_eq_Inr)

lemma length_filter_mono: "(\<And>x. x \<in> set xs \<Longrightarrow> P x \<Longrightarrow> Q x) \<Longrightarrow> length (filter P xs) \<le> length (filter Q xs)"
  by (induction xs) (auto intro: le_SucI)

lemma rfilter_Inr: "rfilter f xs = Inr ys \<longleftrightarrow> (\<forall>x \<in> set xs. \<exists>b. f x = Inr b) \<and> ys = filter (\<lambda>x. f x = Inr True) xs"
proof
  assume "rfilter f xs = Inr ys"
  then obtain zs where z: "rmap (\<lambda>x. rbind (f x) (\<lambda>b. Inr (x, b))) xs = Inr zs" "ys = map fst (filter snd zs)"
    by (auto simp: rfilter_def rbind_eq_Inr)
  have ok: "\<forall>x \<in> set xs. \<exists>b. f x = Inr b" using rmap_parts [OF z(1)] by (auto simp: rbind_eq_Inr)
  have "zs = map (\<lambda>x. (x, f x = Inr True)) xs"
    using rmap_parts [OF z(1)] ok by (auto intro!: map_cong) 
  then show "(\<forall>x \<in> set xs. \<exists>b. f x = Inr b) \<and> ys = filter (\<lambda>x. f x = Inr True) xs"
    using z(2) ok by (simp add: filter_map comp_def)
next
  assume r: "(\<forall>x \<in> set xs. \<exists>b. f x = Inr b) \<and> ys = filter (\<lambda>x. f x = Inr True) xs"
  then have "rmap (\<lambda>x. rbind (f x) (\<lambda>b. Inr (x, b))) xs = Inr (map (\<lambda>x. (x, f x = Inr True)) xs)"
    by (intro rmap_pure) auto
  then show "rfilter f xs = Inr ys" using r by (simp add: rfilter_def filter_map comp_def)
qed

lemma tier2_one_sizes_up:
  assumes "tier2_one (app_evaluator keccak lib parse a) batch rid = Inr (Some c)" "ve_keccak env = keccak" "ve_lib env = lib"
  shows "rbind (store_route (app_store a) rid) (sizes_up env a) = Inr True"
  using assms by (auto simp: tier2_one_def rbind_eq_Inr app_evaluator_def sizes_up_def profitable_def trade_range_def Let_def split: option.splits)

text \<open>The first gate of the evaluator on all routes is the first gate of the benchmark.\<close>

lemma tier1_all_routes:
  assumes num: "numbered (st_routes (app_store a)) n" and st: "app_store a = store_build (st_routes (app_store a)) n"
    and ok: "\<forall>r \<in> set (st_routes (app_store a)). \<exists>b. spot_passes a r = Inr b"
  shows "\<exists>rated. tier1 (app_evaluator keccak lib parse a) (map rt_id (st_routes (app_store a))) = Inr rated \<and>
    map fst rated = map rt_id (filter (\<lambda>r. spot_passes a r = Inr True) (st_routes (app_store a)))"
proof -
  let ?rs = "st_routes (app_store a)" and ?ev = "app_evaluator keccak lib parse a"
  have "\<forall>r \<in> set ?rs. \<exists>q. spot_product (app_engine a) (app_state a) r = Inr q"
    using ok by (auto simp: spot_passes_def rbind_eq_Inr)
  then obtain P where P: "\<forall>r \<in> set ?rs. spot_product (app_engine a) (app_state a) r = Inr (P r)" by metis
  have look: "store_route (app_store a) (rt_id r) = Inr r" if r: "r \<in> set ?rs" for r
  proof -
    obtain i where i: "i < length ?rs" "r = ?rs ! i" using r by (auto simp: in_set_conv_nth)
    then have "store_route (store_build ?rs n) (rt_id r) = Inr r"
      using ri.route_at_build [OF num i(1)] num by (simp add: numbered_def)
    then show ?thesis by (subst st)
  qed
  have "rmap (\<lambda>rid. rbind (store_route (e_store ?ev) rid) (\<lambda>r.
        rbind (spot_product (e_engine ?ev) (e_state ?ev) r) (\<lambda>q. Inr (rid, q)))) (map rt_id ?rs) =
      Inr (map (\<lambda>(rid, q). (rid, q)) (map (\<lambda>r. (rt_id r, P r)) ?rs))"
  proof -
    have "rmap (\<lambda>rid. rbind (store_route (app_store a) rid) (\<lambda>r. rbind (spot_product (app_engine a) (app_state a) r) (\<lambda>q. Inr (rid, q)))) (map rt_id rs) =
        Inr (map (\<lambda>r. (rt_id r, P r)) rs)" if "set rs \<subseteq> set ?rs" for rs
      using that by (induction rs) (auto simp: look P)
    then show ?thesis by (simp add: app_evaluator_def comp_def)
  qed
  moreover have "spot_gate ?ev = scan_gate (app_cfg a)" by (simp add: spot_gate_def scan_gate_def app_evaluator_def)
  ultimately have t: "tier1 ?ev (map rt_id ?rs) = Inr (filter (\<lambda>(_, q). flt (scan_gate (app_cfg a)) q) (map (\<lambda>r. (rt_id r, P r)) ?rs))"
    by (simp add: tier1_def)
  have "filter (\<lambda>r. flt (scan_gate (app_cfg a)) (P r)) ?rs = filter (\<lambda>r. spot_passes a r = Inr True) ?rs"
    using P by (intro filter_cong) (auto simp: spot_passes_def)
  then show ?thesis unfolding t by (simp add: filter_map comp_def)
qed

text \<open>C17. The scan benchmark counts what the evaluator would do if every route were a candidate: its gated routes are
  the ones the evaluator's first gate passes on all route ids, serial and parallel counts agree, and
  whatever the batch, the evaluator's second stage finds on them at most the number the benchmark
  reports (it drops more, for gas).\<close>
theorem bench_mirrors_evaluator:
  assumes "bench_route_scan env a = Inr counts" "numbered (st_routes (app_store a)) n" "app_store a = store_build (st_routes (app_store a)) n"
  shows "\<exists>rated. tier1 (app_evaluator (ve_keccak env) (ve_lib env) parse a) (map rt_id (st_routes (app_store a))) = Inr rated \<and>
    sc_passed counts = map fst rated \<and> sc_passed_serial counts = length rated \<and> sc_opps_serial counts = sc_opps_parallel counts \<and>
    (\<forall>batch found. tier2 (app_evaluator (ve_keccak env) (ve_lib env) parse a) batch rated = Inr found \<longrightarrow>
       length found \<le> sc_opps_realistic counts)"
proof -
  let ?rs = "st_routes (app_store a)" and ?ev = "app_evaluator (ve_keccak env) (ve_lib env) parse a"
  let ?look = "\<lambda>rid. rbind (store_route (app_store a) rid) (sizes_up env a)"
  let ?passed = "filter (\<lambda>r. spot_passes a r = Inr True) ?rs"
  obtain counted where ok: "\<forall>r \<in> set ?rs. \<exists>b. spot_passes a r = Inr b"
    "counts = \<lparr>sc_passed_serial = length ?passed, sc_passed = map rt_id ?passed, sc_opps_serial = counted, sc_opps_parallel = counted,
       sc_opps_realistic = length (filter (\<lambda>rid. ?look rid = Inr True) (map rt_id ?passed))\<rparr>"
    using assms(1) unfolding bench_route_scan_def Let_def rbind_eq_Inr rfilter_Inr by auto
  obtain rated where rated: "tier1 ?ev (map rt_id ?rs) = Inr rated" "map fst rated = map rt_id ?passed"
    using tier1_all_routes [OF assms(2,3) ok(1)] by blast
  have "length found \<le> sc_opps_realistic counts" if t2: "tier2 ?ev batch rated = Inr found" for batch found
  proof -
    let ?g = "\<lambda>rid. tier2_one ?ev batch rid"
    obtain outs where outs: "rmap (\<lambda>(rid, _). ?g rid) rated = Inr outs" "found = concat (map (\<lambda>x. case x of None \<Rightarrow> [] | Some c \<Rightarrow> [c]) outs)"
      using t2 by (auto simp: tier2_def rbind_eq_Inr)
    have "length found = length (filter (\<lambda>x. x \<noteq> None) outs)"
      unfolding outs(2) by (induction outs) (auto split: option.split)
    also have "\<dots> = length (filter (\<lambda>x. projr (?g (fst x)) \<noteq> None) rated)"
      using rmap_parts [OF outs(1)] by (simp add: filter_map comp_def case_prod_beta)
    also have "\<dots> \<le> length (filter (\<lambda>x. ?look (fst x) = Inr True) rated)"
      using rmap_parts [OF outs(1)] tier2_one_sizes_up [OF _ refl refl] by (intro length_filter_mono) fastforce
    also have "\<dots> = sc_opps_realistic counts"
      unfolding ok(2) rated(2) [symmetric] by (simp add: filter_map comp_def)
    finally show ?thesis .
  qed
  moreover have "length rated = length ?passed" using arg_cong [OF rated(2), of length] by simp
  ultimately show ?thesis using rated ok(2) by auto
qed

definition arb_app :: app where
  "arb_app = \<lparr>app_cfg = sample_config\<lparr>cf_anchors := [arb_anchor], cf_routing := default_routing_config\<lparr>rc_spot_gate_bps := f64_lit 0\<rparr>\<rparr>,
     app_engine = arb_engine, app_state = arb_state, app_store = store_build [arb_route] 2, app_gas = free_gas,
     app_stats = stats_new, app_prices = [1 \<mapsto> f64_lit 1]\<rparr>"

lemma arb_store: "st_routes (store_build [arb_route] 2) = [arb_route]" "store_route (store_build [arb_route] 2) 0 = Inr arb_route"
  by (simp_all add: store_build_def store_route_def)

lemma arb_app_fields:
  "app_store arb_app = store_build [arb_route] 2" "app_engine arb_app = arb_engine" "app_state arb_app = arb_state"
  "cf_anchors (app_cfg arb_app) = [arb_anchor]"
  by (simp_all add: arb_app_def)

lemma arb_profitable: "profitable quiet_env [arb_anchor] arb_engine arb_state arb_route = Inr (Some arb_opp)"
proof -
  have "fmul (an_min_trade arb_anchor) (f64_powi (f64_lit 10) (uint (an_decimals arb_anchor))) = f64_lit 1"
    "fmul (an_max_trade arb_anchor) (f64_powi (f64_lit 10) (uint (an_decimals arb_anchor))) = f64_lit 1000" by code_simp+
  moreover have "anchor_by_token [arb_anchor] (rt_anchor arb_route) = Some arb_anchor"
    by (simp add: anchor_by_token_def arb_anchor_def arb_route_def)
  ultimately have "trade_range [arb_anchor] arb_route = Inr (f64_lit 1, f64_lit 1000)"
    by (simp add: trade_range_def Let_def)
  then show ?thesis by (simp add: profitable_def quiet_env_def arb_optimize)
qed

lemma arb_bench:
  "bench_route_scan quiet_env arb_app = Inr \<lparr>sc_passed_serial = 1, sc_passed = [0], sc_opps_serial = 1, sc_opps_parallel = 1, sc_opps_realistic = 1\<rparr>"
proof -
  have "flt (fadd (f64_lit 1) (fdiv (f64_lit 0) (f64_lit 10000))) (f64_lit 4)" by code_simp
  then have "spot_passes arb_app arb_route = Inr True"
    by (simp add: spot_passes_def arb_app_fields arb_spot scan_gate_def arb_app_def)
  moreover have "sizes_up quiet_env arb_app arb_route = Inr True"
    by (simp add: sizes_up_def arb_app_fields arb_profitable)
  moreover have "rt_id arb_route = 0" by (simp add: arb_route_def)
  ultimately show ?thesis by (simp add: bench_route_scan_def arb_app_fields arb_store rfilter_def)
qed

theorem bench_mirrors_evaluator_witness:
  "\<exists>rated. tier1 (app_evaluator sample_hash sample_lib (\<lambda>_. Some 5) arb_app) [0] = Inr rated \<and> map fst rated = [0]"
proof -
  have "app_store arb_app = store_build (st_routes (app_store arb_app)) 2" "numbered (st_routes (app_store arb_app)) 2"
    using arb_numbered by (simp_all add: arb_app_fields arb_store)
  from bench_mirrors_evaluator [OF arb_bench this(2,1), where parse = "\<lambda>_. Some 5"]
  show ?thesis by (auto simp: arb_app_fields arb_store quiet_env_def) (auto simp: arb_route_def)
qed

section \<open>What a verdict says\<close>

text \<open>Steps that leave the registry alone.\<close>

definition keeps_engine :: "('w, 'e, 'a) verifying \<Rightarrow> bool" where
  "keeps_engine m \<longleftrightarrow> (\<forall>w. vw_engine (snd (m w)) = vw_engine w)"

named_theorems engine_kept \<open>steps that leave the registry alone\<close>

lemma keeps_engine_hbind [engine_kept]: "keeps_engine m \<Longrightarrow> (\<And>a. keeps_engine (f a)) \<Longrightarrow> keeps_engine (hbind m f)"
  by (simp add: keeps_engine_def hbind_def split: prod.split sum.split) (metis snd_conv)

lemma keeps_engine_hpure [engine_kept]: "keeps_engine (hpure r)"
  by (simp add: keeps_engine_def hpure_def)

lemma keeps_engine_vask [engine_kept]: "keeps_engine (vask f)"
  by (simp add: keeps_engine_def vask_run)

lemma keeps_engine_vcatch [engine_kept]: "keeps_engine m \<Longrightarrow> keeps_engine (vcatch m)"
  by (simp add: keeps_engine_def vcatch_def split: prod.split sum.split) (metis snd_conv)

lemma keeps_engine_reads [engine_kept]:
  "keeps_engine (vmeta i)" "keeps_engine (vquote env meta x d)" "keeps_engine (vadvance t)" "keeps_engine (vprefetch env slots)"
  by (simp_all add: keeps_engine_def vmeta_def vquote_def vadvance_def vprefetch_def split: prod.split)

lemma keeps_engine_vhydrate [engine_kept]: "keeps_engine (vhydrate env p sp)"
  by (simp add: keeps_engine_def vhydrate_def split: prod.split sum.split)

lemma keeps_engine_sync [engine_kept]: "keeps_engine (vsync env i)"
proof -
  have "keeps_engine (sync_pool env plan sp)" for plan sp
    unfolding sync_pool_def vtip_def by (auto intro!: engine_kept split: option.split)
  then have "keeps_engine (\<lambda>w. sync_pool env (cs_plan (vw_chain w) i) (pm_tick_spacing meta) w)" for meta
    by (simp add: keeps_engine_def)
  then show ?thesis unfolding vsync_def by (auto intro: engine_kept)
qed

lemma keeps_engine_onchain [engine_kept]: "keeps_engine (onchain_quote_hop node h x)"
  unfolding onchain_quote_hop_def by (auto intro!: engine_kept simp: Let_def split: option.split prod.split)

lemma hbind_okE:
  assumes "hbind m f w = (Inr (Inr b), w')"
  obtains a w1 where "m w = (Inr (Inr a), w1)" "f a w1 = (Inr (Inr b), w')"
  using assms by (auto simp: hbind_def split: prod.splits sum.splits)

text \<open>The on-chain quotes of the hops, each fed the output of the one before; nothing once a hop has no quote.\<close>

fun chained :: "(hop \<Rightarrow> u256 \<Rightarrow> ('e, u256 option) eres) \<Rightarrow> hop list \<Rightarrow> u256 \<Rightarrow> ('e, u256 option) eres" where
  "chained q [] x = eok (Some x)"
| "chained q (h # hs) x = ebind (q h x) (\<lambda>y. case y of None \<Rightarrow> eok None | Some y \<Rightarrow> chained q hs y)"

lemma replay_hops_chained:
  fixes env :: "('w, 'e, 'x) verify_env"
  assumes "replay_hops env hs m x verified w = (Inr (Inr (m', c, v)), w')"
    and "\<forall>h \<in> set hs. \<forall>x w. vw_engine w = e \<longrightarrow> fst (onchain_quote_hop (ve_node env) h x w) = q h x" "vw_engine w = e"
  shows "(verified \<longrightarrow> chained q hs x = eok (if v then Some c else None)) \<and> (\<not> verified \<longrightarrow> \<not> v)"
  using assms
proof (induction hs arbitrary: m x verified w)
  case Nil
  then show ?case by (auto simp: hpure_def eok_def)
next
  case (Cons h hs)
  obtain meta w1 t w2 mo w3 co w4 where run: "(vmeta (hop_pool h) :: ('w, 'e, pool_meta) verifying) w = (Inr (Inr meta), w1)" "vsync env (hop_pool h) w1 = (Inr (Inr t), w2)"
    "vquote env meta m (hop_zero_for_one h) w2 = (Inr (Inr mo), w3)" "onchain_quote_hop (ve_node env) h x w3 = (Inr (Inr co), w4)"
    "(case co of Some c \<Rightarrow> replay_hops env hs mo c verified | None \<Rightarrow> replay_hops env hs mo mo False) w4 = (Inr (Inr (m', c, v)), w')"
    using Cons.prems(1) unfolding replay_hops.simps by (elim hbind_okE) (rule that; assumption)
  have e: "vw_engine w3 = e" "vw_engine w4 = e"
    using keeps_engine_sync [of env "hop_pool h", unfolded keeps_engine_def, rule_format, of w1] run(1-4) Cons.prems(3)
      keeps_engine_onchain [of "ve_node env" h x, unfolded keeps_engine_def, rule_format, of w3]
    by (simp_all add: vmeta_def vquote_def)
  then have q: "q h x = eok co" using Cons.prems(2) run(4) by (metis eok_def fst_conv list.set_intros(1))
  have q_hs: "\<forall>h \<in> set hs. \<forall>x w. vw_engine w = e \<longrightarrow> fst (onchain_quote_hop (ve_node env) h x w) = q h x" using Cons.prems(2) by simp
  show ?case
  proof (cases co)
    case None
    then have "replay_hops env hs mo mo False w4 = (Inr (Inr (m', c, v)), w')" using run(5) by simp
    from Cons.IH [OF this q_hs e(2)] show ?thesis by (simp add: q None)
  next
    case (Some y)
    then have "replay_hops env hs mo y verified w4 = (Inr (Inr (m', c, v)), w')" using run(5) by simp
    from Cons.IH [OF this q_hs e(2)] show ?thesis by (simp add: q Some)
  qed
qed

text \<open>C16. The verdict on a route is the chain's, not the model's: over a node whose quotes do not change meanwhile, a
  route is reported real exactly when every hop has an on-chain quote and these, chained from the
  opportunity's input, return more than it, phantom when they return no more, and unknown exactly
  when a hop has none; the reported on-chain output is the chained one.\<close>
theorem verdict_exact:
  assumes "replay_route env store opp w = (Inr (Inr rep), w')" "store_route store (op_route_id opp) = Inr route"
    and "\<forall>h \<in> set (rt_hops route). \<forall>x w1. vw_engine w1 = vw_engine w \<longrightarrow> fst (onchain_quote_hop (ve_node env) h x w1) = q h x"
  shows "(case rr_verdict rep of
      VUnknown \<Rightarrow> chained q (rt_hops route) (op_amount_in opp) = eok None
    | VReal \<Rightarrow> chained q (rt_hops route) (op_amount_in opp) = eok (Some (rr_chain rep)) \<and> op_amount_in opp < rr_chain rep
    | VPhantom \<Rightarrow> chained q (rt_hops route) (op_amount_in opp) = eok (Some (rr_chain rep)) \<and> rr_chain rep \<le> op_amount_in opp)"
proof -
  obtain m c v w1 where run: "replay_hops env (rt_hops route) (op_amount_in opp) (op_amount_in opp) True w = (Inr (Inr (m, c, v)), w1)"
    "rep = \<lparr>rr_opp = opp, rr_model = m, rr_chain = c, rr_verdict = verdict_of opp c v\<rparr>"
    using assms(1,2) by (auto simp: replay_route_def hpure_def eok_def elim!: hbind_okE)
  from replay_hops_chained [OF run(1) assms(3) refl]
  show ?thesis by (auto simp: run(2) verdict_of_def)
qed

text \<open>A route that looked profitable on the state it was found in, over a node where the price difference is gone.\<close>

definition quiet_quote :: "hop \<Rightarrow> u256 \<Rightarrow> (unit, u256 option) eres" where
  "quiet_quote h x =
     rbind (v2_get_amount_out x (if hop_zero_for_one h then 1048576 else 4194304) (if hop_zero_for_one h then 4194304 else 1048576) 0)
       (\<lambda>y. eok (Some y))"

lemma quiet_meta: "i < 2 \<Longrightarrow> eng_meta arb_engine (of_nat i) = Inr ((sample_meta i (10 + of_nat i))\<lparr>pm_fee_bps := 0\<rparr>)"
  using arb_plans by (auto simp: less_2_cases_iff)

lemma quiet_onchain:
  assumes "vw_engine w = arb_engine" "i < 2" "hop_pool h = of_nat i"
  shows "fst (onchain_quote_hop quiet_node h x w) = quiet_quote h x \<and> snd (onchain_quote_hop quiet_node h x w) = w"
proof -
  have dex: "pm_dex ((sample_meta i a)\<lparr>pm_fee_bps := 0\<rparr>) = UniV2Fork" for a by (simp add: sample_meta_def)
  have bo: "with_429_backoff quiet_node (vn_reserves_v2 quiet_node a) u = (Inr (1048576, 4194304), u)" for a u
    by (simp add: with_429_backoff_def quiet_node_def eval_nat_numeral)
  show ?thesis
    using assms quiet_meta [OF assms(2)]
    by (cases "v2_get_amount_out x (if hop_zero_for_one h then 1048576 else 4194304) (if hop_zero_for_one h then 4194304 else 1048576) 0")
      (auto simp: onchain_quote_hop_def hbind_def vmeta_def eok_def dex is_aero_def vask_def elib_def bo hpure_def quiet_quote_def Let_def)
qed

lemma quiet_sync:
  assumes "vw_engine w = arb_engine" "cs_plans (vw_chain w) = cs_plans arb_state" "i < 2"
  shows "\<exists>w'. vsync quiet_env (of_nat i) w = (Inr (Inr 5), w') \<and> keeps w w' \<and>
    decode_v2_packed (cs_read (vw_chain w') (10 + of_nat i) 8) = (if i = 0 then (1048576, 4194304) else (0, 0))"
proof -
  have plan: "cs_plan (vw_chain w) (of_nat i) = Some (PV2Packed (10 + of_nat i) 8)"
    using quiet_plans [OF assms(3)] assms(3) cs_plan_cong [OF assms(2)] by (auto simp: less_2_cases_iff)
  let ?k = "(10 + of_nat i :: address, 8 :: u256)"
  have tip: "fst (vn_tip (ve_node quiet_env) u) = Inr 5" and store: "fetched (fst (vn_storage (ve_node quiet_env) u)) k = Some (quiet_store k)" for u k
    using quiet_at_rest unfolding at_rest_def by blast+
  obtain w' where s: "sync_pool quiet_env (Some (PV2Packed (10 + of_nat i) 8)) 1 w = (Inr (Inr 5), w')" "keeps w w'"
    "cs_memo (vw_chain w') ?k = Some (quiet_store ?k)"
    using sync_pool_run [of quiet_env "Some (PV2Packed (10 + of_nat i) 8)" 1 w] unfolding tip store by (auto simp: plan_slots_def)
  have "vsync quiet_env (of_nat i) w = (Inr (Inr 5), w')"
    using s(1) assms(1) quiet_meta [OF assms(3)] by (simp add: vsync_def hbind_def vmeta_def eok_def plan sample_meta_def)
  moreover have "decode_v2_packed (cs_read (vw_chain w') (10 + of_nat i) 8) = (if i = 0 then (1048576, 4194304) else (0, 0))"
    using s(3) assms(3) by (auto simp: cs_read_def quiet_store_def decode_v2_pack less_2_cases_iff decode_v2_packed_def [of 0])
  ultimately show ?thesis using s(2) by blast
qed

theorem verdict_exact_witness:
  "\<exists>rep w'. replay_route quiet_env (store_build [arb_route] 2) arb_opp quiet_world = (Inr (Inr rep), w') \<and> rr_verdict rep = VPhantom"
proof -
  let ?h0 = "\<lparr>hop_pool = 0, hop_zero_for_one = True, hop_token_in = 1\<rparr>" and ?h1 = "\<lparr>hop_pool = 1, hop_zero_for_one = False, hop_token_in = 2\<rparr>"
  let ?m0 = "(sample_meta 0 10)\<lparr>pm_fee_bps := 0\<rparr>" and ?m1 = "(sample_meta 1 11)\<lparr>pm_fee_bps := 0\<rparr>"
  have node: "ve_node quiet_env = quiet_node" by (simp add: quiet_env_def)
  have steps: "quiet_quote ?h0 1000 = eok (Some 3996)" "quiet_quote ?h1 3996 = eok (Some 998)"
    by (simp_all add: quiet_quote_def arb_steps) code_simp
  have w0: "vw_engine quiet_world = arb_engine" "cs_plans (vw_chain quiet_world) = cs_plans arb_state" by (simp_all add: quiet_world_def)
  obtain w1 where s1: "vsync quiet_env 0 quiet_world = (Inr (Inr 5), w1)" "keeps quiet_world w1"
    "decode_v2_packed (cs_read (vw_chain w1) 10 8) = (1048576, 4194304)"
    using quiet_sync [OF w0, of 0] by auto
  have w1: "vw_engine w1 = arb_engine" "cs_plans (vw_chain w1) = cs_plans arb_state" using s1(2) w0 by (simp_all add: keeps_def)
  obtain w2 where s2: "vsync quiet_env 1 w1 = (Inr (Inr 5), w2)" "keeps w1 w2" "decode_v2_packed (cs_read (vw_chain w2) 11 8) = (0, 0)"
    using quiet_sync [OF w1, of 1] by auto
  have w2: "vw_engine w2 = arb_engine" "cs_plans (vw_chain w2) = cs_plans arb_state" using s2(2) w1 by (simp_all add: keeps_def)
  have q1: "vquote quiet_env ?m0 1000 True w1 = (Inr (Inr 3996), w1)"
    using cs_plan_cong [OF w1(2)] by (simp add: vquote_def quote_def s1(3) arb_plans sample_meta_def arb_steps eok_def)
  have q2: "vquote quiet_env ?m1 3996 False w2 = (Inr (Inr 0), w2)"
    using cs_plan_cong [OF w2(2)] by (simp add: vquote_def quote_def s2(3) arb_plans sample_meta_def eok_def)
  have c1: "onchain_quote_hop quiet_node ?h0 1000 w1 = (Inr (Inr (Some 3996)), w1)"
    using quiet_onchain [OF w1(1), of 0 ?h0 1000] steps(1) by (simp add: prod_eq_iff eok_def)
  have c2: "onchain_quote_hop quiet_node ?h1 3996 w2 = (Inr (Inr (Some 998)), w2)"
    using quiet_onchain [OF w2(1), of 1 ?h1 3996] steps(2) by (simp add: prod_eq_iff eok_def)
  have "replay_hops quiet_env [?h0, ?h1] 1000 1000 True quiet_world = (Inr (Inr (0, 998, True)), w2)"
    by (simp add: hbind_def vmeta_def w0 w1 arb_plans eok_def s1(1) s2(1) q1 q2 [simplified] node c1 c2 hpure_def)
  moreover have "rt_hops arb_route = [?h0, ?h1]" by (simp add: arb_route_def)
  ultimately obtain rep where run: "replay_route quiet_env (store_build [arb_route] 2) arb_opp quiet_world = (Inr (Inr rep), w2)"
    by (simp add: replay_route_def hbind_def hpure_def eok_def arb_opp_def arb_store del: replay_hops.simps)
  have q: "\<forall>h \<in> set (rt_hops arb_route). \<forall>x w. vw_engine w = vw_engine quiet_world \<longrightarrow> fst (onchain_quote_hop (ve_node quiet_env) h x w) = quiet_quote h x"
    using quiet_onchain [of _ 0 ?h0] quiet_onchain [of _ 1 ?h1] by (simp add: arb_route_def w0 node)
  have "chained quiet_quote (rt_hops arb_route) (op_amount_in arb_opp) = eok (Some 998)"
    by (simp add: arb_route_def arb_opp_def steps)
  then have "rr_verdict rep = VPhantom"
    using verdict_exact [OF run _ q] arb_store by (auto simp: arb_opp_def eok_def split: verdict.splits)
  then show ?thesis using run by blast
qed

section \<open>What the accuracy table counts\<close>

lemma keeps_engine_tries [engine_kept]: "keeps_engine (quote_tries env n h amount out)"
proof (induction n arbitrary: out)
  case 0
  then show ?case by (simp add: engine_kept)
next
  case (Suc n)
  have "keeps_engine (vtip env)" unfolding vtip_def by (intro engine_kept)
  then show ?case using Suc by (auto intro!: engine_kept)
qed

text \<open>What a row says of the number of pools and quotes behind it.\<close>

definition tally :: "accuracy_table \<Rightarrow> dex_tag \<Rightarrow> nat set \<times> u64" where
  "tally table dex = (case table dex of None \<Rightarrow> ({}, 0) | Some acc \<Rightarrow> (ac_pools acc, ac_quotes acc + ac_unverified acc))"

lemma tally_add_row:
  "tally (add_row dex i out table) d = (if d = dex then (insert i (fst (tally table dex)), snd (tally table dex) + 1) else tally table d)"
  by (cases out; cases "snd out"; cases "table dex") (auto simp: tally_def add_row_def add_quote_def unwrap_or_def accuracy_new_def Let_def)

lemma add_row_dom: "dom (add_row dex i out table) = insert dex (dom table)"
  by (simp add: add_row_def)

definition nonzero_sizes :: "u256 list \<Rightarrow> nat" where
  "nonzero_sizes xs = length (filter (\<lambda>x. x \<noteq> 0) xs)"

lemma size_loop_tally:
  fixes env :: "('w, 'e, 'x) verify_env"
  assumes "size_loop env i meta sizes table w = (Inr (Inr table'), w')"
  shows "vw_engine w' = vw_engine w \<and> dom table' = (if nonzero_sizes sizes = 0 then dom table else insert (pm_dex meta) (dom table)) \<and>
    (\<forall>d. tally table' d = (if d = pm_dex meta \<and> nonzero_sizes sizes \<noteq> 0
       then (insert i (fst (tally table d)), snd (tally table d) + of_nat (nonzero_sizes sizes)) else tally table d))"
  using assms
proof (induction sizes arbitrary: table w)
  case Nil
  then show ?case by (simp add: nonzero_sizes_def hpure_def eok_def)
next
  case (Cons x xs)
  show ?case
  proof (cases "x = 0")
    case True
    then show ?thesis using Cons by (simp add: nonzero_sizes_def)
  next
    case False
    let ?h = "\<lparr>hop_pool = of_nat i, hop_zero_for_one = True, hop_token_in = pm_token0 meta\<rparr>"
    obtain out w1 where run: "quote_tries env 3 ?h x (0, None) w = (Inr (Inr out), w1)"
      "size_loop env i meta xs (add_row (pm_dex meta) i out table) w1 = (Inr (Inr table'), w')"
      using Cons.prems False unfolding size_loop.simps if_not_P [OF False] by (elim hbind_okE) (rule that; assumption)
    have "vw_engine w1 = vw_engine w"
      using keeps_engine_tries [of env 3 ?h x "(0, None)", unfolded keeps_engine_def, rule_format, of w] run(1) by simp
    moreover have "nonzero_sizes (x # xs) = Suc (nonzero_sizes xs)" using False by (simp add: nonzero_sizes_def)
    ultimately show ?thesis using Cons.IH [OF run(2)] by (auto simp: tally_add_row add_row_dom)
  qed
qed

text \<open>A refreshed fee leaves what the table is about as it was.\<close>

definition same_kinds :: "engine \<Rightarrow> engine \<Rightarrow> bool" where
  "same_kinds e e' \<longleftrightarrow> map (\<lambda>m. (pm_dex m, pm_dec0 m)) (eng_metas e') = map (\<lambda>m. (pm_dex m, pm_dec0 m)) (eng_metas e)"

lemma refresh_fee_kinds:
  assumes "refresh_fee node i w = (Inr (Inr u), w')"
  shows "same_kinds (vw_engine w) (vw_engine w')"
proof -
  have upd: "map (\<lambda>m. (pm_dex m, pm_dec0 m)) (xs[j := (xs ! j)\<lparr>pm_fee_pips := a, pm_fee_bps := b\<rparr>]) = map (\<lambda>m. (pm_dex m, pm_dec0 m)) xs"
    for xs :: "pool_meta list" and j a b
    by (cases "j < length xs") (auto intro!: nth_equalityI simp: nth_list_update list_update_beyond)
  show ?thesis
    using assms by (auto simp: refresh_fee_def hbind_def vmeta_def vcatch_def vask_run eok_def same_kinds_def Let_def upd
        set_fee_bps_def set_fee_pips_def rbind_def split: if_splits sum.splits option.splits)
qed

lemma unit_nonzero: "(10 :: u256) ^ unat (d :: u8) \<noteq> 0"
proof
  assume "(10 :: u256) ^ unat d = 0"
  then have "(of_nat (10 ^ unat d) :: u256) = 0" by simp
  then have "2 ^ LENGTH(256) dvd (10 :: nat) ^ unat d" by (simp only: word_of_nat_eq_0_iff)
  moreover have "(10 :: nat) = 2 * 5" "LENGTH(256) = 256" by simp_all
  ultimately have "2 ^ 256 dvd (2 * 5 :: nat) ^ unat d" by (simp only:)
  then have "2 ^ 256 dvd (2 ^ unat d * 5 ^ unat d :: nat)" by (simp only: power_mult_distrib)
  moreover have "coprime (2 ^ 256 :: nat) (5 ^ unat d)"
  proof -
    have "coprime 2 (5 :: nat)" by (simp add: coprime_left_2_iff_odd)
    then show ?thesis by (simp only: coprime_power_left_iff coprime_power_right_iff simp_thms)
  qed
  ultimately have "(2 :: nat) ^ 256 dvd 2 ^ unat d" by (simp only: coprime_dvd_mult_left_iff)
  then have "256 \<le> unat d" by (simp only: dvd_power_iff_le)
  moreover have "unat d < 256" using unsigned_less [of d, where 'a = nat] by simp
  ultimately show False by simp
qed

lemma some_size: "nonzero_sizes (quote_sizes meta) \<noteq> 0"
  using unit_nonzero [of "pm_dec0 meta"] by (simp add: nonzero_sizes_def quote_sizes_def Let_def)

definition tally_of :: "engine \<Rightarrow> nat list \<Rightarrow> dex_tag \<Rightarrow> nat set \<times> u64" where
  "tally_of e is d =
     (let pools = filter (\<lambda>i. pm_dex (eng_metas e ! i) = d) is
      in (set pools, of_nat (sum_list (map (\<lambda>i. nonzero_sizes (quote_sizes (eng_metas e ! i))) pools))))"

lemma math_loop_tally:
  fixes env :: "('w, 'e, 'x) verify_env"
  assumes "math_loop env is table w = (Inr (Inr table'), w')" "\<forall>i \<in> set is. i < eng_len e" "eng_len e \<le> 2 ^ 32" "same_kinds e (vw_engine w)"
  shows "dom table' = dom table \<union> {pm_dex (eng_metas e ! i) | i. i \<in> set is} \<and>
    (\<forall>d. tally table' d = (fst (tally table d) \<union> fst (tally_of e is d), snd (tally table d) + snd (tally_of e is d)))"
  using assms
proof (induction "is" arbitrary: table w)
  case Nil
  then show ?case by (simp add: hpure_def eok_def tally_of_def)
next
  case (Cons i "is")
  obtain meta w0 u w1 table1 w2 where run: "(vmeta (of_nat i) :: ('w, 'e, pool_meta) verifying) w = (Inr (Inr meta), w0)"
    "refresh_fee (ve_node env) i w0 = (Inr (Inr u), w1)" "size_loop env i meta (quote_sizes meta) table w1 = (Inr (Inr table1), w2)"
    "math_loop env is table1 w2 = (Inr (Inr table'), w')"
    using Cons.prems(1) unfolding math_loop.simps by (elim hbind_okE) (rule that; assumption)
  have i: "i < length (eng_metas e)" "unat (of_nat i :: u32) = i" using Cons.prems(2,3) by (auto simp: eng_len_def intro!: unat_of_nat_u32)
  have len: "length (eng_metas (vw_engine w)) = length (eng_metas e)" 
    using arg_cong [OF Cons.prems(4) [unfolded same_kinds_def], of length] by simp
  then have m: "w0 = w" "meta = eng_metas (vw_engine w) ! i"
    using run(1) i by (auto simp: vmeta_def eng_meta_def index_def idx_get_def eok_def)
  have "(pm_dex meta, pm_dec0 meta) = (pm_dex (eng_metas e ! i), pm_dec0 (eng_metas e ! i))"
    using arg_cong [OF Cons.prems(4) [unfolded same_kinds_def], of "\<lambda>xs. xs ! i"] i(1) len m(2) by simp
  then have meta: "pm_dex meta = pm_dex (eng_metas e ! i)" "quote_sizes meta = quote_sizes (eng_metas e ! i)" by (simp_all add: quote_sizes_def)
  note sizes = size_loop_tally [OF run(3), unfolded meta]
  have "same_kinds e (vw_engine w2)"
    using sizes refresh_fee_kinds [OF run(2)] Cons.prems(4) m(1) by (simp add: same_kinds_def)
  from Cons.IH [OF run(4) _ Cons.prems(3) this] Cons.prems(2)
  show ?case using sizes some_size [of "eng_metas e ! i"]
    by (auto simp: tally_of_def Let_def insert_commute ac_simps)
qed

text \<open>The accuracy table accounts for every quote: a protocol has a row exactly when the registry has a pool of it, the
  row's pools are those, and its quotes with its unverified ones are the nonzero sizes of these pools,
  whatever fees were refreshed or calls failed on the way.\<close>

lemma accuracy_accounts:
  assumes "verify_math env w = (Inr (Inr table), w')" "eng_len (vw_engine w) \<le> 2 ^ 32"
  shows "dom table = pm_dex ` set (eng_metas (vw_engine w)) \<and>
    (\<forall>d acc. table d = Some acc \<longrightarrow>
       (ac_pools acc, ac_quotes acc + ac_unverified acc) = tally_of (vw_engine w) [0..<eng_len (vw_engine w)] d)"
proof -
  have l: "dom table = {pm_dex (eng_metas (vw_engine w) ! i) | i. i < eng_len (vw_engine w)}"
    "\<forall>d. tally table d = tally_of (vw_engine w) [0..<eng_len (vw_engine w)] d"
    using math_loop_tally [OF assms(1) [unfolded verify_math_def], of "vw_engine w"] assms(2)
    by (auto simp: same_kinds_def tally_def)
  have "dom table = pm_dex ` set (eng_metas (vw_engine w))"
    unfolding l(1) by (auto simp: eng_len_def set_conv_nth)
  moreover have "(ac_pools acc, ac_quotes acc + ac_unverified acc) = tally table d" if "table d = Some acc" for d acc
    using that by (simp add: tally_def)
  ultimately show ?thesis using l(2) by simp
qed

end
