(* ===== verification/Reports.thy ===== *)
theory Reports
  imports Receipts Requote
begin

text \<open>
  What the program writes down, and the commands it is started with: the live and the paper records of
  \<^verbatim>\<open>src/executor/sender.rs\<close> and \<^verbatim>\<open>src/app.rs\<close>, the counters' summary of \<^verbatim>\<open>src/stats.rs\<close>, the connectivity check of
  \<^verbatim>\<open>src/app.rs\<close> and the dispatch of \<^verbatim>\<open>src/main.rs\<close>.  Records are kept as records; their JSON text is not modelled.
\<close>

section \<open>Records of opportunities\<close>

record live_record =
  lr_ts :: u64
  lr_block :: u64
  lr_route :: u32
  lr_hops :: "address list"
  lr_hash :: b256
  lr_status :: string
  lr_flashloan :: bool
  lr_eval :: evaluated
  lr_realized :: "realized option"

definition hop_addresses :: "engine \<Rightarrow> route \<Rightarrow> address list res" where
  "hop_addresses e r = rmap (\<lambda>h. rbind (eng_meta e (hop_pool h)) (\<lambda>m. Inr (pm_address m))) (rt_hops r)"

text \<open>The record of a submission that was seen landed or reverted, or not seen at all.\<close>

definition log_result ::
    "(address \<Rightarrow> string) \<Rightarrow> sender_env \<Rightarrow> anchor_config list \<Rightarrow> (address \<rightharpoonup> f64) \<Rightarrow> address \<Rightarrow> u64 \<Rightarrow> b256 \<Rightarrow> evaluated \<Rightarrow> bool
      \<Rightarrow> receipt option \<Rightarrow> bool \<Rightarrow> live_record res" where
  "log_result fmt env anchors prices executor ts hash ev flashloan r status =
     rbind (store_route (se_store env) (op_route_id (ev_opp ev))) (\<lambda>route.
     rbind (hop_addresses (se_engine env) route) (\<lambda>hops.
       Inr \<lparr>lr_ts = ts, lr_block = ev_block ev, lr_route = op_route_id (ev_opp ev), lr_hops = hops, lr_hash = hash,
            lr_status = (case r of Some _ \<Rightarrow> if status then ''landed'' else ''reverted'' | None \<Rightarrow> ''unknown''),
            lr_flashloan = flashloan, lr_eval = ev,
            lr_realized = map_option (realize fmt anchors prices executor (rt_anchor route)) r\<rparr>))"

record paper_record =
  pr_ts :: u64
  pr_block :: u64
  pr_route :: u32
  pr_hops :: "address list"
  pr_zfo :: "bool list"
  pr_v4 :: "v4_meta option list"
  pr_eval :: evaluated

definition paper_record_of :: "engine \<Rightarrow> route_store \<Rightarrow> u64 \<Rightarrow> evaluated \<Rightarrow> paper_record res" where
  "paper_record_of e store ts ev =
     rbind (store_route store (op_route_id (ev_opp ev))) (\<lambda>route.
     rbind (hop_addresses e route) (\<lambda>path.
     rbind (rmap (\<lambda>h. rbind (eng_meta e (hop_pool h)) (\<lambda>m. Inr (pm_v4 m))) (rt_hops route)) (\<lambda>v4.
       Inr \<lparr>pr_ts = ts, pr_block = ev_block ev, pr_route = op_route_id (ev_opp ev), pr_hops = path,
            pr_zfo = map hop_zero_for_one (rt_hops route), pr_v4 = v4, pr_eval = ev\<rparr>)))"

text \<open>
  The paper logger: every record goes to the console, and to the file for as long as writing to it
  succeeds.  A panic ends the task.
\<close>

record paper_logger =
  pl_open :: bool
  pl_file :: "paper_record list"
  pl_console :: "paper_record list"

definition paper_start :: "bool \<Rightarrow> paper_logger" where
  "paper_start opened = \<lparr>pl_open = opened, pl_file = [], pl_console = []\<rparr>"

definition paper_write :: "bool \<Rightarrow> paper_record \<Rightarrow> paper_logger \<Rightarrow> paper_logger" where
  "paper_write written rec pl =
     (let pl1 = pl\<lparr>pl_console := pl_console pl @ [rec]\<rparr>
      in if \<not> pl_open pl then pl1
         else if written then pl1\<lparr>pl_file := pl_file pl @ [rec]\<rparr>
         else pl1\<lparr>pl_open := False\<rparr>)"

fun paper_run :: "engine \<Rightarrow> route_store \<Rightarrow> (u64 \<times> bool \<times> evaluated) list \<Rightarrow> paper_logger \<Rightarrow> paper_logger res" where
  "paper_run e store [] pl = Inr pl"
| "paper_run e store ((ts, written, ev) # evs) pl =
     rbind (paper_record_of e store ts ev) (\<lambda>rec. paper_run e store evs (paper_write written rec pl))"

text \<open>The file holds the records up to the first failed write, the console all of them.\<close>

lemma paper_run_logs:
  assumes "paper_run e store evs pl = Inr pl'"
  shows "\<exists>recs. rmap (\<lambda>(ts, _, ev). paper_record_of e store ts ev) evs = Inr recs \<and>
    pl_console pl' = pl_console pl @ recs \<and>
    pl_file pl' = pl_file pl @ (if pl_open pl then map fst (takeWhile snd (zip recs (map (fst \<circ> snd) evs))) else [])"
  using assms
proof (induction evs arbitrary: pl)
  case Nil
  then show ?case by simp
next
  case (Cons x evs)
  obtain ts written ev where x: "x = (ts, written, ev)" by (cases x)
  obtain rec where r: "paper_record_of e store ts ev = Inr rec" "paper_run e store evs (paper_write written rec pl) = Inr pl'"
    using Cons.prems by (auto simp: x rbind_eq_Inr)
  from Cons.IH [OF r(2)] show ?case by (auto simp: x r(1) paper_write_def Let_def)
qed

section \<open>The summary of the counters\<close>

record stats_line =
  sl_pools :: nat
  sl_reads_rpc :: u64
  sl_reads_memo :: u64
  sl_counters :: stats

definition stats_summary :: "stats \<Rightarrow> chain_state \<Rightarrow> nat \<Rightarrow> stats_line" where
  "stats_summary st s pool_count =
     (case read_counters s of (rpc, memo) \<Rightarrow>
        \<lparr>sl_pools = pool_count, sl_reads_rpc = rpc, sl_reads_memo = memo, sl_counters = st\<rparr>)"

section \<open>Connectivity\<close>

datatype 'e connect_error = Unreachable 'e | WrongChain u64 | NoBaseFee

record config_report =
  cr_head :: u64
  cr_base_fee :: u128
  cr_gas_price :: u128
  cr_tip :: u128
  cr_l1_fee :: u128
  cr_cost :: u128

text \<open>\<open>gas\<close> is the gas station after its four seconds of polling, \<open>suggested\<close> the node's gas price.\<close>

definition check_connectivity ::
    "('w \<Rightarrow> ('e + u64) \<times> 'w) \<Rightarrow> ('w \<Rightarrow> ('e + u64) \<times> 'w) \<Rightarrow> gas_station \<Rightarrow> 'e + u128 \<Rightarrow> 'w
      \<Rightarrow> ('e connect_error, config_report) eres" where
  "check_connectivity ask_chain ask_head gas suggested w =
     (case ask_chain w of
        (Inl e, w1) \<Rightarrow> Inr (Inl (Unreachable e))
      | (Inr chain_id, w1) \<Rightarrow>
          if chain_id \<noteq> CHAIN_ID then Inr (Inl (WrongChain chain_id))
          else
            (case ask_head w1 of
               (Inl e, w2) \<Rightarrow> Inr (Inl (Unreachable e))
             | (Inr head, w2) \<Rightarrow>
                 if base_fee gas = 0 then Inr (Inl NoBaseFee)
                 else rbind (priority_fee gas 0 630000) (\<lambda>prio.
                   let calldata_len = 200 + 3 * 160
                   in eok \<lparr>cr_head = head, cr_base_fee = base_fee gas,
                           cr_gas_price = (case suggested of Inr p \<Rightarrow> p | Inl _ \<Rightarrow> 0), cr_tip = prio,
                           cr_l1_fee = estimate_l1_fee gas calldata_len,
                           cr_cost = total_gas_cost gas 630000 prio calldata_len\<rparr>)))"

text \<open>The oracle check: the base fee estimate, then the prices; only their reachability matters.\<close>

definition check_gas_oracle ::
    "('w \<Rightarrow> ('e + u256) \<times> 'w) \<Rightarrow> ('w \<Rightarrow> ('e + u256 \<times> u256) \<times> 'w) \<Rightarrow> 'w \<Rightarrow> 'e + u256 \<times> u256 \<times> u256" where
  "check_gas_oracle ask_l1 ask_prices w =
     (case ask_l1 w of
        (Inl e, w1) \<Rightarrow> Inl e
      | (Inr l1, w1) \<Rightarrow> (case fst (ask_prices w1) of Inl e \<Rightarrow> Inl e | Inr (tx, unit) \<Rightarrow> Inr (l1, tx, unit)))"

section \<open>Commands\<close>

datatype command = CmdRun | CmdCheckConfig | CmdDiscover | CmdVerifyState nat | CmdVerifyQuote nat | CmdVerifyMath | CmdBenchRoutes

datatype report =
    Running app
  | Discovered nat nat
  | Audited audit_report
  | Replayed "route_report list"
  | Accuracies accuracy_table
  | Benched scan_counts

definition emap :: "('a \<Rightarrow> 'b) \<Rightarrow> ('e, 'a) eres \<Rightarrow> ('e, 'b) eres" where
  "emap f r = ebind r (\<lambda>x. eok (f x))"

definition after_bootstrap :: "('w, 'e, 'x) verify_env \<Rightarrow> command \<Rightarrow> app \<Rightarrow> 'w \<Rightarrow> ('e, report) eres" where
  "after_bootstrap env cmd a net =
     (let w = verify_start a net
      in case cmd of
           CmdDiscover \<Rightarrow> eok (Discovered (eng_len (app_engine a)) (store_len (app_store a)))
         | CmdVerifyState sample \<Rightarrow> emap Audited (fst (verify_state env sample w))
         | CmdVerifyQuote top_n \<Rightarrow> emap Replayed (fst (verify_quotes env a top_n w))
         | CmdVerifyMath \<Rightarrow> emap Accuracies (fst (verify_math env w))
         | CmdBenchRoutes \<Rightarrow> rbind (bench_route_scan env a) (\<lambda>c. eok (Benched c))
         | _ \<Rightarrow> eok (Running a))"

text \<open>Every command but the connectivity check starts the whole application; nothing is returned if that never ends.\<close>

definition run_command ::
    "('w, 'l, 'e) app_env \<Rightarrow> ('w, 'f, 'x) verify_env \<Rightarrow> config \<Rightarrow> command \<Rightarrow> 'w app_world \<Rightarrow> ('e app_error + 'f, report) eres option" where
  "run_command env venv cfg cmd w =
     (case app_bootstrap env cfg w of
        None \<Rightarrow> None
      | Some (Inl p, w1) \<Rightarrow> Some (Inl p)
      | Some (Inr (Inl e), w1) \<Rightarrow> Some (Inr (Inl (Inl e)))
      | Some (Inr (Inr a), w1) \<Rightarrow>
          Some (rbind (after_bootstrap venv cmd a (aw_net w1)) (\<lambda>r. case r of Inl e \<Rightarrow> Inr (Inl (Inr e)) | Inr rep \<Rightarrow> eok rep)))"

end
