(* ===== verification/Spec2Isabelle.thy ===== *)
theory Spec2Isabelle
  imports Encoder Events Reports
begin

text \<open>
  Verification library of \<^verbatim>\<open>robinarb\<close>, a cyclic-arbitrage searcher and executor for one EVM
  chain.  All paths below are relative to \<^verbatim>\<open>src/src\<close>.

  \<^bold>\<open>The program.\<close>  At start-up pools are discovered from factory logs and hydrated
  (\<^verbatim>\<open>ingest/discovery.rs\<close>, \<^verbatim>\<open>bootstrap.rs\<close>), a fixed registry is built of them (\<^verbatim>\<open>engine\<close>), all arbitrage
  cycles through the configured anchor tokens are enumerated (\<^verbatim>\<open>routing/graph.rs\<close>) and indexed by
  pool (\<^verbatim>\<open>routing/store.rs\<close>), and a storage recipe is derived per pool (\<^verbatim>\<open>ingest/slot_layout.rs\<close>,
  \<^verbatim>\<open>state.rs\<close>).  Then four concurrent parts run: the log ingest resolves chain logs to pools
  (\<^verbatim>\<open>ingest/rpc_backend.rs\<close>); the pipeline batches them per block, prefetches the route
  neighbourhood of the changed pools and announces a batch (\<^verbatim>\<open>ingest/pipeline.rs\<close>); the evaluator
  quotes the affected routes, sizes them and vets them against gas (\<^verbatim>\<open>routing\<close>, \<^verbatim>\<open>math\<close>, \<^verbatim>\<open>gas\<close>);
  the sender signs and races the surviving ones over its lanes (\<^verbatim>\<open>executor\<close>).

  \<^bold>\<open>Conventions.\<close>  Release semantics: primitive integers wrap at their width and are words;
  signed integers are \<open>int\<close> with the wrap written out; \<open>usize\<close> is \<open>nat\<close>; 256-bit integers wrap
  and a zero divisor panics.  A panic is \<open>Inl\<close> of a value of type \<open>panic\<close>, so every operation
  states which panics it can reach.  Floating point is the executable binary64 of F64.
  Code outside the repository (RPC answers, keccak, the tick arithmetic of the crate
  uniswap_v3_math, ABI coding, signing, the clock, hash-map iteration order) is an argument of the
  definitions that use it.  Asynchronous reads of one batch are folds, and the order of a batch is
  shown not to matter; concurrency that does matter (submission tasks, the blacklist) is a step
  relation.

  \<^bold>\<open>Theories, in dependency order.\<close>
  \<^item> Prelude: results and panics, sorting, list and word lemmas.  F64: \<open>f64\<close>.
  \<^item> Config: \<^verbatim>\<open>config.rs\<close>, \<^verbatim>\<open>constants.rs\<close>.  Engine: \<^verbatim>\<open>engine/*\<close> and \<^verbatim>\<open>routing/types.rs\<close>;
    construction succeeds exactly on well-formed registrations, and lookups agree with it.
  \<^item> V2_Math, Stable_Math, V3_Math: \<^verbatim>\<open>math/v2.rs\<close>, \<^verbatim>\<open>aero_stable.rs\<close>, \<^verbatim>\<open>v3.rs\<close>.  Exactness and
    conservation of the constant-product quote; outcome of the stable quote; nearest-tick search,
    agreement of the lazy and the windowed walk, monotonicity in the knowledge of ticks.
  \<^item> Slot_Layout: \<^verbatim>\<open>ingest/slot_layout.rs\<close>; decoders invert packing, discovered layouts are
    confirmed by the view calls.
  \<^item> Route_Store: \<^verbatim>\<open>routing/store.rs\<close>, with the interface \<open>route_index\<close> its clients rely on.
  \<^item> Chain_State: \<^verbatim>\<open>state.rs\<close>; the interface \<open>slot_cache\<close> is interpreted by the memo and by the
    tick cache.  Advancing leaves only fresh entries, a hydrated window is complete, the resync loop
    flushes when its input pauses.
  \<^item> Quote: \<^verbatim>\<open>math/mod.rs\<close>, where math meets state: quotes over partial caches are conservative.
  \<^item> Graph: \<^verbatim>\<open>routing/graph.rs\<close>; soundness and completeness against the declarative \<open>arb_cycle\<close>.
  \<^item> Optimizer: \<^verbatim>\<open>routing/optimizer.rs\<close>.  Gas: \<^verbatim>\<open>gas/gas_station.rs\<close>.
  \<^item> Evaluator: \<^verbatim>\<open>routing/evaluator.rs\<close>, one turn of its loop, over the interface
    \<open>profit_source\<close> interpreted by \<open>optimize\<close>.
  \<^item> Encoder: \<^verbatim>\<open>executor/encoder.rs\<close>.  Sender: \<^verbatim>\<open>executor/sender.rs\<close>, \<^verbatim>\<open>nonce.rs\<close>, \<^verbatim>\<open>lanes.rs\<close>
    as the relations \<open>task_step\<close>, \<open>sender_step\<close>, \<open>sender_run\<close>; its invariants are by rule induction.
    Receipts: what the sender reads off a receipt.
  \<^item> Multicall: \<^verbatim>\<open>ingest/multicall.rs\<close>.  Rpc_Backend: \<^verbatim>\<open>ingest/backend.rs\<close>, \<^verbatim>\<open>rpc_backend.rs\<close>.
    Pipeline: \<^verbatim>\<open>ingest/pipeline.rs\<close>, composed with Chain_State, Route_Store and the evaluator's
    candidate set.
  \<^item> Discovery: \<^verbatim>\<open>ingest/discovery.rs\<close>; one scan decodes every log of its range once, over any
    batching and bisection.  Fee_Probe: \<^verbatim>\<open>ingest/fee_probe.rs\<close>; the verdicts do not depend on the order
    in which the probes complete.
  \<^item> Bootstrap: \<^verbatim>\<open>ingest/bootstrap.rs\<close>, composed of one stage per protocol family; it ends in
    registrations that \<open>engine_new\<close> of Engine accepts.  Loader: \<^verbatim>\<open>ingest/loader.rs\<close>, the pinned pools
    that replace discovery.
  \<^item> Fees: \<^verbatim>\<open>ingest/fees.rs\<close>, one turn of the fee tracker and its runs beside the other tasks: fees
    never change unannounced; its fast path is dead; one hostile pool ends it.
  \<^item> Pricing: \<^verbatim>\<open>pricing.rs\<close>.  App: \<^verbatim>\<open>app.rs\<close>, the whole start-up as one state-passing program over
    Discovery, Loader, Bootstrap, Engine, Slot_Layout, Chain_State, Graph, Route_Store and Pricing,
    and the states the running parts begin in; \<open>app_ready\<close> says what it guarantees them.
  \<^item> Events: the events of \<^verbatim>\<open>abi.rs\<close> and the topics \<^verbatim>\<open>app.rs\<close> subscribes to, composed with the live session
    of Rpc_Backend; which declared events the ingest can see.
  \<^item> Verify: \<^verbatim>\<open>verify.rs\<close>, the retries and the decode audit, whose counts are exact over a node at rest.
    Requote: its on-chain quotes, the replay of profitable routes, the accuracy table and the scan
    benchmark, related to Optimizer and Evaluator.  The commands share registry and chain state with
    the application and run as a state-passing program over a node that moves on with each request.
  \<^item> Reports: the records the sender and the paper logger write, the counter summary of \<^verbatim>\<open>stats.rs\<close>, the
    connectivity check, and the command dispatch of \<^verbatim>\<open>main.rs\<close>.

  \<^bold>\<open>Bounds and fuel.\<close>  Loops with a fixed iteration count in the source (255 Newton steps,
  60 ternary steps, 3 or 5 attempts) recurse on that count.  The CL walk stops after 1024 steps as the
  source does, so it needs no fuel of its own.
  The replay loop has fuel 17: at most 3000 blocks in chunks of 200 need 16 rounds, and
  \<open>backfill_loop_fuel\<close> shows more fuel changes nothing.  Recursions on ranges and chunks have
  termination proofs.  The scan of Discovery is a \<open>partial_function\<close>, because a zero chunk size makes
  it run forever (\<open>zero_chunk_never_returns\<close>); with a positive chunk it is shown to return.

  \<^bold>\<open>Not modelled.\<close>  Reading configuration files, parsing arguments, the websocket and HTTP transports, log
  lines, JSON text, latency measurements and sleeps.  Of \<^verbatim>\<open>abi.rs\<close> the view and calldata interfaces: their
  coders are macro-generated and are arguments of the definitions that use them.  Of \<^verbatim>\<open>app.rs\<close> the
  spawning of tasks and the channels between them: the tasks are modelled one by one, with what the
  others do as inputs.  The unit tests and their helpers.
\<close>

end
